(* ===== verification/Prelude.thy ===== *)
theory Prelude
  imports Main "HOL-Library.Word" "HOL-Library.List_Lexorder" "HOL-Library.Char_ord" "HOL-Library.Multiset"
begin

text \<open>
  What the component theories share: the collections of rewrite and introduction rules the
  components fill, \<open>std::expected\<close> as a sum type with its \<open>and_then\<close> and \<open>transform\<close>, the
  ranges of the fixed-width integers the sources use, and lemmas on lists.
\<close>

section \<open>Collections\<close>

named_theorems op_defs \<open>definitions of the operations of a component\<close>
named_theorems inv_pres \<open>an operation of a component keeps its invariant\<close>

section \<open>std::expected\<close>

text \<open>
  \<open>std::expected<T, E>\<close> is the sum \<open>'e + 'a\<close>: \<open>Inl\<close> holds the error (\<open>std::unexpected\<close>) and
  \<open>Inr\<close> the value.
\<close>

primrec and_then :: "'e + 'a \<Rightarrow> ('a \<Rightarrow> 'e + 'b) \<Rightarrow> 'e + 'b" where
  "and_then (Inl e) f = Inl e"
| "and_then (Inr a) f = f a"

primrec transform :: "'e + 'a \<Rightarrow> ('a \<Rightarrow> 'b) \<Rightarrow> 'e + 'b" where
  "transform (Inl e) f = Inl e"
| "transform (Inr a) f = Inr (f a)"

primrec has_value :: "'e + 'a \<Rightarrow> bool" where
  "has_value (Inl e) = False"
| "has_value (Inr a) = True"

lemma and_then_Inr_iff: "and_then r f = Inr b \<longleftrightarrow> (\<exists>a. r = Inr a \<and> f a = Inr b)"
  by (cases r) auto

lemma and_then_Inl_iff:
  "and_then r f = Inl e \<longleftrightarrow> r = Inl e \<or> (\<exists>a. r = Inr a \<and> f a = Inl e)"
  by (cases r) auto

lemma transform_Inr_iff: "transform r f = Inr b \<longleftrightarrow> (\<exists>a. r = Inr a \<and> b = f a)"
  by (cases r) auto

lemma transform_Inl_iff [simp]: "transform r f = Inl e \<longleftrightarrow> r = Inl e"
  by (cases r) auto

lemma has_value_iff: "has_value r \<longleftrightarrow> (\<exists>a. r = Inr a)"
  by (cases r) auto

text \<open>\<open>o.has_value() && P(*o)\<close> of a \<open>std::optional\<close>.\<close>

definition opt_holds :: "('a \<Rightarrow> bool) \<Rightarrow> 'a option \<Rightarrow> bool" where
  "opt_holds P opt = (case opt of None \<Rightarrow> False | Some x \<Rightarrow> P x)"

lemma opt_holds_iff [simp]: "opt_holds P opt \<longleftrightarrow> (\<exists>x. opt = Some x \<and> P x)"
  by (simp add: opt_holds_def split: option.split)

text \<open>
  A loop over a vector that converts each element and returns at the first error, in the
  order of the elements.
\<close>

fun traverse :: "('a \<Rightarrow> 'e + 'b) \<Rightarrow> 'a list \<Rightarrow> 'e + 'b list" where
  "traverse f [] = Inr []"
| "traverse f (x # xs) =
     (case f x of
        Inl e \<Rightarrow> Inl e
      | Inr y \<Rightarrow> (case traverse f xs of Inl e \<Rightarrow> Inl e | Inr ys \<Rightarrow> Inr (y # ys)))"

lemma traverse_Inr_iff: "traverse f xs = Inr ys \<longleftrightarrow> list_all2 (\<lambda>x y. f x = Inr y) xs ys"
proof (induction xs arbitrary: ys)
  case Nil
  then show ?case by auto
next
  case (Cons x xs)
  show ?case
    by (cases ys) (auto simp: Cons.IH [symmetric] split: sum.splits)
qed

lemma traverse_map: "(\<And>x. x \<in> set xs \<Longrightarrow> f (g x) = Inr x) \<Longrightarrow> traverse f (map g xs) = Inr xs"
  by (induction xs) auto

lemma traverse_map_to: "(\<And>x. x \<in> set xs \<Longrightarrow> f (g x) = Inr (h x)) \<Longrightarrow> traverse f (map g xs) = Inr (map h xs)"
  by (induction xs) auto

section \<open>Fixed-width integers\<close>

text \<open>
  A signed integer of the sources is an \<open>int\<close>. Its arithmetic is the mathematical result
  brought back to its width in two's complement (\<open>wrap_i64\<close>, \<open>wrap_i8\<close>, \<open>wrap_i32\<close>): where the
  result is in range the wrap is the identity, and theorems say where that is so.
\<close>

definition INT64_MAX :: int where "INT64_MAX = 9223372036854775807"
definition INT64_MIN :: int where "INT64_MIN = - 9223372036854775808"
definition INT32_MAX :: int where "INT32_MAX = 2147483647"
definition INT32_MIN :: int where "INT32_MIN = - 2147483648"

lemmas int_limits = INT64_MAX_def INT64_MIN_def INT32_MAX_def INT32_MIN_def

definition in_i64 :: "int \<Rightarrow> bool" where "in_i64 x \<longleftrightarrow> INT64_MIN \<le> x \<and> x \<le> INT64_MAX"
definition in_i32 :: "int \<Rightarrow> bool" where "in_i32 x \<longleftrightarrow> INT32_MIN \<le> x \<and> x \<le> INT32_MAX"
definition in_i8 :: "int \<Rightarrow> bool" where "in_i8 x \<longleftrightarrow> - 128 \<le> x \<and> x \<le> 127"
definition in_u16 :: "int \<Rightarrow> bool" where "in_u16 x \<longleftrightarrow> 0 \<le> x \<and> x \<le> 65535"

definition wrap_i64 :: "int \<Rightarrow> int" where
  "wrap_i64 x = (x + 9223372036854775808) mod 18446744073709551616 - 9223372036854775808"

definition wrap_i8 :: "int \<Rightarrow> int" where
  "wrap_i8 x = (x + 128) mod 256 - 128"

definition wrap_u16 :: "int \<Rightarrow> int" where
  "wrap_u16 x = x mod 65536"

lemma wrap_i64_id [simp]: "in_i64 x \<Longrightarrow> wrap_i64 x = x"
  by (simp add: wrap_i64_def in_i64_def int_limits)

lemma wrap_i64_range: "in_i64 (wrap_i64 x)"
  by (simp add: wrap_i64_def in_i64_def int_limits)

lemma wrap_i64_succ_le: "in_i64 x \<Longrightarrow> wrap_i64 (x + 1) \<le> x + 1"
  by (cases "x = INT64_MAX") (auto simp: wrap_i64_def in_i64_def int_limits)

lemma wrap_i8_id [simp]: "in_i8 x \<Longrightarrow> wrap_i8 x = x"
  by (simp add: wrap_i8_def in_i8_def)

lemma wrap_i8_range: "in_i8 (wrap_i8 x)"
  by (simp add: wrap_i8_def in_i8_def)

lemma wrap_u16_id [simp]: "in_u16 x \<Longrightarrow> wrap_u16 x = x"
  by (simp add: wrap_u16_def in_u16_def)

lemma wrap_u16_range: "in_u16 (wrap_u16 x)"
  by (simp add: wrap_u16_def in_u16_def)

text \<open>\<open>--n\<close> on a \<open>std::size_t\<close>: below zero it wraps to the largest 64-bit value.\<close>

definition size_dec :: "nat \<Rightarrow> nat" where
  "size_dec n = (if n = 0 then 18446744073709551615 else n - 1)"

lemma size_dec_pos [simp]: "0 < n \<Longrightarrow> size_dec n = n - 1"
  by (simp add: size_dec_def)

section \<open>Lists\<close>

lemma takeWhile_eq_take_length:
  "(\<forall>i < n. P (xs ! i)) \<Longrightarrow> n \<le> length xs \<Longrightarrow> (n < length xs \<Longrightarrow> \<not> P (xs ! n)) \<Longrightarrow>
   length (takeWhile P xs) = n"
proof (induction xs arbitrary: n)
  case Nil
  then show ?case by simp
next
  case (Cons x xs)
  show ?case
  proof (cases n)
    case 0
    with Cons.prems show ?thesis by simp
  next
    case (Suc m)
    have "\<forall>i < m. P (xs ! i)" using Cons.prems(1) Suc by force
    moreover have "m \<le> length xs" using Cons.prems(2) Suc by simp
    moreover have "m < length xs \<Longrightarrow> \<not> P (xs ! m)" using Cons.prems(3) Suc by simp
    ultimately have "length (takeWhile P xs) = m" by (rule Cons.IH)
    moreover have "P x" using Cons.prems(1) Suc by force
    ultimately show ?thesis using Suc by simp
  qed
qed

lemma le_length_takeWhile:
  "n \<le> length xs \<Longrightarrow> (\<And>i. i < n \<Longrightarrow> P (xs ! i)) \<Longrightarrow> n \<le> length (takeWhile P xs)"
  by (rule ccontr) (metis (no_types, lifting) nth_length_takeWhile not_le order_less_le_trans)

lemma takeWhile_drop_prefix:
  assumes "k \<le> length (takeWhile P xs)"
  shows "length (takeWhile P (drop k xs)) = length (takeWhile P xs) - k"
    and "filter (\<lambda>x. \<not> P x) (drop k xs) = filter (\<lambda>x. \<not> P x) xs"
proof -
  have all: "\<forall>x \<in> set (take k xs). P x"
    using assms by (auto simp: in_set_conv_nth) (metis nth_take order_less_le_trans set_takeWhileD
        takeWhile_nth nth_mem)
  have "takeWhile P (take k xs @ drop k xs) = take k xs @ takeWhile P (drop k xs)"
    using all by (simp add: takeWhile_append del: append_take_drop_id)
  moreover have "k \<le> length xs" using assms length_takeWhile_le [of P xs] by linarith
  ultimately show "length (takeWhile P (drop k xs)) = length (takeWhile P xs) - k"
    by simp
  have "filter (\<lambda>x. \<not> P x) (take k xs @ drop k xs) = filter (\<lambda>x. \<not> P x) (drop k xs)"
    using all by (simp only: filter_append) (simp add: filter_empty_conv)
  then show "filter (\<lambda>x. \<not> P x) (drop k xs) = filter (\<lambda>x. \<not> P x) xs"
    by simp
qed

lemma sorted_wrt_update_same_key:
  assumes "sorted_wrt (\<lambda>a b. f a < (f b :: 'b::order)) xs" "i < length xs" "f y = f (xs ! i)"
  shows "sorted_wrt (\<lambda>a b. f a < f b) (xs[i := y])"
  using assms by (auto simp: sorted_wrt_iff_nth_less nth_list_update)

lemma count_filter_update:
  assumes "i < length xs" "P (xs ! i)" "\<not> P y"
  shows "length (filter P (xs[i := y])) = length (filter P xs) - 1"
    and "0 < length (filter P xs)"
proof -
  have "xs = take i xs @ xs ! i # drop (Suc i) xs"
    using assms(1) by (rule id_take_nth_drop)
  then have xs: "filter P xs = filter P (take i xs) @ xs ! i # filter P (drop (Suc i) xs)"
    using assms(2) by (metis filter.simps(2) filter_append)
  have "xs[i := y] = take i xs @ y # drop (Suc i) xs"
    using assms(1) by (simp add: upd_conv_take_nth_drop)
  then have "filter P (xs[i := y]) = filter P (take i xs) @ filter P (drop (Suc i) xs)"
    using assms(3) by simp
  with xs show "length (filter P (xs[i := y])) = length (filter P xs) - 1"
    and "0 < length (filter P xs)" by simp_all
qed

end
