(* ===== verification/ErrorCodes.thy ===== *)
theory ErrorCodes
  imports Prelude
begin

text \<open>
  The error enumerations of the three services and the shared libraries, the
  \<open>std::error_category\<close> of each (its \<open>name\<close> and its \<open>message\<close>) and the \<open>make_error_code\<close> that
  turns an enumerator into a \<open>std::error_code\<close>. An error code is a value and a category: two
  codes are equal when both agree, which is what \<open>operator==\<close> of \<open>std::error_code\<close> compares.
  The categories are the singletons of the sources. A \<open>message\<close> casts its argument to an
  enumeration of underlying type \<open>std::uint8_t\<close> (\<open>JsonParseError\<close> has underlying type \<open>int\<close>), so
  the cast takes the value modulo 256.
\<close>

section \<open>Error codes\<close>

datatype error_category =
    StrongIdErrorCategory
  | HostErrorCategory
  | NetworkAddressErrorCategory
  | DatabaseConfigurationErrorCategory
  | EnvironmentConfigurationErrorCategory
  | JsonParseErrorCategory
  | RepositoryErrorCategory
  | OffsetTrackerErrorCategory
  | PartitionRegistryErrorCategory
  | EventConsumerErrorCategory
  | EventPublisherErrorCategory
  | CurrencyErrorCategory
  | MoneyErrorCategory
  | OrderItemErrorCategory
  | OrderErrorCategory
  | ProcessingErrorCategory
  | GenericCategory

record error_code =
  ec_value :: int
  ec_category :: error_category

type_synonym 'a expected = "error_code + 'a"

text \<open>The two \<open>std::errc\<close> values the sources use, in the generic category.\<close>

definition errc_invalid_argument :: error_code where
  "errc_invalid_argument = \<lparr>ec_value = 22, ec_category = GenericCategory\<rparr>"

definition errc_operation_in_progress :: error_code where
  "errc_operation_in_progress = \<lparr>ec_value = 115, ec_category = GenericCategory\<rparr>"

section \<open>The enumerations and their categories\<close>

subsection \<open>StrongIdError\<close>

datatype StrongIdError = EmptyId | InvalidFormat

primrec StrongIdError_value :: "StrongIdError \<Rightarrow> int" where
  "StrongIdError_value StrongIdError.EmptyId = 1"
| "StrongIdError_value StrongIdError.InvalidFormat = 2"

definition StrongIdError_name :: string where "StrongIdError_name = ''strongId''"

definition StrongIdError_message :: "int \<Rightarrow> string" where
  "StrongIdError_message ev =
     (let e = ev mod 256 in
      if e = StrongIdError_value StrongIdError.EmptyId then ''empty id''
      else if e = StrongIdError_value StrongIdError.InvalidFormat then ''invalid format''
      else ''unknown strongId error'')"

definition make_StrongIdError :: "StrongIdError \<Rightarrow> error_code" where
  "make_StrongIdError e = \<lparr>ec_value = StrongIdError_value e, ec_category = StrongIdErrorCategory\<rparr>"

subsection \<open>HostError\<close>

datatype HostError = EmptyHost | InvalidFormat

primrec HostError_value :: "HostError \<Rightarrow> int" where
  "HostError_value HostError.EmptyHost = 1"
| "HostError_value HostError.InvalidFormat = 2"

definition HostError_name :: string where "HostError_name = ''host''"

definition HostError_message :: "int \<Rightarrow> string" where
  "HostError_message ev =
     (let e = ev mod 256 in
      if e = HostError_value HostError.EmptyHost then ''empty host''
      else if e = HostError_value HostError.InvalidFormat then ''invalid format''
      else ''unknown host error'')"

definition make_HostError :: "HostError \<Rightarrow> error_code" where
  "make_HostError e = \<lparr>ec_value = HostError_value e, ec_category = HostErrorCategory\<rparr>"

subsection \<open>NetworkAddressError\<close>

datatype NetworkAddressError = EmptyAddress | InvalidFormat

primrec NetworkAddressError_value :: "NetworkAddressError \<Rightarrow> int" where
  "NetworkAddressError_value NetworkAddressError.EmptyAddress = 1"
| "NetworkAddressError_value NetworkAddressError.InvalidFormat = 2"

definition NetworkAddressError_name :: string where "NetworkAddressError_name = ''networkAddress''"

definition NetworkAddressError_message :: "int \<Rightarrow> string" where
  "NetworkAddressError_message ev =
     (let e = ev mod 256 in
      if e = NetworkAddressError_value NetworkAddressError.EmptyAddress then ''empty address''
      else if e = NetworkAddressError_value NetworkAddressError.InvalidFormat then ''invalid format''
      else ''unknown networkAddress error'')"

definition make_NetworkAddressError :: "NetworkAddressError \<Rightarrow> error_code" where
  "make_NetworkAddressError e = \<lparr>ec_value = NetworkAddressError_value e, ec_category = NetworkAddressErrorCategory\<rparr>"

subsection \<open>DatabaseConfigurationError\<close>

datatype DatabaseConfigurationError = EmptyHost | EmptyDatabaseName | EmptyUser | InvalidPort | InvalidUrl

primrec DatabaseConfigurationError_value :: "DatabaseConfigurationError \<Rightarrow> int" where
  "DatabaseConfigurationError_value DatabaseConfigurationError.EmptyHost = 1"
| "DatabaseConfigurationError_value DatabaseConfigurationError.EmptyDatabaseName = 2"
| "DatabaseConfigurationError_value DatabaseConfigurationError.EmptyUser = 3"
| "DatabaseConfigurationError_value DatabaseConfigurationError.InvalidPort = 4"
| "DatabaseConfigurationError_value DatabaseConfigurationError.InvalidUrl = 5"

definition DatabaseConfigurationError_name :: string where "DatabaseConfigurationError_name = ''databaseConfiguration''"

definition DatabaseConfigurationError_message :: "int \<Rightarrow> string" where
  "DatabaseConfigurationError_message ev =
     (let e = ev mod 256 in
      if e = DatabaseConfigurationError_value DatabaseConfigurationError.EmptyHost then ''empty host''
      else if e = DatabaseConfigurationError_value DatabaseConfigurationError.EmptyDatabaseName then ''empty database name''
      else if e = DatabaseConfigurationError_value DatabaseConfigurationError.EmptyUser then ''empty user''
      else if e = DatabaseConfigurationError_value DatabaseConfigurationError.InvalidPort then ''invalid port''
      else if e = DatabaseConfigurationError_value DatabaseConfigurationError.InvalidUrl then ''invalid url''
      else ''unknown database config error'')"

definition make_DatabaseConfigurationError :: "DatabaseConfigurationError \<Rightarrow> error_code" where
  "make_DatabaseConfigurationError e = \<lparr>ec_value = DatabaseConfigurationError_value e, ec_category = DatabaseConfigurationErrorCategory\<rparr>"

subsection \<open>EnvironmentConfigurationError\<close>

datatype EnvironmentConfigurationError = MissingRequiredVariable

primrec EnvironmentConfigurationError_value :: "EnvironmentConfigurationError \<Rightarrow> int" where
  "EnvironmentConfigurationError_value EnvironmentConfigurationError.MissingRequiredVariable = 1"

definition EnvironmentConfigurationError_name :: string where "EnvironmentConfigurationError_name = ''environmentConfiguration''"

definition EnvironmentConfigurationError_message :: "int \<Rightarrow> string" where
  "EnvironmentConfigurationError_message ev =
     (let e = ev mod 256 in
      if e = EnvironmentConfigurationError_value EnvironmentConfigurationError.MissingRequiredVariable then ''missing required environment variable''
      else ''unknown environment configuration error'')"

definition make_EnvironmentConfigurationError :: "EnvironmentConfigurationError \<Rightarrow> error_code" where
  "make_EnvironmentConfigurationError e = \<lparr>ec_value = EnvironmentConfigurationError_value e, ec_category = EnvironmentConfigurationErrorCategory\<rparr>"

subsection \<open>JsonParseError\<close>

datatype JsonParseError = InvalidFormat | InvalidPath | FileAccessDenied | SectionNotFound | KeyNotFound | UnknownError

primrec JsonParseError_value :: "JsonParseError \<Rightarrow> int" where
  "JsonParseError_value JsonParseError.InvalidFormat = 1"
| "JsonParseError_value JsonParseError.InvalidPath = 2"
| "JsonParseError_value JsonParseError.FileAccessDenied = 3"
| "JsonParseError_value JsonParseError.SectionNotFound = 4"
| "JsonParseError_value JsonParseError.KeyNotFound = 5"
| "JsonParseError_value JsonParseError.UnknownError = 6"

definition JsonParseError_name :: string where "JsonParseError_name = ''json parse''"

definition JsonParseError_message :: "int \<Rightarrow> string" where
  "JsonParseError_message ev =
     (let e = ev in
      if e = JsonParseError_value JsonParseError.InvalidFormat then ''invalid json format''
      else if e = JsonParseError_value JsonParseError.InvalidPath then ''invalid path''
      else if e = JsonParseError_value JsonParseError.FileAccessDenied then ''file access denied''
      else if e = JsonParseError_value JsonParseError.SectionNotFound then ''section not found''
      else if e = JsonParseError_value JsonParseError.KeyNotFound then ''key not found''
      else if e = JsonParseError_value JsonParseError.UnknownError then ''unknown error''
      else ''unknown json parse error'')"

definition make_JsonParseError :: "JsonParseError \<Rightarrow> error_code" where
  "make_JsonParseError e = \<lparr>ec_value = JsonParseError_value e, ec_category = JsonParseErrorCategory\<rparr>"

subsection \<open>RepositoryError\<close>

datatype RepositoryError = NotFound | ConnectionFailure | Timeout | ConstraintViolation | SerializationFailure

primrec RepositoryError_value :: "RepositoryError \<Rightarrow> int" where
  "RepositoryError_value RepositoryError.NotFound = 1"
| "RepositoryError_value RepositoryError.ConnectionFailure = 2"
| "RepositoryError_value RepositoryError.Timeout = 3"
| "RepositoryError_value RepositoryError.ConstraintViolation = 4"
| "RepositoryError_value RepositoryError.SerializationFailure = 5"

definition RepositoryError_name :: string where "RepositoryError_name = ''repository''"

definition RepositoryError_message :: "int \<Rightarrow> string" where
  "RepositoryError_message ev =
     (let e = ev mod 256 in
      if e = RepositoryError_value RepositoryError.NotFound then ''not found''
      else if e = RepositoryError_value RepositoryError.ConnectionFailure then ''connection failure''
      else if e = RepositoryError_value RepositoryError.Timeout then ''timeout''
      else if e = RepositoryError_value RepositoryError.ConstraintViolation then ''constraint violation failure''
      else if e = RepositoryError_value RepositoryError.SerializationFailure then ''serialization failure''
      else ''unknown repository error'')"

definition make_RepositoryError :: "RepositoryError \<Rightarrow> error_code" where
  "make_RepositoryError e = \<lparr>ec_value = RepositoryError_value e, ec_category = RepositoryErrorCategory\<rparr>"

subsection \<open>OffsetTrackerError\<close>

datatype OffsetTrackerError = OutOfOrderRegistration | UnknownOffset | CommitBeyondWatermark

primrec OffsetTrackerError_value :: "OffsetTrackerError \<Rightarrow> int" where
  "OffsetTrackerError_value OffsetTrackerError.OutOfOrderRegistration = 1"
| "OffsetTrackerError_value OffsetTrackerError.UnknownOffset = 2"
| "OffsetTrackerError_value OffsetTrackerError.CommitBeyondWatermark = 3"

definition OffsetTrackerError_name :: string where "OffsetTrackerError_name = ''offset_tracker''"

definition OffsetTrackerError_message :: "int \<Rightarrow> string" where
  "OffsetTrackerError_message ev =
     (let e = ev mod 256 in
      if e = OffsetTrackerError_value OffsetTrackerError.OutOfOrderRegistration then ''offset registered out of order''
      else if e = OffsetTrackerError_value OffsetTrackerError.UnknownOffset then ''unknown offset''
      else if e = OffsetTrackerError_value OffsetTrackerError.CommitBeyondWatermark then ''commit position is beyond watermark''
      else ''unknown offset tracker error'')"

definition make_OffsetTrackerError :: "OffsetTrackerError \<Rightarrow> error_code" where
  "make_OffsetTrackerError e = \<lparr>ec_value = OffsetTrackerError_value e, ec_category = OffsetTrackerErrorCategory\<rparr>"

subsection \<open>PartitionRegistryError\<close>

datatype PartitionRegistryError = PartitionNotAssigned

primrec PartitionRegistryError_value :: "PartitionRegistryError \<Rightarrow> int" where
  "PartitionRegistryError_value PartitionRegistryError.PartitionNotAssigned = 1"

definition PartitionRegistryError_name :: string where "PartitionRegistryError_name = ''partition_registry''"

definition PartitionRegistryError_message :: "int \<Rightarrow> string" where
  "PartitionRegistryError_message ev =
     (let e = ev mod 256 in
      if e = PartitionRegistryError_value PartitionRegistryError.PartitionNotAssigned then ''partition is not assigned''
      else ''unknown partition registry error'')"

definition make_PartitionRegistryError :: "PartitionRegistryError \<Rightarrow> error_code" where
  "make_PartitionRegistryError e = \<lparr>ec_value = PartitionRegistryError_value e, ec_category = PartitionRegistryErrorCategory\<rparr>"

subsection \<open>EventConsumerError\<close>

datatype EventConsumerError = ConnectionFailure | Timeout | BrokerRejected

primrec EventConsumerError_value :: "EventConsumerError \<Rightarrow> int" where
  "EventConsumerError_value EventConsumerError.ConnectionFailure = 1"
| "EventConsumerError_value EventConsumerError.Timeout = 2"
| "EventConsumerError_value EventConsumerError.BrokerRejected = 3"

definition EventConsumerError_name :: string where "EventConsumerError_name = ''event_consumer''"

definition EventConsumerError_message :: "int \<Rightarrow> string" where
  "EventConsumerError_message ev =
     (let e = ev mod 256 in
      if e = EventConsumerError_value EventConsumerError.ConnectionFailure then ''connection failure''
      else if e = EventConsumerError_value EventConsumerError.Timeout then ''timeout''
      else if e = EventConsumerError_value EventConsumerError.BrokerRejected then ''broker rejected message''
      else ''unknown event consumer error'')"

definition make_EventConsumerError :: "EventConsumerError \<Rightarrow> error_code" where
  "make_EventConsumerError e = \<lparr>ec_value = EventConsumerError_value e, ec_category = EventConsumerErrorCategory\<rparr>"

subsection \<open>EventPublisherError\<close>

datatype EventPublisherError = ConnectionFailure | Timeout | SerializationFailure | BrokerRejected

primrec EventPublisherError_value :: "EventPublisherError \<Rightarrow> int" where
  "EventPublisherError_value EventPublisherError.ConnectionFailure = 1"
| "EventPublisherError_value EventPublisherError.Timeout = 2"
| "EventPublisherError_value EventPublisherError.SerializationFailure = 3"
| "EventPublisherError_value EventPublisherError.BrokerRejected = 4"

definition EventPublisherError_name :: string where "EventPublisherError_name = ''event_publisher''"

definition EventPublisherError_message :: "int \<Rightarrow> string" where
  "EventPublisherError_message ev =
     (let e = ev mod 256 in
      if e = EventPublisherError_value EventPublisherError.ConnectionFailure then ''connection failure''
      else if e = EventPublisherError_value EventPublisherError.Timeout then ''timeout''
      else if e = EventPublisherError_value EventPublisherError.SerializationFailure then ''serialization failure''
      else if e = EventPublisherError_value EventPublisherError.BrokerRejected then ''broker rejected message''
      else ''unknown event publisher error'')"

definition make_EventPublisherError :: "EventPublisherError \<Rightarrow> error_code" where
  "make_EventPublisherError e = \<lparr>ec_value = EventPublisherError_value e, ec_category = EventPublisherErrorCategory\<rparr>"

subsection \<open>CurrencyError\<close>

datatype CurrencyError = EmptyCurrency | NegativeAmount

primrec CurrencyError_value :: "CurrencyError \<Rightarrow> int" where
  "CurrencyError_value CurrencyError.EmptyCurrency = 1"
| "CurrencyError_value CurrencyError.NegativeAmount = 2"

definition CurrencyError_name :: string where "CurrencyError_name = ''currency''"

definition CurrencyError_message :: "int \<Rightarrow> string" where
  "CurrencyError_message ev =
     (let e = ev mod 256 in
      if e = CurrencyError_value CurrencyError.NegativeAmount then ''negative amount''
      else if e = CurrencyError_value CurrencyError.EmptyCurrency then ''empty currency''
      else ''unknown currency error'')"

definition make_CurrencyError :: "CurrencyError \<Rightarrow> error_code" where
  "make_CurrencyError e = \<lparr>ec_value = CurrencyError_value e, ec_category = CurrencyErrorCategory\<rparr>"

subsection \<open>MoneyError\<close>

datatype MoneyError = NegativeAmount | DifferentCurrencies | Underflow | Overflow

primrec MoneyError_value :: "MoneyError \<Rightarrow> int" where
  "MoneyError_value MoneyError.NegativeAmount = 1"
| "MoneyError_value MoneyError.DifferentCurrencies = 2"
| "MoneyError_value MoneyError.Underflow = 3"
| "MoneyError_value MoneyError.Overflow = 4"

definition MoneyError_name :: string where "MoneyError_name = ''money''"

definition MoneyError_message :: "int \<Rightarrow> string" where
  "MoneyError_message ev =
     (let e = ev mod 256 in
      if e = MoneyError_value MoneyError.NegativeAmount then ''negative amount''
      else if e = MoneyError_value MoneyError.DifferentCurrencies then ''different currencies''
      else if e = MoneyError_value MoneyError.Overflow then ''overflow''
      else if e = MoneyError_value MoneyError.Underflow then ''underflow''
      else ''unknown money error'')"

definition make_MoneyError :: "MoneyError \<Rightarrow> error_code" where
  "make_MoneyError e = \<lparr>ec_value = MoneyError_value e, ec_category = MoneyErrorCategory\<rparr>"

subsection \<open>OrderItemError\<close>

datatype OrderItemError = InvalidQuantity | PriceOverflow

primrec OrderItemError_value :: "OrderItemError \<Rightarrow> int" where
  "OrderItemError_value OrderItemError.InvalidQuantity = 1"
| "OrderItemError_value OrderItemError.PriceOverflow = 2"

definition OrderItemError_name :: string where "OrderItemError_name = ''orderItem''"

definition OrderItemError_message :: "int \<Rightarrow> string" where
  "OrderItemError_message ev =
     (let e = ev mod 256 in
      if e = OrderItemError_value OrderItemError.InvalidQuantity then ''invalid quantity''
      else if e = OrderItemError_value OrderItemError.PriceOverflow then ''price overflow''
      else ''unknown orderItem error'')"

definition make_OrderItemError :: "OrderItemError \<Rightarrow> error_code" where
  "make_OrderItemError e = \<lparr>ec_value = OrderItemError_value e, ec_category = OrderItemErrorCategory\<rparr>"

subsection \<open>OrderError\<close>

datatype OrderError = EmptyItems | InvalidItems | UnknownStatus | InvalidStatusTransition

primrec OrderError_value :: "OrderError \<Rightarrow> int" where
  "OrderError_value OrderError.EmptyItems = 1"
| "OrderError_value OrderError.InvalidItems = 2"
| "OrderError_value OrderError.UnknownStatus = 3"
| "OrderError_value OrderError.InvalidStatusTransition = 4"

definition OrderError_name :: string where "OrderError_name = ''order''"

definition OrderError_message :: "int \<Rightarrow> string" where
  "OrderError_message ev =
     (let e = ev mod 256 in
      if e = OrderError_value OrderError.EmptyItems then ''empty items''
      else if e = OrderError_value OrderError.InvalidItems then ''invalid items''
      else if e = OrderError_value OrderError.InvalidStatusTransition then ''invalid status transition''
      else ''unknown order error'')"

definition make_OrderError :: "OrderError \<Rightarrow> error_code" where
  "make_OrderError e = \<lparr>ec_value = OrderError_value e, ec_category = OrderErrorCategory\<rparr>"

subsection \<open>ProcessingError\<close>

datatype ProcessingError = ReservationFailed

primrec ProcessingError_value :: "ProcessingError \<Rightarrow> int" where
  "ProcessingError_value ProcessingError.ReservationFailed = 1"

definition ProcessingError_name :: string where "ProcessingError_name = ''order_processing''"

definition ProcessingError_message :: "int \<Rightarrow> string" where
  "ProcessingError_message ev =
     (let e = ev mod 256 in
      if e = ProcessingError_value ProcessingError.ReservationFailed then ''reservation failed''
      else ''unknown processing error'')"

definition make_ProcessingError :: "ProcessingError \<Rightarrow> error_code" where
  "make_ProcessingError e = \<lparr>ec_value = ProcessingError_value e, ec_category = ProcessingErrorCategory\<rparr>"

section \<open>Dispatch over the categories\<close>

text \<open>
  \<open>error_code::message\<close> calls the virtual \<open>message\<close> of the code's category, and
  \<open>category().name()\<close> its \<open>name\<close>. The texts of the generic category are those of the C library.
\<close>

fun generic_message :: "int \<Rightarrow> string" where
  "generic_message ev =
     (if ev = 22 then ''Invalid argument''
      else if ev = 115 then ''Operation now in progress''
      else ''Unknown error'')"

fun category_message :: "error_category \<Rightarrow> int \<Rightarrow> string" where
  "category_message StrongIdErrorCategory ev = StrongIdError_message ev"
| "category_message HostErrorCategory ev = HostError_message ev"
| "category_message NetworkAddressErrorCategory ev = NetworkAddressError_message ev"
| "category_message DatabaseConfigurationErrorCategory ev = DatabaseConfigurationError_message ev"
| "category_message EnvironmentConfigurationErrorCategory ev = EnvironmentConfigurationError_message ev"
| "category_message JsonParseErrorCategory ev = JsonParseError_message ev"
| "category_message RepositoryErrorCategory ev = RepositoryError_message ev"
| "category_message OffsetTrackerErrorCategory ev = OffsetTrackerError_message ev"
| "category_message PartitionRegistryErrorCategory ev = PartitionRegistryError_message ev"
| "category_message EventConsumerErrorCategory ev = EventConsumerError_message ev"
| "category_message EventPublisherErrorCategory ev = EventPublisherError_message ev"
| "category_message CurrencyErrorCategory ev = CurrencyError_message ev"
| "category_message MoneyErrorCategory ev = MoneyError_message ev"
| "category_message OrderItemErrorCategory ev = OrderItemError_message ev"
| "category_message OrderErrorCategory ev = OrderError_message ev"
| "category_message ProcessingErrorCategory ev = ProcessingError_message ev"
| "category_message GenericCategory ev = generic_message ev"

fun category_name :: "error_category \<Rightarrow> string" where
  "category_name StrongIdErrorCategory = StrongIdError_name"
| "category_name HostErrorCategory = HostError_name"
| "category_name NetworkAddressErrorCategory = NetworkAddressError_name"
| "category_name DatabaseConfigurationErrorCategory = DatabaseConfigurationError_name"
| "category_name EnvironmentConfigurationErrorCategory = EnvironmentConfigurationError_name"
| "category_name JsonParseErrorCategory = JsonParseError_name"
| "category_name RepositoryErrorCategory = RepositoryError_name"
| "category_name OffsetTrackerErrorCategory = OffsetTrackerError_name"
| "category_name PartitionRegistryErrorCategory = PartitionRegistryError_name"
| "category_name EventConsumerErrorCategory = EventConsumerError_name"
| "category_name EventPublisherErrorCategory = EventPublisherError_name"
| "category_name CurrencyErrorCategory = CurrencyError_name"
| "category_name MoneyErrorCategory = MoneyError_name"
| "category_name OrderItemErrorCategory = OrderItemError_name"
| "category_name OrderErrorCategory = OrderError_name"
| "category_name ProcessingErrorCategory = ProcessingError_name"
| "category_name GenericCategory = ''generic''"

definition message :: "error_code \<Rightarrow> string" where
  "message ec = category_message (ec_category ec) (ec_value ec)"

text \<open>Every enumerator of every enumeration, as one type.\<close>

datatype any_error =
    OfStrongIdError StrongIdError
  | OfHostError HostError
  | OfNetworkAddressError NetworkAddressError
  | OfDatabaseConfigurationError DatabaseConfigurationError
  | OfEnvironmentConfigurationError EnvironmentConfigurationError
  | OfJsonParseError JsonParseError
  | OfRepositoryError RepositoryError
  | OfOffsetTrackerError OffsetTrackerError
  | OfPartitionRegistryError PartitionRegistryError
  | OfEventConsumerError EventConsumerError
  | OfEventPublisherError EventPublisherError
  | OfCurrencyError CurrencyError
  | OfMoneyError MoneyError
  | OfOrderItemError OrderItemError
  | OfOrderError OrderError
  | OfProcessingError ProcessingError

primrec error_code_of :: "any_error \<Rightarrow> error_code" where
  "error_code_of (OfStrongIdError e) = make_StrongIdError e"
| "error_code_of (OfHostError e) = make_HostError e"
| "error_code_of (OfNetworkAddressError e) = make_NetworkAddressError e"
| "error_code_of (OfDatabaseConfigurationError e) = make_DatabaseConfigurationError e"
| "error_code_of (OfEnvironmentConfigurationError e) = make_EnvironmentConfigurationError e"
| "error_code_of (OfJsonParseError e) = make_JsonParseError e"
| "error_code_of (OfRepositoryError e) = make_RepositoryError e"
| "error_code_of (OfOffsetTrackerError e) = make_OffsetTrackerError e"
| "error_code_of (OfPartitionRegistryError e) = make_PartitionRegistryError e"
| "error_code_of (OfEventConsumerError e) = make_EventConsumerError e"
| "error_code_of (OfEventPublisherError e) = make_EventPublisherError e"
| "error_code_of (OfCurrencyError e) = make_CurrencyError e"
| "error_code_of (OfMoneyError e) = make_MoneyError e"
| "error_code_of (OfOrderItemError e) = make_OrderItemError e"
| "error_code_of (OfOrderError e) = make_OrderError e"
| "error_code_of (OfProcessingError e) = make_ProcessingError e"

lemmas make_error_defs =
  make_StrongIdError_def
  make_HostError_def
  make_NetworkAddressError_def
  make_DatabaseConfigurationError_def
  make_EnvironmentConfigurationError_def
  make_JsonParseError_def
  make_RepositoryError_def
  make_OffsetTrackerError_def
  make_PartitionRegistryError_def
  make_EventConsumerError_def
  make_EventPublisherError_def
  make_CurrencyError_def
  make_MoneyError_def
  make_OrderItemError_def
  make_OrderError_def
  make_ProcessingError_def

lemmas error_message_defs =
  StrongIdError_message_def
  HostError_message_def
  NetworkAddressError_message_def
  DatabaseConfigurationError_message_def
  EnvironmentConfigurationError_message_def
  JsonParseError_message_def
  RepositoryError_message_def
  OffsetTrackerError_message_def
  PartitionRegistryError_message_def
  EventConsumerError_message_def
  EventPublisherError_message_def
  CurrencyError_message_def
  MoneyError_message_def
  OrderItemError_message_def
  OrderError_message_def
  ProcessingError_message_def

lemmas error_name_defs =
  StrongIdError_name_def
  HostError_name_def
  NetworkAddressError_name_def
  DatabaseConfigurationError_name_def
  EnvironmentConfigurationError_name_def
  JsonParseError_name_def
  RepositoryError_name_def
  OffsetTrackerError_name_def
  PartitionRegistryError_name_def
  EventConsumerError_name_def
  EventPublisherError_name_def
  CurrencyError_name_def
  MoneyError_name_def
  OrderItemError_name_def
  OrderError_name_def
  ProcessingError_name_def

lemma StrongIdError_value_inj: "StrongIdError_value a = StrongIdError_value b \<Longrightarrow> a = b"
  by (cases a; cases b) simp_all

lemma HostError_value_inj: "HostError_value a = HostError_value b \<Longrightarrow> a = b"
  by (cases a; cases b) simp_all

lemma NetworkAddressError_value_inj: "NetworkAddressError_value a = NetworkAddressError_value b \<Longrightarrow> a = b"
  by (cases a; cases b) simp_all

lemma DatabaseConfigurationError_value_inj: "DatabaseConfigurationError_value a = DatabaseConfigurationError_value b \<Longrightarrow> a = b"
  by (cases a; cases b) simp_all

lemma EnvironmentConfigurationError_value_inj: "EnvironmentConfigurationError_value a = EnvironmentConfigurationError_value b \<Longrightarrow> a = b"
  by (cases a; cases b) simp_all

lemma JsonParseError_value_inj: "JsonParseError_value a = JsonParseError_value b \<Longrightarrow> a = b"
  by (cases a; cases b) simp_all

lemma RepositoryError_value_inj: "RepositoryError_value a = RepositoryError_value b \<Longrightarrow> a = b"
  by (cases a; cases b) simp_all

lemma OffsetTrackerError_value_inj: "OffsetTrackerError_value a = OffsetTrackerError_value b \<Longrightarrow> a = b"
  by (cases a; cases b) simp_all

lemma PartitionRegistryError_value_inj: "PartitionRegistryError_value a = PartitionRegistryError_value b \<Longrightarrow> a = b"
  by (cases a; cases b) simp_all

lemma EventConsumerError_value_inj: "EventConsumerError_value a = EventConsumerError_value b \<Longrightarrow> a = b"
  by (cases a; cases b) simp_all

lemma EventPublisherError_value_inj: "EventPublisherError_value a = EventPublisherError_value b \<Longrightarrow> a = b"
  by (cases a; cases b) simp_all

lemma CurrencyError_value_inj: "CurrencyError_value a = CurrencyError_value b \<Longrightarrow> a = b"
  by (cases a; cases b) simp_all

lemma MoneyError_value_inj: "MoneyError_value a = MoneyError_value b \<Longrightarrow> a = b"
  by (cases a; cases b) simp_all

lemma OrderItemError_value_inj: "OrderItemError_value a = OrderItemError_value b \<Longrightarrow> a = b"
  by (cases a; cases b) simp_all

lemma OrderError_value_inj: "OrderError_value a = OrderError_value b \<Longrightarrow> a = b"
  by (cases a; cases b) simp_all

lemma ProcessingError_value_inj: "ProcessingError_value a = ProcessingError_value b \<Longrightarrow> a = b"
  by (cases a; cases b) simp_all

lemmas error_value_inj =
  StrongIdError_value_inj
  HostError_value_inj
  NetworkAddressError_value_inj
  DatabaseConfigurationError_value_inj
  EnvironmentConfigurationError_value_inj
  JsonParseError_value_inj
  RepositoryError_value_inj
  OffsetTrackerError_value_inj
  PartitionRegistryError_value_inj
  EventConsumerError_value_inj
  EventPublisherError_value_inj
  CurrencyError_value_inj
  MoneyError_value_inj
  OrderItemError_value_inj
  OrderError_value_inj
  ProcessingError_value_inj

lemma make_StrongIdError_inj [simp]: "make_StrongIdError a = make_StrongIdError b \<longleftrightarrow> a = b"
  by (auto simp: make_StrongIdError_def dest: StrongIdError_value_inj)

lemma make_HostError_inj [simp]: "make_HostError a = make_HostError b \<longleftrightarrow> a = b"
  by (auto simp: make_HostError_def dest: HostError_value_inj)

lemma make_NetworkAddressError_inj [simp]: "make_NetworkAddressError a = make_NetworkAddressError b \<longleftrightarrow> a = b"
  by (auto simp: make_NetworkAddressError_def dest: NetworkAddressError_value_inj)

lemma make_DatabaseConfigurationError_inj [simp]: "make_DatabaseConfigurationError a = make_DatabaseConfigurationError b \<longleftrightarrow> a = b"
  by (auto simp: make_DatabaseConfigurationError_def dest: DatabaseConfigurationError_value_inj)

lemma make_EnvironmentConfigurationError_inj [simp]: "make_EnvironmentConfigurationError a = make_EnvironmentConfigurationError b \<longleftrightarrow> a = b"
  by (auto simp: make_EnvironmentConfigurationError_def dest: EnvironmentConfigurationError_value_inj)

lemma make_JsonParseError_inj [simp]: "make_JsonParseError a = make_JsonParseError b \<longleftrightarrow> a = b"
  by (auto simp: make_JsonParseError_def dest: JsonParseError_value_inj)

lemma make_RepositoryError_inj [simp]: "make_RepositoryError a = make_RepositoryError b \<longleftrightarrow> a = b"
  by (auto simp: make_RepositoryError_def dest: RepositoryError_value_inj)

lemma make_OffsetTrackerError_inj [simp]: "make_OffsetTrackerError a = make_OffsetTrackerError b \<longleftrightarrow> a = b"
  by (auto simp: make_OffsetTrackerError_def dest: OffsetTrackerError_value_inj)

lemma make_PartitionRegistryError_inj [simp]: "make_PartitionRegistryError a = make_PartitionRegistryError b \<longleftrightarrow> a = b"
  by (auto simp: make_PartitionRegistryError_def dest: PartitionRegistryError_value_inj)

lemma make_EventConsumerError_inj [simp]: "make_EventConsumerError a = make_EventConsumerError b \<longleftrightarrow> a = b"
  by (auto simp: make_EventConsumerError_def dest: EventConsumerError_value_inj)

lemma make_EventPublisherError_inj [simp]: "make_EventPublisherError a = make_EventPublisherError b \<longleftrightarrow> a = b"
  by (auto simp: make_EventPublisherError_def dest: EventPublisherError_value_inj)

lemma make_CurrencyError_inj [simp]: "make_CurrencyError a = make_CurrencyError b \<longleftrightarrow> a = b"
  by (auto simp: make_CurrencyError_def dest: CurrencyError_value_inj)

lemma make_MoneyError_inj [simp]: "make_MoneyError a = make_MoneyError b \<longleftrightarrow> a = b"
  by (auto simp: make_MoneyError_def dest: MoneyError_value_inj)

lemma make_OrderItemError_inj [simp]: "make_OrderItemError a = make_OrderItemError b \<longleftrightarrow> a = b"
  by (auto simp: make_OrderItemError_def dest: OrderItemError_value_inj)

lemma make_OrderError_inj [simp]: "make_OrderError a = make_OrderError b \<longleftrightarrow> a = b"
  by (auto simp: make_OrderError_def dest: OrderError_value_inj)

lemma make_ProcessingError_inj [simp]: "make_ProcessingError a = make_ProcessingError b \<longleftrightarrow> a = b"
  by (auto simp: make_ProcessingError_def dest: ProcessingError_value_inj)

primrec category_of :: "any_error \<Rightarrow> error_category" where
  "category_of (OfStrongIdError e) = StrongIdErrorCategory"
| "category_of (OfHostError e) = HostErrorCategory"
| "category_of (OfNetworkAddressError e) = NetworkAddressErrorCategory"
| "category_of (OfDatabaseConfigurationError e) = DatabaseConfigurationErrorCategory"
| "category_of (OfEnvironmentConfigurationError e) = EnvironmentConfigurationErrorCategory"
| "category_of (OfJsonParseError e) = JsonParseErrorCategory"
| "category_of (OfRepositoryError e) = RepositoryErrorCategory"
| "category_of (OfOffsetTrackerError e) = OffsetTrackerErrorCategory"
| "category_of (OfPartitionRegistryError e) = PartitionRegistryErrorCategory"
| "category_of (OfEventConsumerError e) = EventConsumerErrorCategory"
| "category_of (OfEventPublisherError e) = EventPublisherErrorCategory"
| "category_of (OfCurrencyError e) = CurrencyErrorCategory"
| "category_of (OfMoneyError e) = MoneyErrorCategory"
| "category_of (OfOrderItemError e) = OrderItemErrorCategory"
| "category_of (OfOrderError e) = OrderErrorCategory"
| "category_of (OfProcessingError e) = ProcessingErrorCategory"

lemma error_code_of_category: "ec_category (error_code_of e) = category_of e"
  by (cases e) (simp_all add: make_error_defs)

lemma StrongIdError_fallback: "StrongIdError_message (StrongIdError_value e) \<noteq> StrongIdError_message 0"
  by (cases e) (simp_all add: StrongIdError_message_def)

lemma HostError_fallback: "HostError_message (HostError_value e) \<noteq> HostError_message 0"
  by (cases e) (simp_all add: HostError_message_def)

lemma NetworkAddressError_fallback: "NetworkAddressError_message (NetworkAddressError_value e) \<noteq> NetworkAddressError_message 0"
  by (cases e) (simp_all add: NetworkAddressError_message_def)

lemma DatabaseConfigurationError_fallback: "DatabaseConfigurationError_message (DatabaseConfigurationError_value e) \<noteq> DatabaseConfigurationError_message 0"
  by (cases e) (simp_all add: DatabaseConfigurationError_message_def)

lemma EnvironmentConfigurationError_fallback: "EnvironmentConfigurationError_message (EnvironmentConfigurationError_value e) \<noteq> EnvironmentConfigurationError_message 0"
  by (cases e) (simp_all add: EnvironmentConfigurationError_message_def)

lemma JsonParseError_fallback: "JsonParseError_message (JsonParseError_value e) \<noteq> JsonParseError_message 0"
  by (cases e) (simp_all add: JsonParseError_message_def)

lemma RepositoryError_fallback: "RepositoryError_message (RepositoryError_value e) \<noteq> RepositoryError_message 0"
  by (cases e) (simp_all add: RepositoryError_message_def)

lemma OffsetTrackerError_fallback: "OffsetTrackerError_message (OffsetTrackerError_value e) \<noteq> OffsetTrackerError_message 0"
  by (cases e) (simp_all add: OffsetTrackerError_message_def)

lemma PartitionRegistryError_fallback: "PartitionRegistryError_message (PartitionRegistryError_value e) \<noteq> PartitionRegistryError_message 0"
  by (cases e) (simp_all add: PartitionRegistryError_message_def)

lemma EventConsumerError_fallback: "EventConsumerError_message (EventConsumerError_value e) \<noteq> EventConsumerError_message 0"
  by (cases e) (simp_all add: EventConsumerError_message_def)

lemma EventPublisherError_fallback: "EventPublisherError_message (EventPublisherError_value e) \<noteq> EventPublisherError_message 0"
  by (cases e) (simp_all add: EventPublisherError_message_def)

lemma CurrencyError_fallback: "CurrencyError_message (CurrencyError_value e) \<noteq> CurrencyError_message 0"
  by (cases e) (simp_all add: CurrencyError_message_def)

lemma MoneyError_fallback: "MoneyError_message (MoneyError_value e) \<noteq> MoneyError_message 0"
  by (cases e) (simp_all add: MoneyError_message_def)

lemma OrderItemError_fallback: "OrderItemError_message (OrderItemError_value e) \<noteq> OrderItemError_message 0"
  by (cases e) (simp_all add: OrderItemError_message_def)

lemma OrderError_fallback:
  "OrderError_message (OrderError_value e) = OrderError_message 0 \<longleftrightarrow> e = OrderError.UnknownStatus"
  by (cases e) (simp_all add: OrderError_message_def)

lemma ProcessingError_fallback: "ProcessingError_message (ProcessingError_value e) \<noteq> ProcessingError_message 0"
  by (cases e) (simp_all add: ProcessingError_message_def)

lemmas error_fallbacks =
  StrongIdError_fallback
  HostError_fallback
  NetworkAddressError_fallback
  DatabaseConfigurationError_fallback
  EnvironmentConfigurationError_fallback
  JsonParseError_fallback
  RepositoryError_fallback
  OffsetTrackerError_fallback
  PartitionRegistryError_fallback
  EventConsumerError_fallback
  EventPublisherError_fallback
  CurrencyError_fallback
  MoneyError_fallback
  OrderItemError_fallback
  OrderError_fallback
  ProcessingError_fallback

section \<open>Properties\<close>

text \<open>Two enumerators of the sources, of one enumeration or of two, give equal error codes
  only if they are the same enumerator of the same enumeration: a comparison such as
  \<open>error == RepositoryError::NotFound\<close> is never confused by another component's error.\<close>

lemma error_code_of_eq_iff: "error_code_of a = error_code_of b \<longleftrightarrow> a = b"
proof
  assume eq: "error_code_of a = error_code_of b"
  then have "ec_category (error_code_of a) = ec_category (error_code_of b)" by simp
  then have "category_of a = category_of b"
    by (simp only: error_code_of_category)
  with eq show "a = b"
    by (cases a; cases b) simp_all
qed simp

text \<open>Every enumerator has a message of its own, except \<open>OrderError::UnknownStatus\<close>, whose
  message is the fallback text of its category (the text for the value 0, which no enumerator
  has).\<close>

lemma message_is_fallback_iff:
  "message (error_code_of e) = category_message (ec_category (error_code_of e)) 0 \<longleftrightarrow>
     e = OfOrderError OrderError.UnknownStatus"
  by (cases e) (simp_all add: message_def make_error_defs error_fallbacks)

end
