(* ===== verification/OffsetTracker.thy ===== *)
theory OffsetTracker
  imports ErrorCodes
begin

text \<open>
  \<open>shared/messaging/OffsetTracker.h\<close>: the offsets of one partition that were handed out and are
  not yet covered by a commit, with the length of the finished prefix. The abstract contract is
  the locale \<open>commit_tracker\<close>: a relation between a tracker and the sets of offsets registered and
  finished so far, kept by every operation, under which a commit position never passes an
  unfinished offset. The class is its interpretation \<open>ot\<close>.
\<close>

section \<open>State\<close>

record Entry =
  e_offset :: int
  e_done :: bool

record OffsetTracker =
  t_entries :: "Entry list"
  t_prefixDone :: nat
  t_inFlight :: nat
  t_lastRegistered :: "int option"
  t_committed :: "int option"

definition OffsetTracker_init :: OffsetTracker where
  "OffsetTracker_init =
     \<lparr>t_entries = [], t_prefixDone = 0, t_inFlight = 0, t_lastRegistered = None, t_committed = None\<rparr>"

section \<open>Operations\<close>

definition registerRecord :: "int \<Rightarrow> OffsetTracker \<Rightarrow> unit expected \<times> OffsetTracker" where
  "registerRecord offset t =
     (if opt_holds (\<lambda>l. offset \<le> l) (t_lastRegistered t)
      then (Inl (make_OffsetTrackerError OutOfOrderRegistration), t)
      else (Inr (), t\<lparr>t_entries := t_entries t @ [\<lparr>e_offset = offset, e_done = False\<rparr>],
                      t_lastRegistered := Some offset,
                      t_inFlight := t_inFlight t + 1\<rparr>))"

text \<open>\<open>std::ranges::lower_bound\<close> with the projection \<open>&Entry::offset\<close>: the halving search over
  \<open>len\<close> entries from index \<open>first\<close>.\<close>

function lower_bound :: "Entry list \<Rightarrow> int \<Rightarrow> nat \<Rightarrow> nat \<Rightarrow> nat" where
  "lower_bound es offset first len =
     (if 0 < len then
        let half = len div 2; mid = first + half in
        if e_offset (es ! mid) < offset then lower_bound es offset (mid + 1) (len - half - 1)
        else lower_bound es offset first half
      else first)"
  by pat_completeness auto
termination
  by (relation "measure (\<lambda>(es, offset, first, len). len)") auto

declare lower_bound.simps [simp del]

text \<open>\<open>advancePrefix\<close>: how many entries from the front are done, counting on from \<open>n\<close>.\<close>

function advancePrefix :: "Entry list \<Rightarrow> nat \<Rightarrow> nat" where
  "advancePrefix es n =
     (if n < length es \<and> e_done (es ! n) then advancePrefix es (n + 1) else n)"
  by pat_completeness auto
termination
  by (relation "measure (\<lambda>(es, n). length es - n)") auto

declare advancePrefix.simps [simp del]

definition complete :: "int \<Rightarrow> OffsetTracker \<Rightarrow> unit expected \<times> OffsetTracker" where
  "complete offset t =
     (if opt_holds (\<lambda>c. offset < c) (t_committed t) then (Inr (), t)
      else
        let it = lower_bound (t_entries t) offset 0 (length (t_entries t)) in
        if it = length (t_entries t) \<or> e_offset (t_entries t ! it) \<noteq> offset
        then (Inl (make_OffsetTrackerError UnknownOffset), t)
        else if e_done (t_entries t ! it) then (Inr (), t)
        else
          let es = (t_entries t)[it := (t_entries t ! it)\<lparr>e_done := True\<rparr>] in
          (Inr (), t\<lparr>t_entries := es,
                     t_inFlight := size_dec (t_inFlight t),
                     t_prefixDone := advancePrefix es (t_prefixDone t)\<rparr>))"

definition commitCandidate :: "OffsetTracker \<Rightarrow> int option" where
  "commitCandidate t =
     (if t_prefixDone t = 0 then None
      else Some (wrap_i64 (e_offset (t_entries t ! (t_prefixDone t - 1)) + 1)))"

text \<open>The loop of \<open>confirmCommit\<close>: pop covered entries from the front, shortening the prefix.\<close>

fun popCovered :: "int \<Rightarrow> Entry list \<Rightarrow> nat \<Rightarrow> Entry list \<times> nat" where
  "popCovered position [] prefixDone = ([], prefixDone)"
| "popCovered position (e # es) prefixDone =
     (if e_offset e < position then popCovered position es (size_dec prefixDone)
      else (e # es, prefixDone))"

definition confirmCommit :: "int \<Rightarrow> OffsetTracker \<Rightarrow> unit expected \<times> OffsetTracker" where
  "confirmCommit position t =
     (if opt_holds (\<lambda>c. position \<le> c) (t_committed t) then (Inr (), t)
      else
        case commitCandidate t of
          None \<Rightarrow> (Inl (make_OffsetTrackerError CommitBeyondWatermark), t)
        | Some watermark \<Rightarrow>
            if position > watermark then (Inl (make_OffsetTrackerError CommitBeyondWatermark), t)
            else
              let (es, prefixDone) = popCovered position (t_entries t) (t_prefixDone t) in
              (Inr (), t\<lparr>t_entries := es, t_prefixDone := prefixDone, t_committed := Some position\<rparr>))"

definition uncommittedCount :: "OffsetTracker \<Rightarrow> nat" where
  "uncommittedCount t = length (t_entries t)"

definition inFlightCount :: "OffsetTracker \<Rightarrow> nat" where
  "inFlightCount t = t_inFlight t"

definition tracker_reset :: "OffsetTracker \<Rightarrow> OffsetTracker" where
  "tracker_reset t =
     t\<lparr>t_entries := [], t_prefixDone := 0, t_inFlight := 0, t_lastRegistered := None,
       t_committed := None\<rparr>"

section \<open>Invariant\<close>

abbreviation entries_sorted :: "Entry list \<Rightarrow> bool" where
  "entries_sorted \<equiv> sorted_wrt (\<lambda>a b. e_offset a < e_offset b)"

definition tracker_inv :: "OffsetTracker \<Rightarrow> bool" where
  "tracker_inv t \<longleftrightarrow>
     entries_sorted (t_entries t) \<and>
     t_prefixDone t = length (takeWhile e_done (t_entries t)) \<and>
     t_inFlight t = length (filter (\<lambda>e. \<not> e_done e) (t_entries t)) \<and>
     (\<forall>e \<in> set (t_entries t). in_i64 (e_offset e) \<and>
        (\<exists>l. t_lastRegistered t = Some l \<and> e_offset e \<le> l) \<and>
        (\<forall>c. t_committed t = Some c \<longrightarrow> c \<le> e_offset e)) \<and>
     (\<forall>c. t_committed t = Some c \<longrightarrow> (\<exists>l. t_lastRegistered t = Some l \<and> c \<le> l + 1))"

lemma tracker_inv_init: "tracker_inv OffsetTracker_init"
  by (simp add: tracker_inv_def OffsetTracker_init_def)

subsection \<open>The binary search\<close>

lemma entries_below:
  assumes "entries_sorted es" "mid < length es" "e_offset (es ! mid) < x"
  shows "\<forall>i < mid + 1. e_offset (es ! i) < x"
proof (intro allI impI)
  fix i assume "i < mid + 1"
  then have "i = mid \<or> e_offset (es ! i) < e_offset (es ! mid)"
    using assms(1,2) by (auto simp: sorted_wrt_iff_nth_less less_Suc_eq)
  with assms(3) show "e_offset (es ! i) < x" by force
qed

lemma entries_above:
  assumes "entries_sorted es" "\<not> e_offset (es ! mid) < x"
  shows "\<forall>i. mid \<le> i \<and> i < length es \<longrightarrow> \<not> e_offset (es ! i) < x"
proof (intro allI impI)
  fix i assume "mid \<le> i \<and> i < length es"
  then have "i = mid \<or> e_offset (es ! mid) < e_offset (es ! i)"
    using assms(1) by (auto simp: sorted_wrt_iff_nth_less le_less)
  with assms(2) show "\<not> e_offset (es ! i) < x" by force
qed

lemma lower_bound_partition:
  assumes "first + len \<le> length es"
    and "\<forall>i < first. e_offset (es ! i) < x"
    and "\<forall>i. first + len \<le> i \<and> i < length es \<longrightarrow> \<not> e_offset (es ! i) < x"
    and "entries_sorted es"
  shows "(\<forall>i < lower_bound es x first len. e_offset (es ! i) < x) \<and>
         lower_bound es x first len \<le> length es \<and>
         (\<forall>i. lower_bound es x first len \<le> i \<and> i < length es \<longrightarrow> \<not> e_offset (es ! i) < x)"
  using assms
proof (induction es x first len rule: lower_bound.induct)
  case (1 es x first len)
  show ?case
  proof (cases "len = 0")
    case True
    with "1.prems" show ?thesis by (subst (1 2 3) lower_bound.simps) auto
  next
    case False
    define half where "half = len div 2"
    define mid where "mid = first + half"
    have mid: "mid < first + len" "half < len" using False by (auto simp: mid_def half_def)
    show ?thesis
    proof (cases "e_offset (es ! mid) < x")
      case True
      have "mid < length es" using mid "1.prems"(1) by simp
      note below = entries_below [OF "1.prems"(4) this True]
      have eq: "lower_bound es x first len = lower_bound es x (mid + 1) (len - half - 1)"
        using False True by (subst lower_bound.simps) (simp add: mid_def half_def Let_def)
      have same: "mid + 1 + (len - half - 1) = first + len" using mid by (simp add: mid_def)
      show ?thesis
        unfolding eq
        by (rule "1.IH"(1) [OF _ half_def mid_def True])
          (use False below "1.prems" same in \<open>simp_all only: same neq0_conv\<close>)
    next
      case False2: False
      note above = entries_above [OF "1.prems"(4) False2, unfolded mid_def]
      have eq: "lower_bound es x first len = lower_bound es x first half"
        using False False2 by (subst lower_bound.simps) (simp add: mid_def half_def Let_def)
      show ?thesis
        unfolding eq
        by (rule "1.IH"(2) [OF _ half_def mid_def False2])
          (use False above "1.prems" mid in \<open>simp_all add: neq0_conv\<close>)
    qed
  qed
qed

text \<open>On the sorted entries the halving search finds what a linear scan finds.\<close>

lemma lower_bound_takeWhile:
  assumes "entries_sorted es"
  shows "lower_bound es x 0 (length es) = length (takeWhile (\<lambda>e. e_offset e < x) es)"
proof -
  let ?n = "lower_bound es x 0 (length es)"
  have "(\<forall>i < ?n. e_offset (es ! i) < x) \<and> ?n \<le> length es \<and>
      (\<forall>i. ?n \<le> i \<and> i < length es \<longrightarrow> \<not> e_offset (es ! i) < x)"
    by (rule lower_bound_partition) (use assms in auto)
  then show ?thesis by (intro takeWhile_eq_take_length [symmetric]) auto
qed

subsection \<open>The finished prefix\<close>

lemma advancePrefix_takeWhile:
  "n \<le> length (takeWhile e_done es) \<Longrightarrow> advancePrefix es n = length (takeWhile e_done es)"
proof (induction es n rule: advancePrefix.induct)
  case (1 es n)
  show ?case
  proof (cases "n < length es \<and> e_done (es ! n)")
    case True
    then have "n \<noteq> length (takeWhile e_done es)"
      using nth_length_takeWhile [of e_done es] by auto
    with "1" True show ?thesis by (simp add: advancePrefix.simps [of es n])
  next
    case False
    have "\<not> n < length (takeWhile e_done es)"
    proof
      assume n: "n < length (takeWhile e_done es)"
      then have "e_done (es ! n)"
        by (metis nth_mem set_takeWhileD takeWhile_nth)
      with n False show False
        using length_takeWhile_le [of e_done es] by simp
    qed
    with "1.prems" False show ?thesis by (subst advancePrefix.simps) auto
  qed
qed

lemma popCovered_eq:
  "length (takeWhile (\<lambda>e. e_offset e < p) es) \<le> n \<Longrightarrow>
   popCovered p es n = (dropWhile (\<lambda>e. e_offset e < p) es, n - length (takeWhile (\<lambda>e. e_offset e < p) es))"
  by (induction es arbitrary: n) (auto simp: Suc_le_eq)

subsection \<open>Every operation keeps the invariant\<close>

lemma registerRecord_inv [inv_pres]:
  assumes "tracker_inv t" "in_i64 offset"
  shows "tracker_inv (snd (registerRecord offset t))"
proof (cases "\<exists>l. t_lastRegistered t = Some l \<and> offset \<le> l")
  case True
  then show ?thesis using assms(1) by (simp add: registerRecord_def)
next
  case False
  then have later: "\<forall>e \<in> set (t_entries t). e_offset e < offset"
    using assms(1) by (fastforce simp: tracker_inv_def)
  have "length (takeWhile e_done (t_entries t @ [\<lparr>e_offset = offset, e_done = False\<rparr>])) =
      length (takeWhile e_done (t_entries t))"
    by (cases "\<forall>e \<in> set (t_entries t). e_done e") (simp_all add: takeWhile_append takeWhile_eq_all_conv [THEN iffD2])
  with assms False later show ?thesis
    unfolding registerRecord_def tracker_inv_def
    by (auto simp: sorted_wrt_append not_le)
qed

lemma lower_bound_absent:
  assumes "entries_sorted es"
    and "\<not> (lower_bound es x 0 (length es) < length es \<and> e_offset (es ! lower_bound es x 0 (length es)) = x)"
  shows "\<forall>e \<in> set es. e_offset e \<noteq> x"
proof (intro ballI notI)
  let ?i = "lower_bound es x 0 (length es)"
  fix e assume e: "e \<in> set es" "e_offset e = x"
  then obtain j where j: "j < length es" "es ! j = e" by (auto simp: in_set_conv_nth)
  have part: "\<forall>i < ?i. e_offset (es ! i) < x" "\<forall>i. ?i \<le> i \<and> i < length es \<longrightarrow> \<not> e_offset (es ! i) < x"
    using lower_bound_partition [of 0 "length es" es x] assms(1) by auto
  with e(2) j have "?i \<le> j" by (meson less_irrefl not_less)
  moreover have "\<not> ?i < j"
    using part(2) assms(1) j e(2) by (fastforce simp: sorted_wrt_iff_nth_less)
  ultimately have "?i = j" by simp
  with assms(2) e(2) j show False by simp
qed

lemma complete_cases [consumes 1, case_names covered unknown already marked]:
  assumes "tracker_inv t"
  obtains "\<exists>c. t_committed t = Some c \<and> offset < c" "complete offset t = (Inr (), t)"
  | "\<not> (\<exists>c. t_committed t = Some c \<and> offset < c)" "\<forall>e \<in> set (t_entries t). e_offset e \<noteq> offset"
    "complete offset t = (Inl (make_OffsetTrackerError UnknownOffset), t)"
  | e where "e \<in> set (t_entries t)" "e_offset e = offset" "e_done e" "complete offset t = (Inr (), t)"
  | i where "i < length (t_entries t)" "e_offset (t_entries t ! i) = offset" "\<not> e_done (t_entries t ! i)"
    "complete offset t = (Inr (), t\<lparr>
       t_entries := (t_entries t)[i := (t_entries t ! i)\<lparr>e_done := True\<rparr>],
       t_inFlight := size_dec (t_inFlight t),
       t_prefixDone := advancePrefix ((t_entries t)[i := (t_entries t ! i)\<lparr>e_done := True\<rparr>]) (t_prefixDone t)\<rparr>)"
proof (cases "\<exists>c. t_committed t = Some c \<and> offset < c")
  case True
  then show ?thesis using that(1) by (simp add: complete_def)
next
  case False
  let ?es = "t_entries t"
  let ?i = "lower_bound ?es offset 0 (length ?es)"
  have sorted: "entries_sorted ?es" using assms by (simp add: tracker_inv_def)
  then have i: "?i = length (takeWhile (\<lambda>e. e_offset e < offset) ?es)"
    by (rule lower_bound_takeWhile)
  show ?thesis
  proof (cases "?i < length ?es \<and> e_offset (?es ! ?i) = offset")
    case found: True
    show ?thesis
    proof (cases "e_done (?es ! ?i)")
      case True
      with False found have "complete offset t = (Inr (), t)"
        by (auto simp: complete_def Let_def)
      with True found that(3) [of "?es ! ?i"] show ?thesis by simp
    next
      case not_done: False
      have "complete offset t = (Inr (), t\<lparr>
         t_entries := ?es[?i := (?es ! ?i)\<lparr>e_done := True\<rparr>],
         t_inFlight := size_dec (t_inFlight t),
         t_prefixDone := advancePrefix (?es[?i := (?es ! ?i)\<lparr>e_done := True\<rparr>]) (t_prefixDone t)\<rparr>)"
        unfolding complete_def Let_def using False found not_done by auto
      with not_done found show ?thesis using that(4) [of ?i] by blast
    qed
  next
    case not_found: False
    with sorted have "\<forall>e \<in> set ?es. e_offset e \<noteq> offset" by (rule lower_bound_absent)
    moreover have "complete offset t = (Inl (make_OffsetTrackerError UnknownOffset), t)"
      using False not_found length_takeWhile_le [of "\<lambda>e. e_offset e < offset" ?es] i
      by (auto simp: complete_def Let_def)
    ultimately show ?thesis using False that(2) by blast
  qed
qed

lemma complete_inv [inv_pres]:
  assumes inv: "tracker_inv t"
  shows "tracker_inv (snd (complete offset t))"
  using inv
proof (cases rule: complete_cases [of t offset])
  case (marked i)
  let ?es = "t_entries t"
  let ?e = "(?es ! i)\<lparr>e_done := True\<rparr>"
  have prefix: "t_prefixDone t = length (takeWhile e_done ?es)"
    using inv by (simp add: tracker_inv_def)
  have le: "length (takeWhile e_done ?es) \<le> length (takeWhile e_done (?es[i := ?e]))"
  proof (rule le_length_takeWhile)
    show "length (takeWhile e_done ?es) \<le> length (?es[i := ?e])"
      by (simp add: length_takeWhile_le)
    show "e_done (?es[i := ?e] ! j)" if "j < length (takeWhile e_done ?es)" for j
      using that length_takeWhile_le [of e_done ?es] marked(1)
      by (cases "j = i") (auto, metis nth_mem set_takeWhileD takeWhile_nth)
  qed
  have sorted: "entries_sorted (?es[i := ?e])"
    using inv marked(1) by (intro sorted_wrt_update_same_key) (simp_all add: tracker_inv_def)
  have count: "length (filter (\<lambda>e. \<not> e_done e) (?es[i := ?e])) = length (filter (\<lambda>e. \<not> e_done e) ?es) - 1"
    "0 < length (filter (\<lambda>e. \<not> e_done e) ?es)"
    using count_filter_update [of i ?es "\<lambda>e. \<not> e_done e" ?e] marked by simp_all
  have members: "\<forall>e \<in> set (?es[i := ?e]). \<exists>e' \<in> set ?es. e_offset e' = e_offset e"
    using marked(1) by (auto dest!: subsetD [OF set_update_subset_insert])
  have "t_prefixDone (snd (complete offset t)) = length (takeWhile e_done (?es[i := ?e]))"
    unfolding marked(4) using le prefix by (simp add: advancePrefix_takeWhile)
  then show ?thesis
    using inv sorted count members unfolding marked(4) tracker_inv_def by simp metis
qed (simp_all add: inv)

lemma covered_le_prefix:
  assumes "tracker_inv t" "commitCandidate t = Some w" "p \<le> w"
  shows "length (takeWhile (\<lambda>e. e_offset e < p) (t_entries t)) \<le> t_prefixDone t"
proof (rule ccontr)
  let ?es = "t_entries t"
  let ?n = "t_prefixDone t"
  assume "\<not> ?thesis"
  then have n: "?n < length (takeWhile (\<lambda>e. e_offset e < p) ?es)" by simp
  then have lt: "?n < length ?es" using length_takeWhile_le [of "\<lambda>e. e_offset e < p" ?es] by linarith
  have "e_offset (?es ! ?n) < p"
    using n by (metis (mono_tags, lifting) nth_mem set_takeWhileD takeWhile_nth)
  moreover have pos: "0 < ?n" and w: "w = wrap_i64 (e_offset (?es ! (?n - 1)) + 1)"
    using assms(2) by (auto simp: commitCandidate_def split: if_splits)
  moreover have "w \<le> e_offset (?es ! (?n - 1)) + 1"
    unfolding w using assms(1) lt by (intro wrap_i64_succ_le) (simp add: tracker_inv_def)
  moreover have "e_offset (?es ! (?n - 1)) < e_offset (?es ! ?n)"
    using assms(1) lt pos by (auto simp: tracker_inv_def sorted_wrt_iff_nth_less)
  ultimately show False using assms(3) by linarith
qed

lemma confirmCommit_cases [consumes 1, case_names old beyond confirmed]:
  assumes "tracker_inv t"
  obtains "\<exists>c. t_committed t = Some c \<and> p \<le> c" "confirmCommit p t = (Inr (), t)"
  | "\<forall>w. commitCandidate t = Some w \<longrightarrow> w < p"
    "confirmCommit p t = (Inl (make_OffsetTrackerError CommitBeyondWatermark), t)"
  | w k where "commitCandidate t = Some w" "p \<le> w" "\<forall>c. t_committed t = Some c \<longrightarrow> c < p"
    "k = length (takeWhile (\<lambda>e. e_offset e < p) (t_entries t))" "k \<le> t_prefixDone t"
    "confirmCommit p t = (Inr (), t\<lparr>t_entries := drop k (t_entries t),
       t_prefixDone := t_prefixDone t - k, t_committed := Some p\<rparr>)"
proof (cases "\<exists>c. t_committed t = Some c \<and> p \<le> c")
  case True
  then show ?thesis using that(1) by (simp add: confirmCommit_def)
next
  case False
  show ?thesis
  proof (cases "\<exists>w. commitCandidate t = Some w \<and> p \<le> w")
    case True
    then obtain w where w: "commitCandidate t = Some w" "p \<le> w" by blast
    let ?k = "length (takeWhile (\<lambda>e. e_offset e < p) (t_entries t))"
    have k: "?k \<le> t_prefixDone t" using assms w by (rule covered_le_prefix)
    have "confirmCommit p t = (Inr (), t\<lparr>t_entries := drop ?k (t_entries t),
       t_prefixDone := t_prefixDone t - ?k, t_committed := Some p\<rparr>)"
      unfolding confirmCommit_def using False w k
      by (auto simp: popCovered_eq dropWhile_eq_drop)
    with False w k that(3) show ?thesis by (metis not_le)
  next
    case beyond: False
    then have "confirmCommit p t = (Inl (make_OffsetTrackerError CommitBeyondWatermark), t)"
      using False by (auto simp: confirmCommit_def not_le split: option.split)
    with beyond that(2) show ?thesis by (metis not_le)
  qed
qed

lemma confirmCommit_inv [inv_pres]:
  assumes inv: "tracker_inv t"
  shows "tracker_inv (snd (confirmCommit p t))"
  using inv
proof (cases rule: confirmCommit_cases [of t p])
  case (confirmed w k)
  let ?es = "t_entries t"
  have k: "k \<le> length (takeWhile e_done ?es)"
    using inv confirmed(5) by (simp add: tracker_inv_def)
  have sorted: "entries_sorted (drop k ?es)"
    using inv by (simp add: tracker_inv_def sorted_wrt_drop)
  have above: "p \<le> e_offset e" if "e \<in> set (drop k ?es)" for e
  proof -
    from that have "e \<in> set (dropWhile (\<lambda>e. e_offset e < p) ?es)"
      by (simp add: dropWhile_eq_drop confirmed(4))
    moreover have "sorted_wrt (\<lambda>a b. e_offset a < e_offset b) (dropWhile (\<lambda>e. e_offset e < p) ?es)"
      using sorted by (simp add: dropWhile_eq_drop confirmed(4))
    ultimately show ?thesis
      using hd_dropWhile [of "\<lambda>e. e_offset e < p" ?es]
      by (cases "dropWhile (\<lambda>e. e_offset e < p) ?es") auto
  qed
  have n: "0 < t_prefixDone t" "t_prefixDone t \<le> length ?es"
    and w: "w = wrap_i64 (e_offset (?es ! (t_prefixDone t - 1)) + 1)"
    using confirmed(1) inv length_takeWhile_le [of e_done ?es]
    by (auto simp: commitCandidate_def tracker_inv_def split: if_splits)
  have mem: "?es ! (t_prefixDone t - 1) \<in> set ?es" using n by simp
  then obtain l where l: "t_lastRegistered t = Some l" "e_offset (?es ! (t_prefixDone t - 1)) \<le> l"
    "in_i64 (e_offset (?es ! (t_prefixDone t - 1)))"
    using inv by (auto simp: tracker_inv_def)
  have "p \<le> l + 1" using confirmed(2) w wrap_i64_succ_le [OF l(3)] l(2) by linarith
  then show ?thesis
    using inv sorted above l(1) takeWhile_drop_prefix [OF k]
    unfolding confirmed(6) tracker_inv_def by (auto dest: in_set_dropD)
qed (simp_all add: inv)

lemma tracker_reset_init: "tracker_reset t = OffsetTracker_init"
  by (cases t) (simp add: tracker_reset_def OffsetTracker_init_def)

section \<open>The contract of a tracker\<close>

text \<open>
  \<open>tracks t R D\<close> relates a tracker to the offsets registered (\<open>R\<close>) and finished (\<open>D\<close>) since it was
  empty. \<open>legal\<close> are the offsets a broker hands out.
\<close>

locale commit_tracker =
  fixes empty :: "'t"
    and register :: "int \<Rightarrow> 't \<Rightarrow> unit expected \<times> 't"
    and finish :: "int \<Rightarrow> 't \<Rightarrow> unit expected \<times> 't"
    and candidate :: "'t \<Rightarrow> int option"
    and confirm :: "int \<Rightarrow> 't \<Rightarrow> unit expected \<times> 't"
    and committed :: "'t \<Rightarrow> int option"
    and legal :: "int \<Rightarrow> bool"
    and tracks :: "'t \<Rightarrow> int set \<Rightarrow> int set \<Rightarrow> bool"
  assumes tracks_empty: "tracks empty {} {}"
    and tracks_finite: "tracks t R D \<Longrightarrow> finite R \<and> D \<subseteq> R"
    and register_iff: "tracks t R D \<Longrightarrow> fst (register off t) = Inr () \<longleftrightarrow> (\<forall>r \<in> R. r < off)"
    and register_tracks:
      "tracks t R D \<Longrightarrow> legal off \<Longrightarrow> \<forall>r \<in> R. r < off \<Longrightarrow> tracks (snd (register off t)) (insert off R) D"
    and register_err: "fst (register off t) = Inl e \<Longrightarrow> snd (register off t) = t"
    and finish_known:
      "tracks t R D \<Longrightarrow> off \<in> R \<Longrightarrow> fst (finish off t) = Inr () \<and> tracks (snd (finish off t)) R (insert off D)"
    and finish_unknown: "tracks t R D \<Longrightarrow> off \<notin> R \<Longrightarrow> snd (finish off t) = t"
    and candidate_safe: "tracks t R D \<Longrightarrow> candidate t = Some p \<Longrightarrow> off \<in> R \<Longrightarrow> off < p \<Longrightarrow> off \<in> D"
    and candidate_max:
      "tracks t R D \<Longrightarrow> off \<in> R \<Longrightarrow> \<forall>r \<in> R. r \<le> off \<longrightarrow> r \<in> D \<Longrightarrow>
       \<forall>c. committed t = Some c \<longrightarrow> c \<le> off \<Longrightarrow> \<exists>p. candidate t = Some p \<and> off < p"
    and confirm_tracks: "tracks t R D \<Longrightarrow> tracks (snd (confirm p t)) R D"
    and confirm_candidate: "tracks t R D \<Longrightarrow> candidate t = Some p \<Longrightarrow> fst (confirm p t) = Inr ()"
    and committed_safe: "tracks t R D \<Longrightarrow> committed t = Some c \<Longrightarrow> off \<in> R \<Longrightarrow> off < c \<Longrightarrow> off \<in> D"
    and committed_mono:
      "tracks t R D \<Longrightarrow> committed t = Some c \<Longrightarrow> \<exists>c'. committed (snd (confirm p t)) = Some c' \<and> c \<le> c'"
begin

text \<open>Finishing an offset twice is harmless: the second time changes nothing of the relation.\<close>

lemma finish_twice:
  assumes "tracks t R D" "off \<in> R"
  shows "fst (finish off (snd (finish off t))) = Inr ()"
    and "tracks (snd (finish off (snd (finish off t)))) R (insert off D)"
proof -
  have "tracks (snd (finish off t)) R (insert off D)" using assms finish_known by blast
  with assms(2) have "fst (finish off (snd (finish off t))) = Inr () \<and>
      tracks (snd (finish off (snd (finish off t)))) R (insert off (insert off D))"
    by (intro finish_known)
  then show "fst (finish off (snd (finish off t))) = Inr ()"
    and "tracks (snd (finish off (snd (finish off t)))) R (insert off D)" by simp_all
qed

text \<open>The candidate never passes an unfinished offset, whatever the order of completion.\<close>

lemma unfinished_bounds_candidate:
  "tracks t R D \<Longrightarrow> candidate t = Some p \<Longrightarrow> off \<in> R - D \<Longrightarrow> p \<le> off"
  using candidate_safe [of t R D p off] by (auto simp: not_less [symmetric])

text \<open>When all that was registered is finished, the candidate covers all that is not committed.\<close>

lemma all_finished_candidate:
  assumes "tracks t R R" "off \<in> R" "\<forall>c. committed t = Some c \<longrightarrow> c \<le> off"
  shows "\<exists>p. candidate t = Some p \<and> (\<forall>r \<in> R. r < p)"
proof -
  have fin: "finite R" using tracks_finite [OF assms(1)] by simp
  let ?m = "Max R"
  have m: "?m \<in> R" "\<forall>r \<in> R. r \<le> ?m" using fin assms(2) by (auto intro: Max_in)
  have "\<forall>c. committed t = Some c \<longrightarrow> c \<le> ?m" using assms(3) m(2) assms(2) by fastforce
  then obtain p where "candidate t = Some p" "?m < p"
    using candidate_max [OF assms(1), of ?m] m by blast
  with m(2) show ?thesis by fastforce
qed

end

section \<open>The class keeps the contract\<close>

definition legalOffset :: "int \<Rightarrow> bool" where
  "legalOffset off \<longleftrightarrow> INT64_MIN \<le> off \<and> off < INT64_MAX"

definition tracks :: "OffsetTracker \<Rightarrow> int set \<Rightarrow> int set \<Rightarrow> bool" where
  "tracks t R D \<longleftrightarrow>
     tracker_inv t \<and> finite R \<and> D \<subseteq> R \<and> (\<forall>r \<in> R. legalOffset r) \<and>
     (\<forall>e \<in> set (t_entries t). e_offset e \<in> R \<and> (e_done e \<longleftrightarrow> e_offset e \<in> D)) \<and>
     (\<forall>off \<in> R. (\<exists>e \<in> set (t_entries t). e_offset e = off) \<or>
        (\<exists>c. t_committed t = Some c \<and> off < c \<and> off \<in> D)) \<and>
     (t_lastRegistered t = None \<longrightarrow> R = {}) \<and>
     (\<forall>l. t_lastRegistered t = Some l \<longrightarrow> l \<in> R \<and> (\<forall>r \<in> R. r \<le> l))"

lemma legalOffset_i64: "legalOffset off \<Longrightarrow> in_i64 off"
  by (simp add: legalOffset_def in_i64_def)

lemma tracksD:
  assumes "tracks t R D"
  shows "tracker_inv t" and "e \<in> set (t_entries t) \<Longrightarrow> e_offset e \<in> R"
    and "e \<in> set (t_entries t) \<Longrightarrow> e_done e \<longleftrightarrow> e_offset e \<in> D"
    and "off \<in> R \<Longrightarrow> (\<exists>e \<in> set (t_entries t). e_offset e = off) \<or>
      (\<exists>c. t_committed t = Some c \<and> off < c \<and> off \<in> D)"
  using assms by (auto simp: tracks_def)

lemma tracksI:
  assumes "tracker_inv t" "finite R" "D \<subseteq> R" "\<And>r. r \<in> R \<Longrightarrow> legalOffset r"
    and "\<And>e. e \<in> set (t_entries t) \<Longrightarrow> e_offset e \<in> R \<and> (e_done e \<longleftrightarrow> e_offset e \<in> D)"
    and "\<And>off. off \<in> R \<Longrightarrow> (\<exists>e \<in> set (t_entries t). e_offset e = off) \<or>
      (\<exists>c. t_committed t = Some c \<and> off < c \<and> off \<in> D)"
    and "t_lastRegistered t = None \<Longrightarrow> R = {}"
    and "\<And>l. t_lastRegistered t = Some l \<Longrightarrow> l \<in> R \<and> (\<forall>r \<in> R. r \<le> l)"
  shows "tracks t R D"
  using assms unfolding tracks_def by blast

lemma entries_nth_less:
  "tracker_inv t \<Longrightarrow> i < j \<Longrightarrow> j < length (t_entries t) \<Longrightarrow>
   e_offset (t_entries t ! i) < e_offset (t_entries t ! j)"
  by (simp add: tracker_inv_def sorted_wrt_iff_nth_less)

lemma registerRecord_iff:
  assumes "tracks t R D"
  shows "fst (registerRecord off t) = Inr () \<longleftrightarrow> (\<forall>r \<in> R. r < off)"
proof (cases "t_lastRegistered t")
  case None
  then show ?thesis using assms by (simp add: registerRecord_def tracks_def)
next
  case (Some l)
  then have "l \<in> R" "\<forall>r \<in> R. r \<le> l" using assms by (simp_all add: tracks_def)
  then have "(\<forall>r \<in> R. r < off) \<longleftrightarrow> \<not> off \<le> l" by (meson leD le_less_trans not_le)
  then show ?thesis using Some by (simp add: registerRecord_def)
qed

lemma registerRecord_tracks:
  assumes "tracks t R D" "legalOffset off" "\<forall>r \<in> R. r < off"
  shows "tracks (snd (registerRecord off t)) (insert off R) D"
proof -
  have inv: "tracker_inv (snd (registerRecord off t))"
    using assms legalOffset_i64 tracksD(1) by (blast intro: registerRecord_inv)
  have new: "off \<notin> D" using assms by (auto simp: tracks_def)
  have ok: "\<not> (\<exists>l. t_lastRegistered t = Some l \<and> off \<le> l)"
    using assms(1,3) by (fastforce simp: tracks_def)
  let ?t = "snd (registerRecord off t)"
  have eqs: "t_entries ?t = t_entries t @ [\<lparr>e_offset = off, e_done = False\<rparr>]"
    "t_lastRegistered ?t = Some off" "t_committed ?t = t_committed t"
    using ok by (auto simp: registerRecord_def)
  show ?thesis
  proof (rule tracksI [OF inv])
    show "finite (insert off R)" "D \<subseteq> insert off R" using assms(1) by (auto simp: tracks_def)
    show "legalOffset r" if "r \<in> insert off R" for r
      using that assms(1,2) by (auto simp: tracks_def)
    show "e_offset e \<in> insert off R \<and> (e_done e \<longleftrightarrow> e_offset e \<in> D)" if "e \<in> set (t_entries ?t)" for e
      using that tracksD(2,3) [OF assms(1)] new by (auto simp: eqs)
    show "(\<exists>e \<in> set (t_entries ?t). e_offset e = r) \<or>
        (\<exists>c. t_committed ?t = Some c \<and> r < c \<and> r \<in> D)" if "r \<in> insert off R" for r
      using that tracksD(4) [OF assms(1)] by (auto simp: eqs)
    show "l \<in> insert off R \<and> (\<forall>r \<in> insert off R. r \<le> l)" if "t_lastRegistered ?t = Some l" for l
      using that assms(3) by (auto simp: eqs intro: less_imp_le)
  qed (simp add: eqs)
qed

lemma marked_entries:
  assumes "tracker_inv t" "i < length (t_entries t)" "e_offset e' = e_offset (t_entries t ! i)"
  shows "e \<in> set ((t_entries t)[i := e']) \<Longrightarrow> e = e' \<or> e \<in> set (t_entries t) \<and> e_offset e \<noteq> e_offset (t_entries t ! i)"
    and "e_offset ` set ((t_entries t)[i := e']) = e_offset ` set (t_entries t)"
proof -
  have distinct: "j = i" if "j < length (t_entries t)" "e_offset (t_entries t ! j) = e_offset (t_entries t ! i)" for j
    using that assms(2) entries_nth_less [OF assms(1), of i j] entries_nth_less [OF assms(1), of j i]
    by (cases i j rule: linorder_cases) auto
  show "e = e' \<or> e \<in> set (t_entries t) \<and> e_offset e \<noteq> e_offset (t_entries t ! i)" if "e \<in> set ((t_entries t)[i := e'])"
  proof -
    from that obtain j where "j < length (t_entries t)" "e = (t_entries t)[i := e'] ! j" by (auto simp: in_set_conv_nth)
    with distinct [of j] assms(2) show ?thesis by (cases "j = i") auto
  qed
  have "map e_offset ((t_entries t)[i := e']) = map e_offset (t_entries t)"
    using assms(3) by (simp add: map_update list_update_same_conv assms(2))
  then show "e_offset ` set ((t_entries t)[i := e']) = e_offset ` set (t_entries t)" by (metis list.set_map)
qed

lemma complete_known:
  assumes tr: "tracks t R D" and mem: "off \<in> R"
  shows "fst (complete off t) = Inr () \<and> tracks (snd (complete off t)) R (insert off D)"
  using tracksD(1) [OF tr]
proof (cases rule: complete_cases [of t off])
  case covered
  then have "off \<in> D" using tr mem by (fastforce simp: tracks_def tracker_inv_def)
  with covered tr show ?thesis by (simp add: insert_absorb)
next
  case unknown
  then show ?thesis using tracksD(4) [OF tr mem] by blast
next
  case (already e)
  then have "off \<in> D" using tracksD(3) [OF tr] by blast
  with already tr show ?thesis by (simp add: insert_absorb)
next
  case (marked i)
  let ?es = "t_entries t"
  let ?e = "(?es ! i)\<lparr>e_done := True\<rparr>"
  have inv: "tracker_inv (snd (complete off t))"
    using tracksD(1) [OF tr] by (rule complete_inv)
  note entries = marked_entries [OF tracksD(1) [OF tr] marked(1), of ?e, simplified]
  have done_iff: "e_done e \<longleftrightarrow> e_offset e \<in> insert off D" "e_offset e \<in> R" if e: "e \<in> set (?es[i := ?e])" for e
    using entries(1) [OF e] tracksD(2,3) [OF tr] marked(2) mem by auto
  have "\<exists>e \<in> set (?es[i := ?e]). e_offset e = r" if "e \<in> set ?es" "e_offset e = r" for e r
    using that entries(2) by (metis (no_types, lifting) imageE imageI)
  then have "\<forall>r \<in> R. (\<exists>e \<in> set (?es[i := ?e]). e_offset e = r) \<or>
      (\<exists>c. t_committed t = Some c \<and> r < c \<and> r \<in> insert off D)"
    using tracksD(4) [OF tr] by blast
  then have "tracks (snd (complete off t)) R (insert off D)"
    using inv done_iff tr mem unfolding marked(4) by (intro tracksI) (auto simp: tracks_def)
  then show ?thesis using marked(4) by simp
qed

lemma complete_unknown: "tracks t R D \<Longrightarrow> off \<notin> R \<Longrightarrow> snd (complete off t) = t"
  by (frule tracksD(1), erule complete_cases [of t off]) (auto simp: tracks_def)

lemma commitCandidate_Some:
  assumes "tracks t R D" "commitCandidate t = Some p"
  obtains e where "e \<in> set (takeWhile e_done (t_entries t))" "p = wrap_i64 (e_offset e + 1)"
    "\<forall>e' \<in> set (t_entries t). e_offset e' \<le> e_offset e \<longrightarrow> e_done e'"
proof -
  let ?es = "t_entries t" and ?n = "t_prefixDone t"
  have n: "0 < ?n" "?n = length (takeWhile e_done ?es)" and p: "p = wrap_i64 (e_offset (?es ! (?n - 1)) + 1)"
    using assms tracksD(1) by (auto simp: commitCandidate_def tracker_inv_def split: if_splits)
  have eq: "?es ! (?n - 1) = takeWhile e_done ?es ! (?n - 1)" using n by (simp add: takeWhile_nth)
  have le: "?n \<le> length ?es" using n(2) length_takeWhile_le by metis
  have "e_done e'" if "e' \<in> set ?es" "e_offset e' \<le> e_offset (?es ! (?n - 1))" for e'
  proof -
    from that(1) obtain j where j: "j < length ?es" "?es ! j = e'" by (auto simp: in_set_conv_nth)
    have "\<not> ?n - 1 < j"
      using that(2) j entries_nth_less [OF tracksD(1) [OF assms(1)], of "?n - 1" j] by auto
    then have "j < length (takeWhile e_done ?es)" using n by linarith
    then show ?thesis using j by (metis nth_mem set_takeWhileD takeWhile_nth)
  qed
  with p eq n show ?thesis by (intro that [of "?es ! (?n - 1)"]) auto
qed

lemma commitCandidate_safe:
  assumes "tracks t R D" "commitCandidate t = Some p" "off \<in> R" "off < p"
  shows "off \<in> D"
proof -
  obtain e where e: "e \<in> set (takeWhile e_done (t_entries t))" "p = wrap_i64 (e_offset e + 1)"
    "\<forall>e' \<in> set (t_entries t). e_offset e' \<le> e_offset e \<longrightarrow> e_done e'"
    using assms(1,2) by (rule commitCandidate_Some)
  have "in_i64 (e_offset e)"
    using tracksD(1) [OF assms(1)] set_takeWhileD [OF e(1)] by (simp add: tracker_inv_def)
  then have "off \<le> e_offset e" using wrap_i64_succ_le [of "e_offset e"] assms(4) e(2) by linarith
  with e(3) tracksD(3,4) [OF assms(1)] assms(3) show ?thesis by blast
qed

lemma commitCandidate_max:
  assumes tr: "tracks t R D" and "off \<in> R" "\<forall>r \<in> R. r \<le> off \<longrightarrow> r \<in> D"
    and "\<forall>c. t_committed t = Some c \<longrightarrow> c \<le> off"
  shows "\<exists>p. commitCandidate t = Some p \<and> off < p"
proof -
  let ?es = "t_entries t" and ?n = "t_prefixDone t"
  have inv: "tracker_inv t" using tr by (rule tracksD(1))
  have "\<exists>e \<in> set ?es. e_offset e = off" using tracksD(4) [OF tr assms(2)] assms(4) by fastforce
  then obtain j where j: "j < length ?es" "e_offset (?es ! j) = off" by (auto simp: in_set_conv_nth)
  have upto: "e_offset (?es ! i) \<le> off" if "i \<le> j" for i
    using that j entries_nth_less [OF inv, of i j] by (cases "i = j") auto
  have "e_done (?es ! i)" if "i < Suc j" for i
    using that j(1) upto [of i] tracksD(2,3) [OF tr, of "?es ! i"] assms(3) by auto
  then have "Suc j \<le> length (takeWhile e_done ?es)"
    using j(1) by (intro le_length_takeWhile) auto
  then have n: "j \<le> ?n - 1" "0 < ?n" "?n - 1 < length ?es"
    using inv length_takeWhile_le [of e_done ?es] by (auto simp: tracker_inv_def)
  let ?last = "e_offset (?es ! (?n - 1))"
  have le: "off \<le> ?last"
    using n j entries_nth_less [OF inv, of j "?n - 1"] by (cases "j = ?n - 1") auto
  have "legalOffset ?last" using tr n(3) tracksD(2) [OF tr nth_mem [OF n(3)]] by (simp add: tracks_def)
  then have "wrap_i64 (?last + 1) = ?last + 1"
    by (intro wrap_i64_id) (simp add: legalOffset_def in_i64_def)
  with n(2) le show ?thesis by (simp add: commitCandidate_def)
qed

lemma confirmCommit_tracks:
  assumes tr: "tracks t R D"
  shows "tracks (snd (confirmCommit p t)) R D"
  using tracksD(1) [OF tr]
proof (cases rule: confirmCommit_cases [of t p])
  case (confirmed w k)
  let ?es = "t_entries t"
  have inv: "tracker_inv (snd (confirmCommit p t))"
    using tracksD(1) [OF tr] by (rule confirmCommit_inv)
  have kept: "(\<exists>e \<in> set (drop k ?es). e_offset e = r) \<or> (r < p \<and> r \<in> D)" if r: "r \<in> R" for r
  proof (cases "r < p")
    case True
    then have "r \<in> D" using commitCandidate_safe [OF tr confirmed(1) r] confirmed(2) by simp
    with True show ?thesis by simp
  next
    case False
    with tracksD(4) [OF tr r] confirmed(3) obtain e where e: "e \<in> set ?es" "e_offset e = r"
      by fastforce
    have "e \<notin> set (takeWhile (\<lambda>e. e_offset e < p) ?es)"
      using False e(2) by (auto dest: set_takeWhileD)
    with e(1) have "e \<in> set (dropWhile (\<lambda>e. e_offset e < p) ?es)"
      by (metis Un_iff set_append takeWhile_dropWhile_id)
    with e(2) show ?thesis by (auto simp: dropWhile_eq_drop confirmed(4))
  qed
  have eqs: "t_entries (snd (confirmCommit p t)) = drop k ?es"
    "t_committed (snd (confirmCommit p t)) = Some p"
    "t_lastRegistered (snd (confirmCommit p t)) = t_lastRegistered t"
    by (simp_all add: confirmed(6))
  show ?thesis
    by (rule tracksI [OF inv]) (use tr kept in \<open>auto simp: eqs tracks_def dest: in_set_dropD\<close>)
qed (simp_all add: tr)

lemma confirmCommit_candidate:
  assumes "tracks t R D" "commitCandidate t = Some p"
  shows "fst (confirmCommit p t) = Inr ()"
  using tracksD(1) [OF assms(1)]
  by (cases rule: confirmCommit_cases [of t p]) (use assms in auto)

lemma confirmCommit_mono:
  assumes "tracks t R D" "t_committed t = Some c"
  shows "\<exists>c'. t_committed (snd (confirmCommit p t)) = Some c' \<and> c \<le> c'"
  using tracksD(1) [OF assms(1)]
  by (cases rule: confirmCommit_cases [of t p]) (use assms in auto)

lemma committed_finished:
  assumes "tracks t R D" "t_committed t = Some c" "off \<in> R" "off < c"
  shows "off \<in> D"
proof -
  have "\<not> (\<exists>e \<in> set (t_entries t). e_offset e = off)"
    using assms(2,4) tracksD(1) [OF assms(1)] by (fastforce simp: tracker_inv_def)
  then show ?thesis using tracksD(4) [OF assms(1,3)] by blast
qed

interpretation ot: commit_tracker
  OffsetTracker_init registerRecord complete commitCandidate confirmCommit t_committed legalOffset tracks
proof unfold_locales
  show "tracks OffsetTracker_init {} {}"
    by (rule tracksI) (simp_all add: tracker_inv_init, simp_all add: OffsetTracker_init_def)
  show "finite R \<and> D \<subseteq> R" if "tracks t R D" for t R D
    using that by (simp add: tracks_def)
  show "snd (registerRecord off t) = t" if "fst (registerRecord off t) = Inl e" for off t e
    using that by (auto simp: registerRecord_def split: if_splits)
qed (fact registerRecord_iff registerRecord_tracks complete_known complete_unknown commitCandidate_safe
  commitCandidate_max confirmCommit_tracks confirmCommit_candidate committed_finished confirmCommit_mono)+

section \<open>Histories\<close>

text \<open>
  The states a tracker reaches by any sequence of calls, with the offsets registered (\<open>R\<close>) and
  finished (\<open>D\<close>) so far. A call that fails is part of the history too.
\<close>

inductive tracker_history :: "OffsetTracker \<Rightarrow> int set \<Rightarrow> int set \<Rightarrow> bool" where
  history_init: "tracker_history OffsetTracker_init {} {}"
| history_register:
    "tracker_history t R D \<Longrightarrow> legalOffset off \<Longrightarrow> registerRecord off t = (Inr (), t') \<Longrightarrow>
     tracker_history t' (insert off R) D"
| history_refused:
    "tracker_history t R D \<Longrightarrow> registerRecord off t = (Inl e, t') \<Longrightarrow> tracker_history t' R D"
| history_complete:
    "tracker_history t R D \<Longrightarrow> off \<in> R \<Longrightarrow> complete off t = (r, t') \<Longrightarrow>
     tracker_history t' R (insert off D)"
| history_unknown:
    "tracker_history t R D \<Longrightarrow> off \<notin> R \<Longrightarrow> complete off t = (r, t') \<Longrightarrow> tracker_history t' R D"
| history_confirm:
    "tracker_history t R D \<Longrightarrow> confirmCommit p t = (r, t') \<Longrightarrow> tracker_history t' R D"
| history_reset: "tracker_history t R D \<Longrightarrow> tracker_history (tracker_reset t) {} {}"

lemma history_tracks: "tracker_history t R D \<Longrightarrow> tracks t R D"
proof (induction rule: tracker_history.induct)
  case history_init
  show ?case by (rule ot.tracks_empty)
next
  case (history_register t R D off t')
  then show ?case
    using ot.register_iff [of t R D off] ot.register_tracks [of t R D off] by simp
next
  case (history_refused t R D off e t')
  then show ?case using ot.register_err [of off t e] by simp
next
  case (history_complete t R D off r t')
  then show ?case using ot.finish_known [of t R D off] by simp
next
  case (history_unknown t R D off r t')
  then show ?case using ot.finish_unknown [of t R D off] by simp
next
  case (history_confirm t R D p r t')
  then show ?case using ot.confirm_tracks [of t R D p] by simp
next
  case (history_reset t R D)
  show ?case unfolding tracker_reset_init by (rule ot.tracks_empty)
qed

lemma distinct_offsets: "tracker_inv t \<Longrightarrow> distinct (map e_offset (t_entries t))"
  unfolding tracker_inv_def by (metis sorted_wrt_map strict_sorted_iff)

lemma unfinished_offsets:
  assumes "tracks t R D"
  shows "R - D = set (map e_offset (filter (\<lambda>e. \<not> e_done e) (t_entries t)))"
proof
  show "R - D \<subseteq> set (map e_offset (filter (\<lambda>e. \<not> e_done e) (t_entries t)))"
    using tracksD(3,4) [OF assms] by fastforce
  show "set (map e_offset (filter (\<lambda>e. \<not> e_done e) (t_entries t))) \<subseteq> R - D"
    using tracksD(2,3) [OF assms] by auto
qed

section \<open>Properties\<close>

text \<open>C19. No lost record: whatever calls a tracker received, in whatever order the records were
  finished, a commit position it proposes and a position it has confirmed lie above finished
  offsets only. A registered offset below either was finished.\<close>

theorem tracker_never_commits_unfinished:
  assumes "tracker_history t R D" "off \<in> R"
    and "commitCandidate t = Some p \<and> off < p \<or> t_committed t = Some p \<and> off < p"
  shows "off \<in> D"
  using history_tracks [OF assms(1)] assms(2,3) ot.candidate_safe ot.committed_safe by blast

definition sampleTracker :: OffsetTracker where
  "sampleTracker =
     \<lparr>t_entries = [\<lparr>e_offset = 10, e_done = True\<rparr>, \<lparr>e_offset = 12, e_done = False\<rparr>], t_prefixDone = 1,
      t_inFlight = 1, t_lastRegistered = Some 12, t_committed = None\<rparr>"

lemma sampleTracker_history: "tracker_history sampleTracker {12, 10} {10}"
proof -
  let ?t1 = "snd (registerRecord 10 OffsetTracker_init)"
  let ?t2 = "snd (registerRecord 12 ?t1)"
  have "tracker_history ?t1 {10} {}"
    by (rule tracker_history.history_register [OF tracker_history.history_init, of 10])
      (simp_all add: legalOffset_def int_limits registerRecord_def OffsetTracker_init_def)
  then have "tracker_history ?t2 {12, 10} {}"
    by (rule tracker_history.history_register [of _ _ _ 12])
      (simp_all add: legalOffset_def int_limits registerRecord_def OffsetTracker_init_def)
  then show ?thesis
    by (rule tracker_history.history_complete [of _ _ _ 10 "Inr ()"])
      (simp_all add: sampleTracker_def complete_def registerRecord_def OffsetTracker_init_def
        lower_bound.simps advancePrefix.simps Let_def)
qed

theorem tracker_never_commits_unfinished_witness:
  "commitCandidate sampleTracker = Some 11 \<and> (10::int) < 11 \<and> (10::int) \<in> {10}"
proof -
  have "commitCandidate sampleTracker = Some 11" by code_simp
  with tracker_never_commits_unfinished [OF sampleTracker_history, of 10 11] show ?thesis by simp
qed

text \<open>Progress: if every registered offset up to some registered offset is finished and not yet
  committed, the proposed position covers it, and confirming the proposed position succeeds.\<close>

lemma tracker_proposes_finished_prefix:
  assumes "tracker_history t R D" "off \<in> R" "\<forall>r \<in> R. r \<le> off \<longrightarrow> r \<in> D"
    and "\<forall>c. t_committed t = Some c \<longrightarrow> c \<le> off"
  shows "\<exists>p. commitCandidate t = Some p \<and> off < p \<and> fst (confirmCommit p t) = Inr ()"
  using history_tracks [OF assms(1)] assms(2-) ot.candidate_max ot.confirm_candidate by blast

text \<open>The counters are exact: the number of records in flight is the number of registered
  offsets not yet finished, it never wraps below zero, and the length of the finished prefix is
  that of the finished entries at the front of the queue.\<close>

lemma tracker_counters_exact:
  assumes "tracker_history t R D"
  shows "inFlightCount t = card (R - D) \<and>
    t_prefixDone t = length (takeWhile e_done (t_entries t)) \<and>
    uncommittedCount t \<le> card R"
proof (intro conjI)
  note tr = history_tracks [OF assms]
  note inv = tracksD(1) [OF tr]
  have d: "distinct (map e_offset (t_entries t))" using inv by (rule distinct_offsets)
  then have "distinct (map e_offset (filter (\<lambda>e. \<not> e_done e) (t_entries t)))"
    by (rule distinct_map_filter)
  then have "card (R - D) = length (map e_offset (filter (\<lambda>e. \<not> e_done e) (t_entries t)))"
    unfolding unfinished_offsets [OF tr] by (rule distinct_card)
  then show "inFlightCount t = card (R - D)"
    using inv by (simp add: inFlightCount_def tracker_inv_def)
  show "t_prefixDone t = length (takeWhile e_done (t_entries t))"
    using inv by (simp add: tracker_inv_def)
  have "uncommittedCount t = card (set (map e_offset (t_entries t)))"
    using d by (simp only: distinct_card length_map uncommittedCount_def)
  also have "\<dots> \<le> card R"
    using tr tracksD(2) [OF tr] by (intro card_mono) (auto simp: tracks_def)
  finally show "uncommittedCount t \<le> card R" .
qed

text \<open>The outcome of finishing an offset: a registered offset is always accepted, any number
  of times; an offset that was not registered is refused as unknown unless it lies below the
  committed position, and it never changes the tracker.\<close>

lemma complete_outcome:
  assumes "tracker_history t R D"
  shows "if off \<in> R
    then fst (complete off t) = Inr () \<and> fst (complete off (snd (complete off t))) = Inr ()
    else snd (complete off t) = t \<and>
      fst (complete off t) =
        (if \<exists>c. t_committed t = Some c \<and> off < c then Inr ()
         else Inl (make_OffsetTrackerError UnknownOffset))"
proof (cases "off \<in> R")
  case True
  note tr = history_tracks [OF assms]
  from True show ?thesis
    using ot.finish_known [OF tr True] ot.finish_twice(1) [OF tr True] by simp
next
  case False
  note tr = history_tracks [OF assms]
  have "snd (complete off t) = t \<and> fst (complete off t) =
      (if \<exists>c. t_committed t = Some c \<and> off < c then Inr () else Inl (make_OffsetTrackerError UnknownOffset))"
    using tracksD(1) [OF tr]
    by (cases rule: complete_cases [of t off]) (use False tracksD(2) [OF tr] in auto)
  with False show ?thesis by simp
qed

end
