(* ===== verification/StdMap.thy ===== *)
theory StdMap
  imports Prelude
begin

text \<open>
  \<open>std::map<K, V>\<close>: an association list kept in the order of its keys, which is the order
  \<open>for (const auto& [key, value] : map)\<close> visits it in. The contract its clients rely on is the
  locale \<open>ordered_map\<close>; the association list is its interpretation \<open>kv\<close>.
\<close>

type_synonym ('k, 'v) std_map = "('k \<times> 'v) list"

definition kv_find :: "'k \<Rightarrow> ('k, 'v) std_map \<Rightarrow> 'v option" where
  "kv_find k m = map_of m k"

fun kv_insert_or_assign :: "'k::linorder \<Rightarrow> 'v \<Rightarrow> ('k, 'v) std_map \<Rightarrow> ('k, 'v) std_map" where
  "kv_insert_or_assign k v [] = [(k, v)]"
| "kv_insert_or_assign k v ((k', v') # m) =
     (if k < k' then (k, v) # (k', v') # m
      else if k = k' then (k, v) # m
      else (k', v') # kv_insert_or_assign k v m)"

definition kv_erase :: "'k \<Rightarrow> ('k, 'v) std_map \<Rightarrow> ('k, 'v) std_map" where
  "kv_erase k m = filter (\<lambda>kv. fst kv \<noteq> k) m"

abbreviation kv_sorted :: "('k::linorder, 'v) std_map \<Rightarrow> bool" where
  "kv_sorted m \<equiv> sorted_wrt (<) (map fst m)"

locale ordered_map =
  fixes empty :: "'m"
    and find :: "'k::linorder \<Rightarrow> 'm \<Rightarrow> 'v option"
    and insert_or_assign :: "'k \<Rightarrow> 'v \<Rightarrow> 'm \<Rightarrow> 'm"
    and erase :: "'k \<Rightarrow> 'm \<Rightarrow> 'm"
    and entries :: "'m \<Rightarrow> ('k \<times> 'v) list"
    and invar :: "'m \<Rightarrow> bool"
  assumes find_empty: "find k empty = None"
    and find_insert: "find k' (insert_or_assign k v m) = (if k' = k then Some v else find k' m)"
    and find_erase: "find k' (erase k m) = (if k' = k then None else find k' m)"
    and entries_find: "invar m \<Longrightarrow> (k, v) \<in> set (entries m) \<longleftrightarrow> find k m = Some v"
    and entries_ordered: "invar m \<Longrightarrow> sorted_wrt (<) (map fst (entries m))"
    and invar_empty: "invar empty"
    and invar_insert: "invar m \<Longrightarrow> invar (insert_or_assign k v m)"
    and invar_erase: "invar m \<Longrightarrow> invar (erase k m)"
begin

lemmas map_specs [simp] = find_empty find_insert find_erase
lemmas map_invars [intro] = invar_empty invar_insert invar_erase

lemma entries_distinct: "invar m \<Longrightarrow> distinct (map fst (entries m))"
  using entries_ordered strict_sorted_iff by blast

lemma insert_overwrites:
  "find k (insert_or_assign k v (insert_or_assign k w m)) = Some v"
  by simp

end

lemma kv_find_insert: "kv_find k' (kv_insert_or_assign k v m) = (if k' = k then Some v else kv_find k' m)"
  by (induction m) (auto simp: kv_find_def)

lemma kv_find_erase: "kv_find k' (kv_erase k m) = (if k' = k then None else kv_find k' m)"
  by (induction m) (auto simp: kv_find_def kv_erase_def)

lemma fst_kv_insert: "set (map fst (kv_insert_or_assign k v m)) = insert k (set (map fst m))"
  by (induction k v m rule: kv_insert_or_assign.induct) (simp_all add: insert_commute)

lemma kv_insert_sorted: "kv_sorted m \<Longrightarrow> kv_sorted (kv_insert_or_assign k v m)"
proof (induction k v m rule: kv_insert_or_assign.induct)
  case (2 k v k' v' m)
  show ?case
  proof (cases k k' rule: linorder_cases)
    case greater
    then have "\<forall>x \<in> set (map fst (kv_insert_or_assign k v m)). k' < x"
      unfolding fst_kv_insert using "2.prems" by simp
    with 2 greater show ?thesis by auto
  qed (use "2.prems" in auto)
qed simp

lemma kv_erase_sorted: "kv_sorted m \<Longrightarrow> kv_sorted (kv_erase k m)"
  unfolding kv_erase_def by (induction m) auto

lemma kv_entries_find: "kv_sorted m \<Longrightarrow> (k, v) \<in> set m \<longleftrightarrow> kv_find k m = Some v"
  by (metis kv_find_def map_of_eq_Some_iff strict_sorted_iff)

interpretation kv: ordered_map "[]" kv_find kv_insert_or_assign kv_erase "\<lambda>m. m" kv_sorted
  by unfold_locales
    (auto simp: kv_find_insert kv_find_erase kv_entries_find kv_insert_sorted kv_erase_sorted,
     simp add: kv_find_def)

end
