(* ===== verification/PartitionRegistry.thy ===== *)
theory PartitionRegistry
  imports OffsetTracker StdMap
begin

text \<open>
  \<open>shared/messaging/PartitionRegistry.h\<close>: the trackers of all partitions assigned to the consumer,
  each under the generation it was assigned in. Every public method holds the one mutex for its
  whole body, so each is one atomic step; \<open>registry_history\<close> are the states reached by any
  interleaving of these steps.
\<close>

section \<open>Keys, tickets and positions\<close>

datatype PartitionKey = PartitionKey (topic: string) (partition: int)

text \<open>The defaulted \<open>operator<=>\<close>: topics first, as strings, then partition numbers.\<close>

instantiation PartitionKey :: linorder
begin

definition less_eq_PartitionKey :: "PartitionKey \<Rightarrow> PartitionKey \<Rightarrow> bool" where
  "a \<le> b \<longleftrightarrow> topic a < topic b \<or> topic a = topic b \<and> partition a \<le> partition b"

definition less_PartitionKey :: "PartitionKey \<Rightarrow> PartitionKey \<Rightarrow> bool" where
  "a < b \<longleftrightarrow> topic a < topic b \<or> topic a = topic b \<and> partition a < partition b"

instance
proof
  fix a b c :: PartitionKey
  show "a < b \<longleftrightarrow> a \<le> b \<and> \<not> b \<le> a" "a \<le> a" "a \<le> b \<or> b \<le> a"
    by (auto simp: less_eq_PartitionKey_def less_PartitionKey_def)
  show "a \<le> b \<Longrightarrow> b \<le> c \<Longrightarrow> a \<le> c"
    by (auto simp: less_eq_PartitionKey_def)
  show "a \<le> b \<Longrightarrow> b \<le> a \<Longrightarrow> a = b"
    by (auto simp: less_eq_PartitionKey_def intro: PartitionKey.expand)
qed

end

record RecordTicket =
  rt_partition :: PartitionKey
  rt_offset :: int
  rt_generation :: "64 word"

record CommitPosition =
  cp_partition :: PartitionKey
  cp_offset :: int
  cp_generation :: "64 word"

datatype CompletionResult = Applied | Stale

section \<open>The registry\<close>

record PartitionState =
  ps_generation :: "64 word"
  ps_tracker :: OffsetTracker

record PartitionRegistry =
  r_partitions :: "(PartitionKey, PartitionState) std_map"
  r_lastGeneration :: "64 word"

definition PartitionRegistry_init :: PartitionRegistry where
  "PartitionRegistry_init = \<lparr>r_partitions = [], r_lastGeneration = 0\<rparr>"

fun assign :: "PartitionKey list \<Rightarrow> PartitionRegistry \<Rightarrow> PartitionRegistry" where
  "assign [] r = r"
| "assign (p # partitions) r =
     (let generation = r_lastGeneration r + 1 in
      assign partitions
        (r\<lparr>r_partitions :=
             kv_insert_or_assign p \<lparr>ps_generation = generation, ps_tracker = OffsetTracker_init\<rparr>
               (r_partitions r),
           r_lastGeneration := generation\<rparr>))"

text \<open>The positions that can still be committed, and the registry without the partitions.\<close>

fun revoke :: "PartitionKey list \<Rightarrow> PartitionRegistry \<Rightarrow> CommitPosition list \<times> PartitionRegistry" where
  "revoke [] r = ([], r)"
| "revoke (p # partitions) r =
     (case kv_find p (r_partitions r) of
        None \<Rightarrow> revoke partitions r
      | Some st \<Rightarrow>
          let (finalPositions, r') =
                revoke partitions (r\<lparr>r_partitions := kv_erase p (r_partitions r)\<rparr>) in
          (case commitCandidate (ps_tracker st) of
             None \<Rightarrow> (finalPositions, r')
           | Some candidate \<Rightarrow>
               (\<lparr>cp_partition = p, cp_offset = candidate, cp_generation = ps_generation st\<rparr> #
                  finalPositions, r')))"

text \<open>Writing a partition's state back: the code changes it in place through the iterator.\<close>

definition put_tracker ::
  "PartitionKey \<Rightarrow> PartitionState \<Rightarrow> OffsetTracker \<Rightarrow> PartitionRegistry \<Rightarrow> PartitionRegistry" where
  "put_tracker p st t r =
     r\<lparr>r_partitions := kv_insert_or_assign p (st\<lparr>ps_tracker := t\<rparr>) (r_partitions r)\<rparr>"

definition registry_registerRecord ::
  "PartitionKey \<Rightarrow> int \<Rightarrow> PartitionRegistry \<Rightarrow> RecordTicket expected \<times> PartitionRegistry" where
  "registry_registerRecord p offset r =
     (case kv_find p (r_partitions r) of
        None \<Rightarrow> (Inl (make_PartitionRegistryError PartitionNotAssigned), r)
      | Some st \<Rightarrow>
          let (res, t) = registerRecord offset (ps_tracker st) in
          (transform res (\<lambda>_. \<lparr>rt_partition = p, rt_offset = offset, rt_generation = ps_generation st\<rparr>),
           put_tracker p st t r))"

definition registry_complete ::
  "RecordTicket \<Rightarrow> PartitionRegistry \<Rightarrow> CompletionResult expected \<times> PartitionRegistry" where
  "registry_complete ticket r =
     (case kv_find (rt_partition ticket) (r_partitions r) of
        None \<Rightarrow> (Inr Stale, r)
      | Some st \<Rightarrow>
          if ps_generation st \<noteq> rt_generation ticket then (Inr Stale, r)
          else
            let (res, t) = complete (rt_offset ticket) (ps_tracker st) in
            (transform res (\<lambda>_. Applied), put_tracker (rt_partition ticket) st t r))"

definition position_of :: "PartitionKey \<times> PartitionState \<Rightarrow> CommitPosition option" where
  "position_of kvp =
     map_option (\<lambda>candidate. \<lparr>cp_partition = fst kvp, cp_offset = candidate,
                                cp_generation = ps_generation (snd kvp)\<rparr>)
       (commitCandidate (ps_tracker (snd kvp)))"

definition commitCandidates :: "PartitionRegistry \<Rightarrow> CommitPosition list" where
  "commitCandidates r = List.map_filter position_of (r_partitions r)"

definition registry_confirmCommit ::
  "CommitPosition \<Rightarrow> PartitionRegistry \<Rightarrow> unit expected \<times> PartitionRegistry" where
  "registry_confirmCommit position r =
     (case kv_find (cp_partition position) (r_partitions r) of
        None \<Rightarrow> (Inr (), r)
      | Some st \<Rightarrow>
          if ps_generation st \<noteq> cp_generation position then (Inr (), r)
          else
            let (res, t) = confirmCommit (cp_offset position) (ps_tracker st) in
            (res, put_tracker (cp_partition position) st t r))"

definition isAssigned :: "PartitionKey \<Rightarrow> PartitionRegistry \<Rightarrow> bool" where
  "isAssigned p r \<longleftrightarrow> kv_find p (r_partitions r) \<noteq> None"

definition isCurrent :: "RecordTicket \<Rightarrow> PartitionRegistry \<Rightarrow> bool" where
  "isCurrent ticket r =
     (case kv_find (rt_partition ticket) (r_partitions r) of
        None \<Rightarrow> False
      | Some st \<Rightarrow> ps_generation st = rt_generation ticket)"

section \<open>Histories\<close>

text \<open>
  The offsets registered (\<open>R\<close>) and finished (\<open>D\<close>) per partition and generation. A generation
  counter of 64 bits is bounded by its width: \<open>no_generation_wrap\<close> is the condition under which an
  assignment does not wrap it.
\<close>

type_synonym ghost = "PartitionKey \<Rightarrow> 64 word \<Rightarrow> int set"

definition ghost_add :: "RecordTicket \<Rightarrow> ghost \<Rightarrow> ghost" where
  "ghost_add ticket G =
     G(rt_partition ticket :=
         (G (rt_partition ticket))
           (rt_generation ticket :=
              insert (rt_offset ticket) (G (rt_partition ticket) (rt_generation ticket))))"

definition no_generation_wrap :: "PartitionKey list \<Rightarrow> PartitionRegistry \<Rightarrow> bool" where
  "no_generation_wrap partitions r \<longleftrightarrow>
     unat (r_lastGeneration r) + length partitions < 18446744073709551616"

definition issued :: "RecordTicket \<Rightarrow> ghost \<Rightarrow> bool" where
  "issued ticket R \<longleftrightarrow> rt_offset ticket \<in> R (rt_partition ticket) (rt_generation ticket)"

inductive registry_history :: "PartitionRegistry \<Rightarrow> ghost \<Rightarrow> ghost \<Rightarrow> bool" where
  reg_init: "registry_history PartitionRegistry_init (\<lambda>_ _. {}) (\<lambda>_ _. {})"
| reg_assign:
    "registry_history r R D \<Longrightarrow> no_generation_wrap ps r \<Longrightarrow> registry_history (assign ps r) R D"
| reg_revoke:
    "registry_history r R D \<Longrightarrow> revoke ps r = (positions, r') \<Longrightarrow> registry_history r' R D"
| reg_register:
    "registry_history r R D \<Longrightarrow> legalOffset off \<Longrightarrow> registry_registerRecord p off r = (Inr ticket, r') \<Longrightarrow>
     registry_history r' (ghost_add ticket R) D"
| reg_refused:
    "registry_history r R D \<Longrightarrow> registry_registerRecord p off r = (Inl e, r') \<Longrightarrow> registry_history r' R D"
| reg_applied:
    "registry_history r R D \<Longrightarrow> issued ticket R \<Longrightarrow> registry_complete ticket r = (Inr Applied, r') \<Longrightarrow>
     registry_history r' R (ghost_add ticket D)"
| reg_stale:
    "registry_history r R D \<Longrightarrow> registry_complete ticket r = (Inr Stale, r') \<Longrightarrow> registry_history r' R D"
| reg_confirm:
    "registry_history r R D \<Longrightarrow> registry_confirmCommit position r = (res, r') \<Longrightarrow> registry_history r' R D"

section \<open>Invariant\<close>

definition registry_tracks :: "PartitionRegistry \<Rightarrow> ghost \<Rightarrow> ghost \<Rightarrow> bool" where
  "registry_tracks r R D \<longleftrightarrow>
     kv_sorted (r_partitions r) \<and>
     (\<forall>p st. kv_find p (r_partitions r) = Some st \<longrightarrow>
        unat (ps_generation st) \<le> unat (r_lastGeneration r) \<and>
        tracks (ps_tracker st) (R p (ps_generation st)) (D p (ps_generation st))) \<and>
     (\<forall>p g. unat (r_lastGeneration r) < unat g \<longrightarrow> R p g = {} \<and> D p g = {})"

lemma registry_tracksD:
  assumes "registry_tracks r R D"
  shows "kv_sorted (r_partitions r)"
    and "kv_find p (r_partitions r) = Some st \<Longrightarrow> unat (ps_generation st) \<le> unat (r_lastGeneration r)"
    and "kv_find p (r_partitions r) = Some st \<Longrightarrow>
      tracks (ps_tracker st) (R p (ps_generation st)) (D p (ps_generation st))"
    and "unat (r_lastGeneration r) < unat g \<Longrightarrow> R p g = {} \<and> D p g = {}"
  using assms by (auto simp: registry_tracks_def)

lemma ghost_add_apply:
  "ghost_add ticket G p g =
     (if p = rt_partition ticket \<and> g = rt_generation ticket then insert (rt_offset ticket) (G p g) else G p g)"
  by (simp add: ghost_add_def)

lemma put_tracker_find [simp]:
  "kv_find q (r_partitions (put_tracker p st t r)) =
     (if q = p then Some (st\<lparr>ps_tracker := t\<rparr>) else kv_find q (r_partitions r))"
  "r_lastGeneration (put_tracker p st t r) = r_lastGeneration r"
  by (simp_all add: put_tracker_def)

text \<open>Every method that changes a tracker changes one partition's tracker and the sets of its
  current generation only.\<close>

lemma registry_tracks_put:
  assumes "registry_tracks r R D" "kv_find p (r_partitions r) = Some st"
    and "tracks t (R' p (ps_generation st)) (D' p (ps_generation st))"
    and "\<And>q g. q \<noteq> p \<or> g \<noteq> ps_generation st \<Longrightarrow> R' q g = R q g \<and> D' q g = D q g"
  shows "registry_tracks (put_tracker p st t r) R' D'"
proof -
  have "kv_sorted (r_partitions (put_tracker p st t r))"
    using registry_tracksD(1) [OF assms(1)] by (simp add: put_tracker_def kv.invar_insert)
  moreover have "R' q g = {} \<and> D' q g = {}" if "unat (r_lastGeneration r) < unat g" for q g
  proof -
    have "g \<noteq> ps_generation st" using registry_tracksD(2) [OF assms(1,2)] that by auto
    with assms(4) registry_tracksD(4) [OF assms(1) that] show ?thesis by simp
  qed
  ultimately show ?thesis
    using assms registry_tracksD(2,3) [OF assms(1)] unfolding registry_tracks_def by simp
qed

lemma registry_tracks_same:
  assumes "registry_tracks r R D" "kv_find p (r_partitions r) = Some st"
    and "tracks t (R p (ps_generation st)) (D p (ps_generation st))"
  shows "registry_tracks (put_tracker p st t r) R D"
  using assms by (intro registry_tracks_put) simp_all

lemma assign_tracks [inv_pres]:
  "registry_tracks r R D \<Longrightarrow> no_generation_wrap ps r \<Longrightarrow> registry_tracks (assign ps r) R D"
proof (induction ps r rule: assign.induct)
  case (1 r)
  then show ?case by simp
next
  case (2 p ps r)
  let ?g = "r_lastGeneration r + 1"
  let ?r = "r\<lparr>r_partitions := kv_insert_or_assign p \<lparr>ps_generation = ?g, ps_tracker = OffsetTracker_init\<rparr>
      (r_partitions r), r_lastGeneration := ?g\<rparr>"
  have g: "unat ?g = unat (r_lastGeneration r) + 1"
    using "2.prems"(2) by (simp add: no_generation_wrap_def unat_word_ariths)
  have empty: "R q ?g = {} \<and> D q ?g = {}" for q
    using registry_tracksD(4) [OF "2.prems"(1)] g by simp
  have "registry_tracks ?r R D"
    using "2.prems"(1) g empty ot.tracks_empty
    by (auto simp: registry_tracks_def kv.invar_insert le_SucI)
  moreover have "no_generation_wrap ps ?r"
    using "2.prems"(2) g by (simp add: no_generation_wrap_def)
  ultimately show ?case using "2.IH" by (simp add: Let_def)
qed

lemma erase_tracks:
  "registry_tracks r R D \<Longrightarrow> registry_tracks (r\<lparr>r_partitions := kv_erase p (r_partitions r)\<rparr>) R D"
  by (simp add: registry_tracks_def kv.invar_erase)

lemma revoke_tracks [inv_pres]: "registry_tracks r R D \<Longrightarrow> registry_tracks (snd (revoke ps r)) R D"
proof (induction ps r rule: revoke.induct)
  case (2 p ps r)
  then show ?case using erase_tracks [OF "2.prems"]
    by (auto split: option.split prod.splits)
qed simp

lemma register_tracks [inv_pres]:
  assumes "registry_tracks r R D" "legalOffset off" "registry_registerRecord p off r = (Inr ticket, r')"
  shows "registry_tracks r' (ghost_add ticket R) D"
    and "ticket = \<lparr>rt_partition = p, rt_offset = off, rt_generation = rt_generation ticket\<rparr>"
    and "isCurrent ticket r'" and "\<not> issued ticket R"
proof -
  obtain st where st: "kv_find p (r_partitions r) = Some st"
    using assms(3) by (auto simp: registry_registerRecord_def split: option.splits)
  then obtain t where t: "registerRecord off (ps_tracker st) = (Inr (), t)" "r' = put_tracker p st t r"
    and ticket: "ticket = \<lparr>rt_partition = p, rt_offset = off, rt_generation = ps_generation st\<rparr>"
    using assms(3) by (auto simp: registry_registerRecord_def transform_Inr_iff split: prod.splits)
  let ?R = "R p (ps_generation st)" and ?D = "D p (ps_generation st)"
  have tr: "tracks (ps_tracker st) ?R ?D" using registry_tracksD(3) [OF assms(1) st] .
  then have new: "\<forall>o' \<in> ?R. o' < off" using ot.register_iff [OF tr, of off] t by simp
  have "tracks t (insert off ?R) ?D"
    using ot.register_tracks [OF tr assms(2) new] t by simp
  then show "registry_tracks r' (ghost_add ticket R) D"
    unfolding t(2)
    by (intro registry_tracks_put [OF assms(1) st]) (auto simp: ghost_add_apply ticket)
  show "ticket = \<lparr>rt_partition = p, rt_offset = off, rt_generation = rt_generation ticket\<rparr>"
    by (simp add: ticket)
  show "isCurrent ticket r'" by (simp add: isCurrent_def ticket t(2))
  show "\<not> issued ticket R" using new by (auto simp: issued_def ticket)
qed

lemma refused_tracks [inv_pres]:
  assumes "registry_tracks r R D" "registry_registerRecord p off r = (Inl e, r')"
  shows "registry_tracks r' R D"
proof (cases "kv_find p (r_partitions r)")
  case None
  with assms show ?thesis by (simp add: registry_registerRecord_def)
next
  case (Some st)
  then have res: "fst (registerRecord off (ps_tracker st)) = Inl e"
    and r': "r' = put_tracker p st (snd (registerRecord off (ps_tracker st))) r"
    using assms(2) by (auto simp: registry_registerRecord_def split: prod.splits)
  from ot.register_err [OF res] have "r' = put_tracker p st (ps_tracker st) r" by (simp add: r')
  then show ?thesis
    using registry_tracks_same [OF assms(1) Some registry_tracksD(3) [OF assms(1) Some]] by simp
qed

lemma registry_complete_stale:
  "\<not> isCurrent ticket r \<Longrightarrow> registry_complete ticket r = (Inr Stale, r)"
  by (auto simp: registry_complete_def isCurrent_def split: option.splits)

lemma registry_complete_current:
  assumes "registry_tracks r R D" "issued ticket R" "isCurrent ticket r"
  shows "fst (registry_complete ticket r) = Inr Applied"
    and "registry_tracks (snd (registry_complete ticket r)) R (ghost_add ticket D)"
proof -
  obtain st where st: "kv_find (rt_partition ticket) (r_partitions r) = Some st"
    and g: "ps_generation st = rt_generation ticket"
    using assms(3) by (auto simp: isCurrent_def split: option.splits)
  let ?R = "R (rt_partition ticket) (ps_generation st)"
  let ?D = "D (rt_partition ticket) (ps_generation st)"
  have fin: "fst (complete (rt_offset ticket) (ps_tracker st)) = Inr ()"
    "tracks (snd (complete (rt_offset ticket) (ps_tracker st))) ?R (insert (rt_offset ticket) ?D)"
    using ot.finish_known [OF registry_tracksD(3) [OF assms(1) st]] assms(2) g
    by (auto simp: issued_def)
  have eq: "registry_complete ticket r =
      (Inr Applied, put_tracker (rt_partition ticket) st (snd (complete (rt_offset ticket) (ps_tracker st))) r)"
    using st g fin(1) by (auto simp: registry_complete_def split: prod.split)
  then show "fst (registry_complete ticket r) = Inr Applied" by simp
  show "registry_tracks (snd (registry_complete ticket r)) R (ghost_add ticket D)"
    unfolding eq snd_conv
    by (rule registry_tracks_put [OF assms(1) st]) (use fin(2) g in \<open>auto simp: ghost_add_apply\<close>)
qed

lemma confirm_tracks [inv_pres]:
  assumes "registry_tracks r R D"
  shows "registry_tracks (snd (registry_confirmCommit position r)) R D"
proof (cases "kv_find (cp_partition position) (r_partitions r)")
  case None
  with assms show ?thesis by (simp add: registry_confirmCommit_def)
next
  case (Some st)
  let ?t = "snd (confirmCommit (cp_offset position) (ps_tracker st))"
  have "registry_tracks (put_tracker (cp_partition position) st ?t r) R D"
    using ot.confirm_tracks [OF registry_tracksD(3) [OF assms Some]]
    by (rule registry_tracks_same [OF assms Some])
  with assms Some show ?thesis
    by (auto simp: registry_confirmCommit_def split: prod.split)
qed

lemma registry_history_tracks: "registry_history r R D \<Longrightarrow> registry_tracks r R D"
proof (induction rule: registry_history.induct)
  case reg_init
  then show ?case by (simp add: registry_tracks_def PartitionRegistry_init_def)
next
  case (reg_assign r R D ps)
  then show ?case by (blast intro: assign_tracks)
next
  case (reg_revoke r R D ps positions r')
  then show ?case using revoke_tracks [of r R D ps] by simp
next
  case (reg_register r R D off p ticket r')
  then show ?case by (blast intro: register_tracks)
next
  case (reg_refused r R D p off e r')
  then show ?case by (blast intro: refused_tracks)
next
  case (reg_applied r R D ticket r')
  then have "isCurrent ticket r" using registry_complete_stale [of ticket r] by fastforce
  with reg_applied registry_complete_current(2) [of r R D ticket] show ?case by simp
next
  case (reg_stale r R D ticket r')
  then have "r' = r" by (auto simp: registry_complete_def transform_Inr_iff split: option.splits if_splits prod.splits)
  with reg_stale show ?case by simp
next
  case (reg_confirm r R D position res r')
  then show ?case using confirm_tracks [of r R D position] by simp
qed

section \<open>What the methods return\<close>

lemma set_map_filter: "set (List.map_filter f xs) = {y. \<exists>x \<in> set xs. f x = Some y}"
  by (induction xs) (auto simp: List.map_filter_simps split: option.splits)

lemma commitCandidates_iff:
  assumes "kv_sorted (r_partitions r)"
  shows "cp \<in> set (commitCandidates r) \<longleftrightarrow>
     (\<exists>st. kv_find (cp_partition cp) (r_partitions r) = Some st \<and> ps_generation st = cp_generation cp \<and>
        commitCandidate (ps_tracker st) = Some (cp_offset cp))"
proof -
  have "cp \<in> set (commitCandidates r) \<longleftrightarrow> (\<exists>p st. (p, st) \<in> set (r_partitions r) \<and> position_of (p, st) = Some cp)"
    by (auto simp: commitCandidates_def set_map_filter)
  also have "\<dots> \<longleftrightarrow> (\<exists>p st. kv_find p (r_partitions r) = Some st \<and> position_of (p, st) = Some cp)"
    using kv.entries_find [OF assms] by simp
  also have "\<dots> \<longleftrightarrow> (\<exists>st. kv_find (cp_partition cp) (r_partitions r) = Some st \<and>
      ps_generation st = cp_generation cp \<and> commitCandidate (ps_tracker st) = Some (cp_offset cp))"
    by (cases cp) (auto simp: position_of_def)
  finally show ?thesis .
qed

lemma commitCandidates_ordered:
  "kv_sorted (r_partitions r) \<Longrightarrow> sorted_wrt (<) (map cp_partition (commitCandidates r))"
proof -
  have "set (map cp_partition (List.map_filter position_of m)) \<subseteq> set (map fst m)" for m
    by (force simp: set_map_filter position_of_def)
  then have "kv_sorted m \<Longrightarrow> sorted_wrt (<) (map cp_partition (List.map_filter position_of m))" for m
    by (induction m) (force simp: List.map_filter_simps position_of_def split: option.split)+
  then show "kv_sorted (r_partitions r) \<Longrightarrow> ?thesis" by (simp add: commitCandidates_def)
qed

lemma revoke_positions:
  "cp \<in> set (fst (revoke ps r)) \<Longrightarrow>
   \<exists>st. kv_find (cp_partition cp) (r_partitions r) = Some st \<and> ps_generation st = cp_generation cp \<and>
      commitCandidate (ps_tracker st) = Some (cp_offset cp)"
  by (induction ps r rule: revoke.induct) (auto split: option.splits prod.splits if_splits)

lemma revoke_find:
  "kv_find q (r_partitions (snd (revoke ps r))) =
     (if q \<in> set ps then None else kv_find q (r_partitions r))"
  by (induction ps r rule: revoke.induct) (auto split: option.splits prod.splits if_splits)

lemma assign_other: "q \<notin> set ps \<Longrightarrow> kv_find q (r_partitions (assign ps r)) = kv_find q (r_partitions r)"
  by (induction ps r rule: assign.induct) (simp_all add: Let_def)

lemma assign_fresh:
  "q \<in> set ps \<Longrightarrow> no_generation_wrap ps r \<Longrightarrow>
   \<exists>st. kv_find q (r_partitions (assign ps r)) = Some st \<and> ps_tracker st = OffsetTracker_init \<and>
      unat (r_lastGeneration r) < unat (ps_generation st)"
proof (induction ps r rule: assign.induct)
  case (2 p ps r)
  let ?g = "r_lastGeneration r + 1"
  let ?r = "r\<lparr>r_partitions := kv_insert_or_assign p \<lparr>ps_generation = ?g, ps_tracker = OffsetTracker_init\<rparr>
      (r_partitions r), r_lastGeneration := ?g\<rparr>"
  have g: "unat ?g = unat (r_lastGeneration r) + 1"
    using "2.prems"(2) by (simp add: no_generation_wrap_def unat_word_ariths)
  have wrap: "no_generation_wrap ps ?r"
    using "2.prems"(2) g by (simp add: no_generation_wrap_def)
  have eq: "assign (p # ps) r = assign ps ?r" by (simp add: Let_def)
  show ?case
  proof (cases "q \<in> set ps")
    case True
    from "2.IH" [OF refl True wrap] g show ?thesis unfolding eq by auto
  next
    case False
    then have "q = p" using "2.prems"(1) by simp
    with False g show ?thesis unfolding eq by (simp add: assign_other)
  qed
qed simp

lemma issued_generation:
  "registry_tracks r R D \<Longrightarrow> issued ticket R \<Longrightarrow> unat (rt_generation ticket) \<le> unat (r_lastGeneration r)"
  using registry_tracksD(4) [of r R D "rt_generation ticket" "rt_partition ticket"]
  by (fastforce simp: issued_def)

section \<open>Properties\<close>

text \<open>C15. Across all partitions, reassignments and interleavings: a position that the registry
  offers for commit, on the periodic path or when partitions are revoked, never covers a record
  of that partition and generation whose completion was not applied.\<close>

theorem registry_commits_only_finished:
  assumes "registry_history r R D"
    and "cp \<in> set (commitCandidates r) \<or> cp \<in> set (fst (revoke ps r))"
    and "off \<in> R (cp_partition cp) (cp_generation cp)" "off < cp_offset cp"
  shows "off \<in> D (cp_partition cp) (cp_generation cp)"
proof -
  note tr = registry_history_tracks [OF assms(1)]
  obtain st where st: "kv_find (cp_partition cp) (r_partitions r) = Some st"
    "ps_generation st = cp_generation cp" "commitCandidate (ps_tracker st) = Some (cp_offset cp)"
    using assms(2) commitCandidates_iff [OF registry_tracksD(1) [OF tr]] revoke_positions by blast
  from ot.candidate_safe [OF registry_tracksD(3) [OF tr st(1)] st(3)] assms(3,4) st(2)
  show ?thesis by simp
qed

definition sampleKey :: PartitionKey where "sampleKey = PartitionKey ''orders.created'' 0"

definition sampleTicket :: RecordTicket where
  "sampleTicket = \<lparr>rt_partition = sampleKey, rt_offset = 7, rt_generation = 1\<rparr>"

definition sampleRegistry :: PartitionRegistry where
  "sampleRegistry =
     snd (registry_complete sampleTicket
            (snd (registry_registerRecord sampleKey 7 (assign [sampleKey] PartitionRegistry_init))))"

lemma sampleRegistry_history:
  "registry_history (snd (registry_registerRecord sampleKey 7 (assign [sampleKey] PartitionRegistry_init)))
     (ghost_add sampleTicket (\<lambda>_ _. {})) (\<lambda>_ _. {})"
  "registry_history sampleRegistry (ghost_add sampleTicket (\<lambda>_ _. {})) (ghost_add sampleTicket (\<lambda>_ _. {}))"
proof -
  let ?r0 = "assign [sampleKey] PartitionRegistry_init"
  let ?r1 = "snd (registry_registerRecord sampleKey 7 ?r0)"
  have "registry_history ?r0 (\<lambda>_ _. {}) (\<lambda>_ _. {})"
    by (rule registry_history.reg_assign [OF registry_history.reg_init])
      (simp add: no_generation_wrap_def PartitionRegistry_init_def)
  then show r1: "registry_history ?r1 (ghost_add sampleTicket (\<lambda>_ _. {})) (\<lambda>_ _. {})"
    by (rule registry_history.reg_register [of _ _ _ 7 sampleKey])
      (simp_all add: legalOffset_def int_limits registry_registerRecord_def registerRecord_def
        PartitionRegistry_init_def OffsetTracker_init_def kv_find_def Let_def sampleTicket_def)
  then show "registry_history sampleRegistry (ghost_add sampleTicket (\<lambda>_ _. {})) (ghost_add sampleTicket (\<lambda>_ _. {}))"
  proof (rule registry_history.reg_applied)
    have cur: "isCurrent sampleTicket ?r1" by code_simp
    show "issued sampleTicket (ghost_add sampleTicket (\<lambda>_ _. {}))"
      by (simp add: issued_def ghost_add_apply)
    with registry_complete_current(1) [OF registry_history_tracks [OF r1] _ cur]
    show "registry_complete sampleTicket ?r1 = (Inr Applied, sampleRegistry)"
      by (simp add: sampleRegistry_def prod_eq_iff)
  qed
qed

theorem registry_commits_only_finished_witness:
  "commitCandidates sampleRegistry = [\<lparr>cp_partition = sampleKey, cp_offset = 8, cp_generation = 1\<rparr>] \<and>
   7 \<in> ghost_add sampleTicket (\<lambda>_ _. {}) sampleKey 1"
proof -
  have cand: "commitCandidates sampleRegistry = [\<lparr>cp_partition = sampleKey, cp_offset = 8, cp_generation = 1\<rparr>]"
    by code_simp
  with registry_commits_only_finished [OF sampleRegistry_history(2),
      of "\<lparr>cp_partition = sampleKey, cp_offset = 8, cp_generation = 1\<rparr>" "[]" 7]
  show ?thesis by (simp add: ghost_add_apply sampleTicket_def)
qed

text \<open>A reassigned partition starts from a clean tracker in a new generation, and no ticket
  issued before the reassignment can touch it: its completion is reported stale and changes
  nothing.\<close>

lemma reassignment_invalidates_tickets:
  assumes "registry_history r R D" "issued ticket R" "rt_partition ticket \<in> set ps" "no_generation_wrap ps r"
  shows "\<not> isCurrent ticket (assign ps r) \<and>
    registry_complete ticket (assign ps r) = (Inr Stale, assign ps r) \<and>
    map_option ps_tracker (kv_find (rt_partition ticket) (r_partitions (assign ps r))) =
      Some OffsetTracker_init"
proof (intro conjI)
  note tr = registry_history_tracks [OF assms(1)]
  obtain st where st: "kv_find (rt_partition ticket) (r_partitions (assign ps r)) = Some st"
    "ps_tracker st = OffsetTracker_init" "unat (r_lastGeneration r) < unat (ps_generation st)"
    using assign_fresh [OF assms(3,4)] by blast
  with issued_generation [OF tr assms(2)] have "ps_generation st \<noteq> rt_generation ticket" by auto
  with st(1) show stale: "\<not> isCurrent ticket (assign ps r)" by (simp add: isCurrent_def)
  then show "registry_complete ticket (assign ps r) = (Inr Stale, assign ps r)"
    by (rule registry_complete_stale)
  show "map_option ps_tracker (kv_find (rt_partition ticket) (r_partitions (assign ps r))) =
      Some OffsetTracker_init" using st by simp
qed

text \<open>Completing a ticket that was issued never fails: it is applied if the partition is still
  owned in the ticket's generation, and otherwise it is stale and changes nothing.\<close>

lemma registry_complete_total:
  assumes "registry_history r R D" "issued ticket R"
  shows "if isCurrent ticket r then fst (registry_complete ticket r) = Inr Applied
    else registry_complete ticket r = (Inr Stale, r)"
  using registry_complete_current(1) [OF registry_history_tracks [OF assms(1)] assms(2)]
    registry_complete_stale [of ticket r] by (cases "isCurrent ticket r") simp_all

text \<open>Revoking partitions: afterwards none of them is assigned and every other partition has
  its state unchanged; the positions returned are candidates the registry offered before, in the
  generation that was revoked; and \<open>commitCandidates\<close> lists each partition at most once, in key order.\<close>

lemma revoke_exact:
  assumes "registry_history r R D"
  shows "kv_find q (r_partitions (snd (revoke ps r))) =
      (if q \<in> set ps then None else kv_find q (r_partitions r)) \<and>
    set (fst (revoke ps r)) \<subseteq> set (commitCandidates r) \<and>
    sorted_wrt (<) (map cp_partition (commitCandidates r))"
  using registry_tracksD(1) [OF registry_history_tracks [OF assms]] revoke_positions
  by (auto simp: revoke_find commitCandidates_iff commitCandidates_ordered)

end
