(* ===== verification/Double.thy ===== *)
theory Double
  imports Prelude Complex_Main
begin

text \<open>
  The \<open>double\<close> of C++ as IEEE 754 binary64 with rounding to nearest, ties to even, as far as
  \<open>RetryPolicy\<close> uses it: conversion from and to 64-bit integers, multiplication, comparison,
  \<open>std::min\<close> and \<open>std::pow\<close> with a natural exponent. A finite value is the rational it denotes
  (the two zeros are one value, which these operations do not tell apart). \<open>std::pow\<close> is taken to
  round correctly.
\<close>

datatype double = Fin rat | Infty bool | NaN

text \<open>The distance of neighbouring values with exponent \<open>e\<close>.\<close>

definition quantum :: "int \<Rightarrow> rat" where
  "quantum e = (if 0 \<le> e then 2 ^ nat e else 1 / 2 ^ nat (- e))"

definition roundHalfEven :: "rat \<Rightarrow> int" where
  "roundHalfEven y =
     (let f = \<lfloor>y\<rfloor>; r = y - of_int f in
      if r < 1 / 2 then f else if 1 / 2 < r then f + 1 else if even f then f else f + 1)"

text \<open>The least exponent at which the magnitude has at most 53 significant bits before the point.\<close>

definition exponentOf :: "rat \<Rightarrow> int option" where
  "exponentOf x = find (\<lambda>e. x < 2 ^ 53 * quantum e) [- 1074..971]"

definition d_round :: "rat \<Rightarrow> double" where
  "d_round x =
     (case exponentOf \<bar>x\<bar> of
        None \<Rightarrow> Infty (0 < x)
      | Some e \<Rightarrow>
          let v = of_int (roundHalfEven (\<bar>x\<bar> / quantum e)) * quantum e in
          if 2 ^ 1024 \<le> v then Infty (0 < x) else Fin (if x < 0 then - v else v))"

definition d_of_int :: "int \<Rightarrow> double" where
  "d_of_int n = d_round (of_int n)"

fun d_mul :: "double \<Rightarrow> double \<Rightarrow> double" where
  "d_mul (Fin a) (Fin b) = d_round (a * b)"
| "d_mul (Fin a) (Infty s) = (if a = 0 then NaN else Infty (s = (0 < a)))"
| "d_mul (Infty s) (Fin b) = (if b = 0 then NaN else Infty (s = (0 < b)))"
| "d_mul (Infty s) (Infty s') = Infty (s = s')"
| "d_mul _ _ = NaN"

fun d_less :: "double \<Rightarrow> double \<Rightarrow> bool" where
  "d_less (Fin a) (Fin b) = (a < b)"
| "d_less (Fin a) (Infty s) = s"
| "d_less (Infty s) (Fin b) = (\<not> s)"
| "d_less (Infty s) (Infty s') = (\<not> s \<and> s')"
| "d_less _ _ = False"

fun d_pow :: "double \<Rightarrow> nat \<Rightarrow> double" where
  "d_pow x 0 = Fin 1"
| "d_pow (Fin a) n = d_round (a ^ n)"
| "d_pow (Infty s) n = Infty (s \<or> even n)"
| "d_pow NaN n = NaN"

definition d_min :: "double \<Rightarrow> double \<Rightarrow> double" where
  "d_min a b = (if d_less b a then b else a)"

text \<open>\<open>static_cast<std::int64_t>\<close>: truncation; undefined (\<open>None\<close>) outside the range.\<close>

definition d_to_i64 :: "double \<Rightarrow> int option" where
  "d_to_i64 x =
     (case x of
        Fin a \<Rightarrow> let n = (if 0 \<le> a then \<lfloor>a\<rfloor> else \<lceil>a\<rceil>) in if in_i64 n then Some n else None
      | _ \<Rightarrow> None)"

section \<open>Exact results\<close>

lemma quantum_pos [simp]:
  "0 < quantum e" "0 \<le> quantum e" "\<not> quantum e < 0" "quantum e \<noteq> 0" "\<bar>quantum e\<bar> = quantum e"
  by (simp_all add: quantum_def)

lemma quantum_add: "0 \<le> k \<Longrightarrow> quantum (e + k) = quantum e * 2 ^ nat k"
  by (cases "0 \<le> e"; cases "0 \<le> e + k")
    (auto simp: quantum_def nat_add_distrib power_add field_simps simp flip: power_add nat_add_distrib)

lemma quantum_mono: "e \<le> e' \<Longrightarrow> quantum e \<le> quantum e'"
  using quantum_add [of "e' - e" e] by (simp add: mult_le_cancel_left1 one_le_power)

lemma roundHalfEven_int [simp]: "roundHalfEven (of_int n) = n"
  by (simp add: roundHalfEven_def)

lemma roundHalfEven_nonneg: "0 \<le> y \<Longrightarrow> 0 \<le> roundHalfEven y"
  by (simp add: roundHalfEven_def Let_def)

lemma find_upto_least:
  assumes "P e" "lo \<le> e" "e \<le> hi"
  shows "\<exists>e'. find P [lo..hi] = Some e' \<and> lo \<le> e' \<and> e' \<le> e \<and> P e'"
  using assms
proof (induction "nat (e - lo)" arbitrary: lo)
  case 0
  then have "lo = e" by simp
  with 0 show ?case by (simp add: upto_rec1)
next
  case (Suc n)
  then have "n = nat (e - (lo + 1))" "lo + 1 \<le> e" by auto
  with Suc show ?case by (cases "P lo") (force simp: upto_rec1)+
qed

lemma d_round_exact:
  assumes "0 \<le> m" "m < 2 ^ 53" "- 1074 \<le> e" "e \<le> 971"
  shows "d_round (of_int m * quantum e) = Fin (of_int m * quantum e)"
proof -
  let ?x = "of_int m * quantum e"
  have "\<bar>?x\<bar> < 2 ^ 53 * quantum e"
    using assms(1,2) of_int_less_iff [of m "2 ^ 53", where 'a = rat] by (simp add: abs_mult)
  then obtain e' where e': "exponentOf \<bar>?x\<bar> = Some e'" "e' \<le> e"
    using find_upto_least [of "\<lambda>e. \<bar>?x\<bar> < 2 ^ 53 * quantum e", OF _ assms(3,4)]
    unfolding exponentOf_def by metis
  have "quantum e = quantum e' * 2 ^ nat (e - e')"
    using quantum_add [of "e - e'" e'] e'(2) by simp
  then have q: "\<bar>?x\<bar> / quantum e' = of_int (m * 2 ^ nat (e - e'))"
    using assms(1) by (simp add: abs_mult)
  have "of_int (roundHalfEven (\<bar>?x\<bar> / quantum e')) * quantum e' = \<bar>?x\<bar>"
    unfolding q roundHalfEven_int unfolding q [symmetric] by simp
  moreover have "\<bar>?x\<bar> < 2 ^ 1024"
  proof -
    have "\<bar>?x\<bar> < 2 ^ 53 * quantum e" by fact
    also have "\<dots> \<le> 2 ^ 53 * quantum 971" using quantum_mono [OF assms(4)] by simp
    also have "\<dots> = 2 ^ 1024" by (simp add: quantum_def)
    finally show ?thesis .
  qed
  ultimately show ?thesis
    using e' assms(1) by (simp add: d_round_def Let_def zero_le_mult_iff mult_less_0_iff)
qed

lemma d_of_int_exact: "0 \<le> n \<Longrightarrow> n \<le> 2 ^ 53 \<Longrightarrow> d_of_int n = Fin (of_int n)"
proof (cases "n = 2 ^ 53")
  case True
  then have "(of_int n :: rat) = of_int (2 ^ 52) * quantum 1" by (simp add: quantum_def)
  with d_round_exact [of "2 ^ 52" 1] show ?thesis by (simp add: d_of_int_def)
next
  case False
  moreover assume "0 \<le> n" "n \<le> 2 ^ 53"
  ultimately show ?thesis
    using d_round_exact [of n 0] by (simp add: d_of_int_def quantum_def)
qed

lemma d_round_overflow: "2 ^ 1024 \<le> x \<Longrightarrow> d_round x = Infty True"
proof -
  assume x: "2 ^ 1024 \<le> x"
  have "\<not> \<bar>x\<bar> < 2 ^ 53 * quantum e" if "e \<in> set [- 1074..971]" for e
  proof -
    have "e \<le> 971" using that unfolding set_upto atLeastAtMost_iff by (rule conjunct2)
    from quantum_mono [OF this] have "2 ^ 53 * quantum e \<le> 2 ^ 53 * quantum 971" by simp
    also have "\<dots> = 2 ^ 1024" by (simp add: quantum_def)
    also have "\<dots> \<le> \<bar>x\<bar>" using x by simp
    finally show ?thesis by simp
  qed
  then have "exponentOf \<bar>x\<bar> = None" unfolding exponentOf_def find_None_iff by blast
  moreover have "0 < x" by (rule less_le_trans [OF _ x]) simp
  ultimately show ?thesis by (simp add: d_round_def)
qed

text \<open>Rounding never turns a non-negative number into a negative one or into no number.\<close>

lemma d_round_nonneg: "0 \<le> x \<Longrightarrow> (\<exists>v \<ge> 0. d_round x = Fin v) \<or> d_round x = Infty True"
proof -
  assume x: "0 \<le> x"
  have "exponentOf 0 = Some (- 1074)" by (simp add: exponentOf_def upto_rec1)
  then have "x \<noteq> 0" if "exponentOf \<bar>x\<bar> = None" using that by auto
  moreover have "0 \<le> of_int (roundHalfEven (\<bar>x\<bar> / quantum e)) * quantum e" for e
    using roundHalfEven_nonneg [of "\<bar>x\<bar> / quantum e"] by simp
  moreover have "\<not> (2::rat) ^ 1024 \<le> of_int (roundHalfEven (0 / quantum e)) * quantum e" for e
    using roundHalfEven_int [of 0] by simp
  ultimately show ?thesis
    using x unfolding d_round_def Let_def
    by (cases "x = 0") (auto split: option.split)
qed

end
