(* ===== verification/RetryPolicy.thy ===== *)
theory RetryPolicy
  imports Double
begin

text \<open>
  \<open>shared/messaging/RetryPolicy.h\<close>: the pauses between attempts and the number of attempts.
  Durations are in milliseconds.
\<close>

record RetryPolicy =
  maxAttempts :: int
  initialBackoff :: int
  multiplier :: double
  maxBackoff :: int

definition RetryPolicy_default :: RetryPolicy where
  "RetryPolicy_default =
     \<lparr>maxAttempts = 5, initialBackoff = 200, multiplier = Fin 2, maxBackoff = 10000\<rparr>"

text \<open>The pause after the failed attempt \<open>attempt\<close>; \<open>None\<close> where the conversion is undefined.\<close>

definition delayAfterAttempt :: "RetryPolicy \<Rightarrow> int \<Rightarrow> int option" where
  "delayAfterAttempt policy attempt =
     (let exponent = max 0 (attempt - 1);
          raw = d_mul (d_of_int (initialBackoff policy)) (d_pow (multiplier policy) (nat exponent));
          capped = d_min raw (d_of_int (maxBackoff policy)) in
      d_to_i64 capped)"

definition effectiveMaxAttempts :: "RetryPolicy \<Rightarrow> int" where
  "effectiveMaxAttempts policy = max 1 (maxAttempts policy)"

text \<open>
  \<open>sleepUnlessStopped\<close>: the wait ends at the timeout or at a stop request, and the result reads
  the token once more; \<open>stopRequested\<close> is what that read sees.
\<close>

definition sleepUnlessStopped :: "bool \<Rightarrow> bool" where
  "sleepUnlessStopped stopRequested \<longleftrightarrow> \<not> stopRequested"

section \<open>Lemmas\<close>

lemma d_pow_Fin: "d_pow (Fin a) n = (if n = 0 then Fin 1 else d_round (a ^ n))"
  by (cases n) simp_all

lemma d_pow_nonneg:
  assumes "0 \<le> a"
  shows "(\<exists>v \<ge> 0. d_pow (Fin a) n = Fin v) \<or> d_pow (Fin a) n = Infty True"
  using d_round_nonneg [of "a ^ n"] assms by (auto simp: d_pow_Fin)

lemma d_mul_nonneg:
  assumes "0 < a" "(\<exists>v \<ge> 0. y = Fin v) \<or> y = Infty True"
  shows "(\<exists>v \<ge> 0. d_mul (Fin a) y = Fin v) \<or> d_mul (Fin a) y = Infty True"
  using assms d_round_nonneg [of "a * v" for v] mult_nonneg_nonneg [of a] by fastforce

lemma capped_to_i64:
  assumes "(\<exists>v \<ge> 0. raw = Fin v) \<or> raw = Infty True" "0 \<le> cap" "cap \<le> 2 ^ 53"
  shows "\<exists>d. d_to_i64 (d_min raw (Fin (of_int cap))) = Some d \<and> 0 \<le> d \<and> d \<le> cap"
  using assms(1)
proof
  assume "raw = Infty True"
  then show ?thesis
    using assms(2,3) by (auto simp: d_min_def d_to_i64_def in_i64_def int_limits)
next
  assume "\<exists>v \<ge> 0. raw = Fin v"
  then obtain v where v: "0 \<le> v" "raw = Fin v" by blast
  then have "\<lfloor>v\<rfloor> \<le> cap" if "v \<le> of_int cap" using that by linarith
  then show ?thesis
    using v assms(2,3) by (auto simp: d_min_def d_to_i64_def in_i64_def int_limits Let_def)
qed

lemma min_pow2_saturates:
  "8 \<le> n \<Longrightarrow> min 10000 (200 * 2 ^ n) = (10000 :: int)"
proof -
  assume "8 \<le> n"
  then have "(2::int) ^ 8 \<le> 2 ^ n" by (rule power_increasing) simp
  then show ?thesis by simp
qed

lemma d_pow_two: "n \<le> 1023 \<Longrightarrow> d_pow (Fin 2) n = Fin (2 ^ n)"
proof (cases "n \<le> 971")
  case True
  then show ?thesis
    using d_round_exact [of 1 "int n"] by (simp add: d_pow_Fin quantum_def)
next
  case False
  assume n: "n \<le> 1023"
  have "(2::rat) ^ n = of_int (2 ^ (n - 971)) * quantum 971"
  proof -
    have "(2::rat) ^ n = 2 ^ (n - 971) * 2 ^ 971" unfolding power_add [symmetric] using False by simp
    then show ?thesis by (simp only: quantum_def of_int_power of_int_numeral) simp
  qed
  moreover have "(2::int) ^ (n - 971) < 2 ^ 53" using n by (intro power_strict_increasing) simp_all
  ultimately show ?thesis
    using d_round_exact [of "2 ^ (n - 971)" 971] False by (simp add: d_pow_Fin)
qed

lemma d_pow_two_overflow: "1024 \<le> n \<Longrightarrow> d_pow (Fin 2) n = Infty True"
  using d_round_overflow [of "2 ^ n"] power_increasing [of 1024 n "2 :: rat"] by (simp add: d_pow_Fin)

lemma raw_default:
  "d_mul (Fin 200) (d_pow (Fin 2) n) =
     (if n \<le> 1016 then Fin (200 * 2 ^ n) else Infty True)"
proof (cases "n \<le> 1016")
  case True
  define k where "k = min n 971"
  have k: "k \<le> n" "k \<le> 971" "n - k \<le> 45" using True by (auto simp: k_def)
  have "(200 * 2 ^ n :: rat) = of_int (200 * 2 ^ (n - k)) * quantum (int k)"
    using k by (simp add: quantum_def flip: power_add)
  moreover have "(200 * 2 ^ (n - k) :: int) < 2 ^ 53"
  proof -
    have "(2::int) ^ (n - k) \<le> 2 ^ 45" using k(3) by (rule power_increasing) simp
    then have "(200 * 2 ^ (n - k) :: int) \<le> 200 * 2 ^ 45" by simp
    also have "\<dots> < 2 ^ 53" by simp
    finally show ?thesis .
  qed
  ultimately have "d_round (200 * 2 ^ n) = Fin (200 * 2 ^ n)"
    using d_round_exact [of "200 * 2 ^ (n - k)" "int k"] k(2) by simp (simp add: mult.assoc)
  then show ?thesis using True d_pow_two [of n] by simp
next
  case False
  show ?thesis
  proof (cases "n \<le> 1023")
    case True
    have "(2::rat) ^ 1017 \<le> 2 ^ n" using False by (intro power_increasing) simp_all
    then have "200 * (2::rat) ^ 1017 \<le> 200 * 2 ^ n" by simp
    moreover have "(2::rat) ^ 1024 \<le> 200 * 2 ^ 1017" by simp
    ultimately have "(2::rat) ^ 1024 \<le> 200 * 2 ^ n" by linarith
    from d_round_overflow [OF this] show ?thesis using False True d_pow_two [of n] by simp
  next
    case False
    with d_pow_two_overflow [of n] show ?thesis by simp
  qed
qed

section \<open>Properties\<close>

text \<open>With a positive initial pause, a finite non-negative multiplier and durations up to
  \<open>2^53\<close> milliseconds, every pause is defined, not negative and at most \<open>maxBackoff\<close>, whatever the
  attempt, also where the power overflows to infinity.\<close>

lemma delay_bounded:
  assumes "0 < initialBackoff policy" "initialBackoff policy \<le> 2 ^ 53"
    and "0 \<le> maxBackoff policy" "maxBackoff policy \<le> 2 ^ 53"
    and "multiplier policy = Fin q" "0 \<le> q"
  shows "\<exists>d. delayAfterAttempt policy attempt = Some d \<and> 0 \<le> d \<and> d \<le> maxBackoff policy"
  unfolding delayAfterAttempt_def Let_def assms(5)
  using d_of_int_exact [of "initialBackoff policy"] d_of_int_exact [of "maxBackoff policy"]
    capped_to_i64 [OF d_mul_nonneg [OF _ d_pow_nonneg [OF assms(6)]] assms(3,4)] assms(1-4)
  by simp

text \<open>The default policy pauses 200 ms after the first failure and twice as long after each
  further one, up to 10 s, for every attempt number.\<close>

lemma default_delays:
  assumes "1 \<le> attempt"
  shows "delayAfterAttempt RetryPolicy_default attempt = Some (min 10000 (200 * 2 ^ nat (attempt - 1)))"
proof -
  define n where "n = nat (attempt - 1)"
  have exp: "nat (max 0 (attempt - 1)) = n" using assms by (simp add: n_def)
  have ints: "d_of_int 200 = Fin 200" "d_of_int 10000 = Fin 10000"
    using d_of_int_exact [of 200] d_of_int_exact [of 10000] by simp_all
  have "d_to_i64 (d_min (d_mul (Fin 200) (d_pow (Fin 2) n)) (Fin 10000)) = Some (min 10000 (200 * 2 ^ n))"
  proof (cases "n \<le> 1016")
    case True
    have "(10000 < (200 * 2 ^ n :: rat)) = (10000 < (200 * 2 ^ n :: int))"
      using of_int_less_iff [of 10000 "200 * 2 ^ n", where 'a = rat] by simp
    moreover have "\<lfloor>200 * 2 ^ n :: rat\<rfloor> = 200 * 2 ^ n"
      using floor_of_int [of "200 * 2 ^ n", where 'a = rat] by simp
    moreover have "in_i64 (200 * 2 ^ n)" if "200 * 2 ^ n \<le> (10000::int)"
    proof -
      have "(0::int) \<le> 200 * 2 ^ n" by simp
      with that show ?thesis unfolding in_i64_def int_limits by linarith
    qed
    moreover have "in_i64 10000" by (simp add: in_i64_def int_limits)
    ultimately show ?thesis
      using True by (auto simp: raw_default d_min_def d_to_i64_def min_def Let_def not_less)
  next
    case False
    then show ?thesis
      using min_pow2_saturates [of n]
      by (simp add: raw_default d_min_def d_to_i64_def in_i64_def int_limits)
  qed
  then show ?thesis
    by (simp add: delayAfterAttempt_def RetryPolicy_default_def exp ints Let_def flip: n_def)
qed

text \<open>A policy without an initial pause is not covered by the cap: once the power of the
  multiplier 2 overflows, zero times infinity is no number, which the cap leaves in place, and the
  conversion to milliseconds is undefined.\<close>

lemma zero_backoff_undefined:
  assumes "1025 \<le> attempt"
  shows "delayAfterAttempt (RetryPolicy_default\<lparr>initialBackoff := 0\<rparr>) attempt = None"
proof -
  have "d_of_int 0 = Fin 0" using d_of_int_exact [of 0] by simp
  moreover have "d_pow (Fin 2) (nat (attempt - 1)) = Infty True"
    using assms by (intro d_pow_two_overflow) simp
  ultimately show ?thesis
    using assms by (simp add: delayAfterAttempt_def RetryPolicy_default_def d_min_def d_to_i64_def Let_def)
qed

end
