(* ===== verification/Ids.thy ===== *)
theory Ids
  imports ErrorCodes
begin

text \<open>
  The identifiers of \<open>shared/models/StrongID.h\<close> and \<open>shared/models/OrderIds.h\<close>: \<open>StrongID<Tag>\<close>
  with its validating \<open>create\<close>, and the four tags, all of which validate with the UUID regular
  expression. The pattern is a sequence of runs of hexadecimal digits of fixed lengths separated
  by dashes, matched against the whole value (\<open>std::regex_match\<close>).
\<close>

section \<open>The UUID pattern\<close>

definition isHexDigit :: "char \<Rightarrow> bool" where
  "isHexDigit c \<longleftrightarrow>
     (CHR ''0'' \<le> c \<and> c \<le> CHR ''9'') \<or> (CHR ''a'' \<le> c \<and> c \<le> CHR ''f'') \<or>
     (CHR ''A'' \<le> c \<and> c \<le> CHR ''F'')"

text \<open>\<open>[0-9a-fA-F]{n}\<close>: exactly \<open>n\<close> hexadecimal digits; the rest of the input if they are there.\<close>

fun matchHexRun :: "nat \<Rightarrow> string \<Rightarrow> string option" where
  "matchHexRun 0 s = Some s"
| "matchHexRun (Suc n) (c # s) = (if isHexDigit c then matchHexRun n s else None)"
| "matchHexRun (Suc n) [] = None"

text \<open>Runs separated by dashes, up to the end of the input (the anchor \<open>$\<close>).\<close>

fun matchHexRuns :: "nat list \<Rightarrow> string \<Rightarrow> bool" where
  "matchHexRuns [] s \<longleftrightarrow> s = []"
| "matchHexRuns [n] s \<longleftrightarrow> matchHexRun n s = Some []"
| "matchHexRuns (n # ns) s \<longleftrightarrow>
     (case matchHexRun n s of
        Some (c # rest) \<Rightarrow> c = CHR ''-'' \<and> matchHexRuns ns rest
      | _ \<Rightarrow> False)"

definition isValidUuid :: "string \<Rightarrow> bool" where
  "isValidUuid value = matchHexRuns [8, 4, 4, 4, 12] value"

section \<open>StrongID\<close>

datatype IdTag = OrderIdTag | UserIdTag | ProductIdTag | OutboxEventIdTag

text \<open>
  \<open>StrongID<Tag>\<close> holds one string. The four instantiations are four types here too, so that an
  order id is never taken for a user id.
\<close>

datatype OrderId = OrderId (orderId_value: string)
datatype UserId = UserId (userId_value: string)
datatype ProductId = ProductId (productId_value: string)
datatype OutboxEventId = OutboxEventId (outboxEventId_value: string)

text \<open>\<open>IdTraits<Tag>::isValid\<close>: every tag validates as a UUID.\<close>

fun IdTraits_isValid :: "IdTag \<Rightarrow> string \<Rightarrow> bool" where
  "IdTraits_isValid OrderIdTag v = isValidUuid v"
| "IdTraits_isValid UserIdTag v = isValidUuid v"
| "IdTraits_isValid ProductIdTag v = isValidUuid v"
| "IdTraits_isValid OutboxEventIdTag v = isValidUuid v"

text \<open>\<open>StrongID<Tag>::create\<close>, with the private constructor of the instantiation as argument.\<close>

definition StrongID_create :: "IdTag \<Rightarrow> (string \<Rightarrow> 'i) \<Rightarrow> string \<Rightarrow> 'i expected" where
  "StrongID_create tag mk v =
     (if v = [] then Inl (make_StrongIdError StrongIdError.EmptyId)
      else if \<not> IdTraits_isValid tag v then Inl (make_StrongIdError StrongIdError.InvalidFormat)
      else Inr (mk v))"

definition OrderId_create :: "string \<Rightarrow> OrderId expected" where
  "OrderId_create = StrongID_create OrderIdTag OrderId"

definition UserId_create :: "string \<Rightarrow> UserId expected" where
  "UserId_create = StrongID_create UserIdTag UserId"

definition ProductId_create :: "string \<Rightarrow> ProductId expected" where
  "ProductId_create = StrongID_create ProductIdTag ProductId"

definition OutboxEventId_create :: "string \<Rightarrow> OutboxEventId expected" where
  "OutboxEventId_create = StrongID_create OutboxEventIdTag OutboxEventId"

lemmas id_create_defs =
  OrderId_create_def UserId_create_def ProductId_create_def OutboxEventId_create_def

section \<open>Lemmas\<close>

lemma IdTraits_isValid_uuid [simp]: "IdTraits_isValid tag v = isValidUuid v"
  by (cases tag) simp_all

lemma matchHexRun_iff:
  "matchHexRun n s = Some rest \<longleftrightarrow> (\<exists>run. s = run @ rest \<and> length run = n \<and> list_all isHexDigit run)"
proof (induction n s rule: matchHexRun.induct)
  case (1 s)
  then show ?case by auto
next
  case (2 n c s)
  have "(\<exists>run. c # s = run @ rest \<and> length run = Suc n \<and> list_all isHexDigit run) \<longleftrightarrow>
      isHexDigit c \<and> (\<exists>run. s = run @ rest \<and> length run = n \<and> list_all isHexDigit run)"
    (is "?L \<longleftrightarrow> ?R")
  proof
    assume ?L
    then show ?R by (auto simp: length_Suc_conv)
  next
    assume ?R
    then obtain run where "s = run @ rest" "length run = n" "list_all isHexDigit run" "isHexDigit c"
      by blast
    then show ?L by (intro exI [of _ "c # run"]) simp
  qed
  with 2 show ?case by simp
next
  case (3 n)
  then show ?case by auto
qed

lemma matchHexRuns_Cons:
  "ns \<noteq> [] \<Longrightarrow> matchHexRuns (n # ns) s \<longleftrightarrow>
     (\<exists>run rest. s = run @ CHR ''-'' # rest \<and> length run = n \<and> list_all isHexDigit run \<and>
        matchHexRuns ns rest)"
proof -
  assume "ns \<noteq> []"
  then have "matchHexRuns (n # ns) s \<longleftrightarrow>
      (\<exists>rest. matchHexRun n s = Some (CHR ''-'' # rest) \<and> matchHexRuns ns rest)"
    by (cases ns) (auto split: option.splits list.splits)
  then show ?thesis by (auto simp: matchHexRun_iff)
qed

lemma isValidUuid_not_Nil: "isValidUuid v \<Longrightarrow> v \<noteq> []"
  by (auto simp: isValidUuid_def matchHexRuns_Cons simp del: matchHexRuns.simps)

lemma StrongID_create_Inr_iff [simp]:
  "StrongID_create tag mk v = Inr i \<longleftrightarrow> isValidUuid v \<and> i = mk v"
  using isValidUuid_not_Nil by (auto simp: StrongID_create_def)

lemma StrongID_create_valid: "isValidUuid v \<Longrightarrow> StrongID_create tag mk v = Inr (mk v)"
  by simp

lemma StrongID_create_errors:
  "StrongID_create tag mk v = Inl e \<longleftrightarrow>
     (v = [] \<and> e = make_StrongIdError StrongIdError.EmptyId) \<or>
     (v \<noteq> [] \<and> \<not> isValidUuid v \<and> e = make_StrongIdError StrongIdError.InvalidFormat)"
  using isValidUuid_not_Nil by (auto simp: StrongID_create_def)

text \<open>A dash is not a hexadecimal digit, and an upper bound of the characters accepted.\<close>

lemma dash_not_hex [simp]: "\<not> isHexDigit CHR ''-''"
  by code_simp

text \<open>
  The positions the pattern allows a digit (\<open>True\<close>) and a dash (\<open>False\<close>) at.
\<close>

fun uuidTemplate :: "nat list \<Rightarrow> bool list" where
  "uuidTemplate [] = []"
| "uuidTemplate [n] = replicate n True"
| "uuidTemplate (n # ns) = replicate n True @ False # uuidTemplate ns"

fun uuidFits :: "bool \<Rightarrow> char \<Rightarrow> bool" where
  "uuidFits True c \<longleftrightarrow> isHexDigit c"
| "uuidFits False c \<longleftrightarrow> c = CHR ''-''"

lemma uuidFits_if: "uuidFits b c \<longleftrightarrow> (if b then isHexDigit c else c = CHR ''-'')"
  by (cases b) simp_all

lemma uuidFits_replicate:
  "list_all2 uuidFits (replicate n True) s \<longleftrightarrow> length s = n \<and> list_all isHexDigit s"
proof (induction n arbitrary: s)
  case 0
  then show ?case by auto
next
  case (Suc n)
  show ?case by (cases s) (auto simp: Suc.IH)
qed

lemma list_all2_append_left:
  "list_all2 P (xs @ ys) zs \<longleftrightarrow>
     (\<exists>us vs. zs = us @ vs \<and> list_all2 P xs us \<and> list_all2 P ys vs)"
  by (metis list_all2_append list_all2_append1 list_all2_lengthD)

lemma list_all2_map_upt:
  "list_all2 P (map f [0..<n]) v \<longleftrightarrow> length v = n \<and> (\<forall>i < n. P (f i) (v ! i))"
  by (auto simp: list_all2_conv_all_nth)

lemma matchHexRuns_template: "matchHexRuns ns s \<longleftrightarrow> list_all2 uuidFits (uuidTemplate ns) s"
proof (induction ns arbitrary: s rule: uuidTemplate.induct)
  case 1
  then show ?case by auto
next
  case (2 n)
  then show ?case by (auto simp: uuidFits_replicate matchHexRun_iff)
next
  case (3 n m ns)
  have "list_all2 uuidFits (replicate n True @ False # uuidTemplate (m # ns)) s \<longleftrightarrow>
      (\<exists>run rest. s = run @ rest \<and> list_all2 uuidFits (replicate n True) run \<and>
         list_all2 uuidFits (False # uuidTemplate (m # ns)) rest)"
    by (rule list_all2_append_left)
  also have "\<dots> \<longleftrightarrow> (\<exists>run rest. s = run @ CHR ''-'' # rest \<and> length run = n \<and>
         list_all isHexDigit run \<and> matchHexRuns (m # ns) rest)"
    unfolding uuidFits_replicate list_all2_Cons1 "3.IH" by auto
  finally show ?case
    by (simp add: matchHexRuns_Cons del: matchHexRuns.simps)
qed

section \<open>Properties\<close>

text \<open>The UUID matcher accepts a value exactly when it has 36 characters, a dash at positions
  8, 13, 18 and 23, and a hexadecimal digit at every other position.\<close>

lemma isValidUuid_layout:
  "isValidUuid v \<longleftrightarrow>
     length v = 36 \<and>
     (\<forall>i < 36. if i \<in> {8, 13, 18, 23} then v ! i = CHR ''-'' else isHexDigit (v ! i))"
proof -
  have "isValidUuid v \<longleftrightarrow> list_all2 uuidFits (uuidTemplate [8, 4, 4, 4, 12]) v"
    by (simp only: isValidUuid_def matchHexRuns_template)
  also have "uuidTemplate [8, 4, 4, 4, 12] = map (\<lambda>i. i \<notin> {8, 13, 18, 23}) [0..<36]"
    by code_simp
  finally show ?thesis
    by (simp only: list_all2_map_upt uuidFits_if if_not_P not_not if_False) metis
qed

end
