(* ===== verification/RecordExecutor.thy ===== *)
theory RecordExecutor
  imports PartitionRegistry RetryPolicy Ids
begin

text \<open>
  \<open>shared/messaging/RecordExecutor.h\<close>: a worker's treatment of one record. The executor runs on
  several threads beside the polling thread, so it is a small-step machine: one step per access to
  something shared (the stop token, the registry, the handler, the dead-letter sink). What the
  step sees of the outside world (the token, the handler's answer, the sink's answer) is its
  \<open>observation\<close>; the registry is the one shared at that moment. \<open>exec_run\<close> is a whole \<open>execute\<close>
  over the observations and registries that its steps meet. The attempt counters are unbounded:
  they would leave the range of \<open>int\<close> after \<open>2^31 - 1\<close> attempts.
\<close>

record MessageMetadata =
  mm_eventId :: OutboxEventId
  mm_eventType :: string

record WorkItem =
  wi_ticket :: RecordTicket
  wi_payload :: string
  wi_metadata :: MessageMetadata

datatype RecordOutcome = Succeeded | DeadLettered | Abandoned

record DeadLetterRecord =
  dl_source :: PartitionKey
  dl_offset :: int
  dl_attempts :: int
  dl_payload :: string
  dl_metadata :: MessageMetadata

section \<open>The machine\<close>

text \<open>A call of \<open>IEventHandler::handle\<close> returns a truth value or throws.\<close>

datatype handler_result = Returned bool | Threw

record observation =
  obs_stop :: bool
  obs_handler :: handler_result
  obs_sent :: "unit expected"

text \<open>What the executor does to the outside, with the answer it got.\<close>

datatype exec_action =
    Invoked string MessageMetadata bool
  | Sent DeadLetterRecord bool
  | Slept "int option"
  | Completed RecordTicket

text \<open>
  Where \<open>execute\<close> stands: before the check of an attempt, in the handler, after a failed attempt;
  before, in and after an attempt to send to the dead-letter sink; in \<open>finish\<close>.
\<close>

datatype exec_pc =
    AttemptTop int
  | Invoking int
  | AttemptFailed int
  | DlqTop int
  | DlqSending int
  | DlqFailed int
  | Finishing RecordOutcome

datatype exec_result = Running exec_pc | Finished RecordOutcome

definition shouldAbandon :: "WorkItem \<Rightarrow> bool \<Rightarrow> PartitionRegistry \<Rightarrow> bool" where
  "shouldAbandon item stopRequested r \<longleftrightarrow> stopRequested \<or> \<not> isCurrent (wi_ticket item) r"

definition invokeHandler :: "handler_result \<Rightarrow> bool" where
  "invokeHandler res = (case res of Returned b \<Rightarrow> b | Threw \<Rightarrow> False)"

definition deadLetterRecord :: "WorkItem \<Rightarrow> int \<Rightarrow> DeadLetterRecord" where
  "deadLetterRecord item attempts =
     \<lparr>dl_source = rt_partition (wi_ticket item), dl_offset = rt_offset (wi_ticket item),
      dl_attempts = attempts, dl_payload = wi_payload item, dl_metadata = wi_metadata item\<rparr>"

definition finish :: "WorkItem \<Rightarrow> RecordOutcome \<Rightarrow> PartitionRegistry \<Rightarrow> RecordOutcome \<times> PartitionRegistry" where
  "finish item outcome r = (outcome, snd (registry_complete (wi_ticket item) r))"

text \<open>The steps of the loop of \<open>deadLetter\<close>.\<close>

fun deadLetter_step ::
  "RetryPolicy \<Rightarrow> WorkItem \<Rightarrow> int \<Rightarrow> observation \<Rightarrow> exec_pc \<Rightarrow> PartitionRegistry \<Rightarrow> exec_action list \<times> exec_result" where
  "deadLetter_step policy item attempts obs (DlqTop sendAttempt) r =
     ([], if shouldAbandon item (obs_stop obs) r then Finished Abandoned else Running (DlqSending sendAttempt))"
| "deadLetter_step policy item attempts obs (DlqSending sendAttempt) r =
     (let sent = has_value (obs_sent obs) in
      ([Sent (deadLetterRecord item attempts) sent],
       if sent then Running (Finishing DeadLettered) else Running (DlqFailed sendAttempt)))"
| "deadLetter_step policy item attempts obs (DlqFailed sendAttempt) r =
     ([Slept (delayAfterAttempt policy sendAttempt)],
      if \<not> sleepUnlessStopped (obs_stop obs) then Finished Abandoned else Running (DlqTop (sendAttempt + 1)))"
| "deadLetter_step policy item attempts obs pc r = ([], Running pc)"

fun execute_step ::
  "RetryPolicy \<Rightarrow> WorkItem \<Rightarrow> observation \<Rightarrow> exec_pc \<Rightarrow> PartitionRegistry \<Rightarrow>
   exec_action list \<times> exec_result \<times> PartitionRegistry" where
  "execute_step policy item obs (AttemptTop attempt) r =
     (if attempt \<le> effectiveMaxAttempts policy then
        ([], if shouldAbandon item (obs_stop obs) r then Finished Abandoned else Running (Invoking attempt), r)
      else ([], Running (DlqTop 1), r))"
| "execute_step policy item obs (Invoking attempt) r =
     (let handled = invokeHandler (obs_handler obs) in
      ([Invoked (wi_payload item) (wi_metadata item) handled],
       if handled then Running (Finishing Succeeded) else Running (AttemptFailed attempt), r))"
| "execute_step policy item obs (AttemptFailed attempt) r =
     (if attempt < effectiveMaxAttempts policy then
        ([Slept (delayAfterAttempt policy attempt)],
         if \<not> sleepUnlessStopped (obs_stop obs) then Finished Abandoned else Running (AttemptTop (attempt + 1)), r)
      else ([], Running (AttemptTop (attempt + 1)), r))"
| "execute_step policy item obs (Finishing outcome) r =
     (let (outcome', r') = finish item outcome r in ([Completed (wi_ticket item)], Finished outcome', r'))"
| "execute_step policy item obs pc r =
     (let (acts, res) = deadLetter_step policy item (effectiveMaxAttempts policy) obs pc r in (acts, res, r))"

fun exec_run ::
  "RetryPolicy \<Rightarrow> WorkItem \<Rightarrow> exec_pc \<Rightarrow> (observation \<times> PartitionRegistry) list \<Rightarrow> exec_action list \<times> exec_result" where
  "exec_run policy item pc [] = ([], Running pc)"
| "exec_run policy item pc ((obs, r) # world) =
     (case execute_step policy item obs pc r of
        (acts, Finished outcome, r') \<Rightarrow> (acts, Finished outcome)
      | (acts, Running pc', r') \<Rightarrow>
          let (acts', res) = exec_run policy item pc' world in (acts @ acts', res))"

definition execute ::
  "RetryPolicy \<Rightarrow> WorkItem \<Rightarrow> (observation \<times> PartitionRegistry) list \<Rightarrow> exec_action list \<times> exec_result" where
  "execute policy item world = exec_run policy item (AttemptTop 1) world"

section \<open>What a finished run has done\<close>

text \<open>\<open>k\<close> failed calls of the handler from attempt \<open>a\<close> on, each followed by its pause; the same for
  the dead-letter sink.\<close>

definition failedAttempts :: "RetryPolicy \<Rightarrow> WorkItem \<Rightarrow> int \<Rightarrow> nat \<Rightarrow> exec_action list" where
  "failedAttempts policy item a k =
     concat (map (\<lambda>i. [Invoked (wi_payload item) (wi_metadata item) False,
                        Slept (delayAfterAttempt policy (a + int i))]) [0..<k])"

definition failedSends :: "RetryPolicy \<Rightarrow> WorkItem \<Rightarrow> int \<Rightarrow> nat \<Rightarrow> exec_action list" where
  "failedSends policy item n j =
     concat (map (\<lambda>i. [Sent (deadLetterRecord item (effectiveMaxAttempts policy)) False,
                        Slept (delayAfterAttempt policy (n + int i))]) [0..<j])"

definition isSettling :: "exec_action \<Rightarrow> bool" where
  "isSettling act =
     (case act of Invoked _ _ b \<Rightarrow> b | Sent _ b \<Rightarrow> b | Slept _ \<Rightarrow> False | Completed _ \<Rightarrow> True)"

definition isInvocation :: "exec_action \<Rightarrow> bool" where
  "isInvocation act = (case act of Invoked _ _ _ \<Rightarrow> True | _ \<Rightarrow> False)"

lemma repeat_Suc:
  "concat (map (\<lambda>i. f (a + int i)) [0..<Suc k]) = f a @ concat (map (\<lambda>i. f (a + 1 + int i)) [0..<k])"
proof -
  have "[0..<Suc k] = 0 # map Suc [0..<k]" by (simp add: map_Suc_upt upt_conv_Cons)
  then show ?thesis by (simp add: comp_def add.assoc)
qed

lemma failedAttempts_0 [simp]: "failedAttempts policy item a 0 = []"
  by (simp add: failedAttempts_def)

lemma failedAttempts_Suc:
  "failedAttempts policy item a (Suc k) =
     Invoked (wi_payload item) (wi_metadata item) False # Slept (delayAfterAttempt policy a) #
     failedAttempts policy item (a + 1) k"
  unfolding failedAttempts_def
  using repeat_Suc [of "\<lambda>a. [Invoked (wi_payload item) (wi_metadata item) False, Slept (delayAfterAttempt policy a)]"]
  by simp

lemma failedSends_0 [simp]: "failedSends policy item n 0 = []"
  by (simp add: failedSends_def)

lemma failedSends_Suc:
  "failedSends policy item n (Suc j) =
     Sent (deadLetterRecord item (effectiveMaxAttempts policy)) False # Slept (delayAfterAttempt policy n) #
     failedSends policy item (n + 1) j"
  unfolding failedSends_def
  using repeat_Suc [of "\<lambda>n. [Sent (deadLetterRecord item (effectiveMaxAttempts policy)) False,
      Slept (delayAfterAttempt policy n)]"]
  by simp

text \<open>A run that was abandoned: nothing settled, and at most \<open>k\<close> calls of the handler.\<close>

definition abandonedWithin :: "nat \<Rightarrow> exec_action list \<Rightarrow> bool" where
  "abandonedWithin k acts \<longleftrightarrow>
     list_all (\<lambda>act. \<not> isSettling act) acts \<and> length (filter isInvocation acts) \<le> k"

text \<open>The actions that remain from each point of the machine, by outcome.\<close>

definition dlqRest :: "RetryPolicy \<Rightarrow> WorkItem \<Rightarrow> int \<Rightarrow> exec_action list \<Rightarrow> RecordOutcome \<Rightarrow> bool" where
  "dlqRest policy item n acts outcome =
     (case outcome of
        Succeeded \<Rightarrow> False
      | DeadLettered \<Rightarrow>
          \<exists>j. acts = failedSends policy item n j @
                [Sent (deadLetterRecord item (effectiveMaxAttempts policy)) True, Completed (wi_ticket item)]
      | Abandoned \<Rightarrow> abandonedWithin 0 acts)"

definition attemptsRest :: "RetryPolicy \<Rightarrow> WorkItem \<Rightarrow> int \<Rightarrow> exec_action list \<Rightarrow> RecordOutcome \<Rightarrow> bool" where
  "attemptsRest policy item a acts outcome =
     (let left = nat (effectiveMaxAttempts policy + 1 - a) in
      case outcome of
        Succeeded \<Rightarrow>
          \<exists>k < left. acts = failedAttempts policy item a k @
                [Invoked (wi_payload item) (wi_metadata item) True, Completed (wi_ticket item)]
      | DeadLettered \<Rightarrow>
          (if left = 0 then dlqRest policy item 1 acts DeadLettered
           else \<exists>rest. acts = failedAttempts policy item a (left - 1) @
                  Invoked (wi_payload item) (wi_metadata item) False # rest \<and>
                  dlqRest policy item 1 rest DeadLettered)
      | Abandoned \<Rightarrow> abandonedWithin left acts)"

lemma exec_run_Cons:
  "exec_run policy item pc ((obs, r) # world) = (acts, Finished outcome) \<longleftrightarrow>
     (\<exists>acts1 r'. execute_step policy item obs pc r = (acts1, Finished outcome, r') \<and> acts = acts1) \<or>
     (\<exists>acts1 pc' r' acts2. execute_step policy item obs pc r = (acts1, Running pc', r') \<and>
        exec_run policy item pc' world = (acts2, Finished outcome) \<and> acts = acts1 @ acts2)"
  by (auto split: prod.splits exec_result.splits)

lemma run_Finishing:
  "exec_run policy item (Finishing oc) world = (acts, Finished outcome) \<Longrightarrow>
   acts = [Completed (wi_ticket item)] \<and> outcome = oc"
  by (cases world) (auto simp: finish_def split: prod.splits)

lemma abandonedWithin_simps [simp]:
  "abandonedWithin k []"
  "abandonedWithin k (Slept d # acts) = abandonedWithin k acts"
  "abandonedWithin k (Sent rec False # acts) = abandonedWithin k acts"
  "abandonedWithin (Suc k) (Invoked p q False # acts) = abandonedWithin k acts"
  by (auto simp: abandonedWithin_def isSettling_def isInvocation_def)

lemma abandonedWithin_mono: "abandonedWithin k acts \<Longrightarrow> k \<le> k' \<Longrightarrow> abandonedWithin k' acts"
  by (auto simp: abandonedWithin_def)

lemma dlqRest_done:
  "dlqRest policy item n [Sent (deadLetterRecord item (effectiveMaxAttempts policy)) True, Completed (wi_ticket item)]
     DeadLettered"
  unfolding dlqRest_def by (auto intro: exI [of _ 0])

lemma dlqRest_retry:
  "dlqRest policy item (n + 1) rest outcome \<Longrightarrow>
   dlqRest policy item n (Sent (deadLetterRecord item (effectiveMaxAttempts policy)) False #
     Slept (delayAfterAttempt policy n) # rest) outcome"
proof (cases outcome)
  case DeadLettered
  assume "dlqRest policy item (n + 1) rest outcome"
  then obtain j where "rest = failedSends policy item (n + 1) j @
      [Sent (deadLetterRecord item (effectiveMaxAttempts policy)) True, Completed (wi_ticket item)]"
    using DeadLettered by (auto simp: dlqRest_def)
  then show ?thesis
    using DeadLettered by (auto simp: dlqRest_def failedSends_Suc intro!: exI [of _ "Suc j"])
qed (simp_all add: dlqRest_def)

lemma run_dlq:
  "(exec_run policy item (DlqTop n) world = (acts, Finished outcome) \<longrightarrow> dlqRest policy item n acts outcome) \<and>
   (exec_run policy item (DlqSending n) world = (acts, Finished outcome) \<longrightarrow> dlqRest policy item n acts outcome) \<and>
   (exec_run policy item (DlqFailed n) world = (acts, Finished outcome) \<longrightarrow>
      dlqRest policy item n (Sent (deadLetterRecord item (effectiveMaxAttempts policy)) False # acts) outcome)"
proof (induction world arbitrary: n acts)
  case Nil
  then show ?case by simp
next
  case (Cons w world)
  obtain obs r where w: "w = (obs, r)" by (cases w)
  show ?case
    unfolding w exec_run_Cons
    using Cons.IH [of n] Cons.IH [of "n + 1"] dlqRest_done [of policy item n]
    by (auto simp: Let_def dlqRest_def [of _ _ _ _ Abandoned] dest!: run_Finishing
        intro: dlqRest_retry split: if_splits prod.splits)
qed

lemma attemptsRest_retry:
  assumes "a < effectiveMaxAttempts policy" "attemptsRest policy item (a + 1) rest outcome"
  shows "attemptsRest policy item a (Invoked (wi_payload item) (wi_metadata item) False #
     Slept (delayAfterAttempt policy a) # rest) outcome"
proof -
  define left where "left = nat (effectiveMaxAttempts policy - a)"
  have left: "nat (effectiveMaxAttempts policy + 1 - (a + 1)) = left"
    "nat (effectiveMaxAttempts policy + 1 - a) = Suc left" "left \<noteq> 0"
    using assms(1) by (auto simp: left_def)
  then obtain l where l: "left = Suc l" by (cases left) auto
  show ?thesis
  proof (cases outcome)
    case Succeeded
    then obtain k where "k < left" "rest = failedAttempts policy item (a + 1) k @
        [Invoked (wi_payload item) (wi_metadata item) True, Completed (wi_ticket item)]"
      using assms(2) left by (auto simp: attemptsRest_def)
    then show ?thesis
      using Succeeded left by (auto simp: attemptsRest_def failedAttempts_Suc intro!: exI [of _ "Suc k"])
  next
    case DeadLettered
    then show ?thesis
      using assms left l by (auto simp: attemptsRest_def Let_def failedAttempts_Suc)
  next
    case Abandoned
    then show ?thesis using assms(2) left by (simp add: attemptsRest_def)
  qed
qed

lemma attemptsRest_exhausted:
  "attemptsRest policy item (effectiveMaxAttempts policy + 1) rest outcome \<longleftrightarrow> dlqRest policy item 1 rest outcome"
  by (cases outcome) (simp_all add: attemptsRest_def dlqRest_def)

lemma attemptsRest_last:
  "dlqRest policy item 1 rest outcome \<Longrightarrow>
   attemptsRest policy item (effectiveMaxAttempts policy)
     (Invoked (wi_payload item) (wi_metadata item) False # rest) outcome"
  by (cases outcome) (simp_all add: attemptsRest_def dlqRest_def)

lemma attemptsRest_now:
  "a \<le> effectiveMaxAttempts policy \<Longrightarrow>
   attemptsRest policy item a [Invoked (wi_payload item) (wi_metadata item) True, Completed (wi_ticket item)] Succeeded"
  unfolding attemptsRest_def Let_def by (auto intro!: exI [of _ 0])

lemma run_attempts:
  "(a \<le> effectiveMaxAttempts policy + 1 \<longrightarrow>
      exec_run policy item (AttemptTop a) world = (acts, Finished outcome) \<longrightarrow> attemptsRest policy item a acts outcome) \<and>
   (a \<le> effectiveMaxAttempts policy \<longrightarrow>
      exec_run policy item (Invoking a) world = (acts, Finished outcome) \<longrightarrow> attemptsRest policy item a acts outcome) \<and>
   (a \<le> effectiveMaxAttempts policy \<longrightarrow>
      exec_run policy item (AttemptFailed a) world = (acts, Finished outcome) \<longrightarrow>
      attemptsRest policy item a (Invoked (wi_payload item) (wi_metadata item) False # acts) outcome)"
    (is "?top world a acts \<and> ?inv world a acts \<and> ?failed world a acts")
proof (induction world arbitrary: a acts)
  case Nil
  then show ?case by simp
next
  case (Cons w world)
  obtain obs r where w: "w = (obs, r)" by (cases w)
  have "?top (w # world) a acts"
  proof (cases "a \<le> effectiveMaxAttempts policy")
    case True
    then show ?thesis
      unfolding w exec_run_Cons using Cons.IH [of a] by (auto simp: attemptsRest_def split: if_splits)
  next
    case False
    then have "attemptsRest policy item a acts outcome = dlqRest policy item 1 acts outcome"
      if "a \<le> effectiveMaxAttempts policy + 1"
    proof -
      have "a = effectiveMaxAttempts policy + 1" using False that by simp
      then show ?thesis by (simp only: attemptsRest_exhausted)
    qed
    then show ?thesis
      unfolding w exec_run_Cons
      using False run_dlq [of policy item 1 world acts outcome] by auto
  qed
  moreover have "?inv (w # world) a acts"
    unfolding w exec_run_Cons using Cons.IH [of a]
    by (auto simp: Let_def dest!: run_Finishing split: if_splits intro: attemptsRest_now)
  moreover have "?failed (w # world) a acts"
  proof (cases "a < effectiveMaxAttempts policy")
    case True
    then show ?thesis
      unfolding w exec_run_Cons
      using Cons.IH [of "a + 1"] attemptsRest_retry [OF True, of item _ outcome]
      by (auto simp: attemptsRest_def [of _ _ _ _ Abandoned] split: if_splits)
  next
    case False
    then have "a = effectiveMaxAttempts policy" if "a \<le> effectiveMaxAttempts policy" using that by simp
    then show ?thesis
      unfolding w exec_run_Cons
      using False Cons.IH [of "a + 1"] by (auto simp: attemptsRest_exhausted intro: attemptsRest_last)
  qed
  ultimately show ?case by blast
qed

text \<open>
  How many steps are left at most, when the sink accepts: four for sending and finishing, and three
  for each attempt left.
\<close>

fun stepsLeft :: "RetryPolicy \<Rightarrow> exec_pc \<Rightarrow> nat" where
  "stepsLeft policy (AttemptTop a) = 3 * nat (effectiveMaxAttempts policy + 1 - a) + 4"
| "stepsLeft policy (Invoking a) = 3 * nat (effectiveMaxAttempts policy - a) + 6"
| "stepsLeft policy (AttemptFailed a) = 3 * nat (effectiveMaxAttempts policy - a) + 5"
| "stepsLeft policy (DlqTop n) = 3"
| "stepsLeft policy (DlqSending n) = 2"
| "stepsLeft policy (DlqFailed n) = 4"
| "stepsLeft policy (Finishing outcome) = 1"

lemma stepsLeft_decreases:
  assumes "execute_step policy item obs pc r = (acts, Running pc', r')"
    and "has_value (obs_sent obs)"
  shows "stepsLeft policy pc' < stepsLeft policy pc"
  using assms
  by (cases pc) (auto simp: Let_def finish_def split: if_splits prod.splits)

lemma run_finishes:
  "\<forall>(obs, r) \<in> set world. has_value (obs_sent obs) \<Longrightarrow> stepsLeft policy pc \<le> length world \<Longrightarrow>
   \<exists>acts outcome. exec_run policy item pc world = (acts, Finished outcome)"
proof (induction world arbitrary: pc)
  case Nil
  then show ?case by (cases pc) auto
next
  case (Cons w world)
  obtain obs r where w: "w = (obs, r)" by (cases w)
  obtain acts res r' where step: "execute_step policy item obs pc r = (acts, res, r')"
    by (metis prod_cases3)
  show ?case
  proof (cases res)
    case (Running pc')
    with step stepsLeft_decreases [of policy item obs pc r acts pc' r'] Cons.prems w
    have "stepsLeft policy pc' \<le> length world" by fastforce
    with Cons.IH [of pc'] Cons.prems(1) obtain acts' outcome where
      "exec_run policy item pc' world = (acts', Finished outcome)" by auto
    then show ?thesis using step Running by (simp add: w)
  qed (simp add: w step)
qed

section \<open>Properties\<close>

text \<open>C16. What a finished execution has done, for every behaviour of the stop token, the registry,
  the handler and the sink. \<open>Succeeded\<close>: some failed calls, fewer than the allowed attempts, each
  followed by the policy's pause, then one successful call and the completion of the ticket.
  \<open>DeadLettered\<close>: exactly the allowed number of failed calls, then failed sends of the one
  dead-letter record, a successful send and the completion. \<open>Abandoned\<close>: no successful call or send, no
  completion, and no more calls than allowed.\<close>

theorem execute_actions:
  assumes "execute policy item world = (acts, Finished outcome)"
  shows "let n = nat (effectiveMaxAttempts policy); record = deadLetterRecord item (effectiveMaxAttempts policy) in
    case outcome of
      Succeeded \<Rightarrow>
        \<exists>k < n. acts = failedAttempts policy item 1 k @
          [Invoked (wi_payload item) (wi_metadata item) True, Completed (wi_ticket item)]
    | DeadLettered \<Rightarrow>
        \<exists>j. acts = failedAttempts policy item 1 (n - 1) @
          [Invoked (wi_payload item) (wi_metadata item) False] @ failedSends policy item 1 j @
          [Sent record True, Completed (wi_ticket item)]
    | Abandoned \<Rightarrow>
        list_all (\<lambda>act. \<not> isSettling act) acts \<and> length (filter isInvocation acts) \<le> n"
proof -
  have pos: "1 \<le> effectiveMaxAttempts policy" by (simp add: effectiveMaxAttempts_def)
  then have "attemptsRest policy item 1 acts outcome"
    using run_attempts [of 1 policy item world acts outcome] assms by (simp add: execute_def)
  with pos show ?thesis
    by (cases outcome) (auto simp: attemptsRest_def dlqRest_def abandonedWithin_def)
qed

definition sampleItem :: WorkItem where
  "sampleItem =
     \<lparr>wi_ticket = sampleTicket, wi_payload = ''{}'',
      wi_metadata = \<lparr>mm_eventId = OutboxEventId ''00000000-0000-4000-8000-000000000001'', mm_eventType = ''OrderCreated''\<rparr>\<rparr>"

definition sampleWorld :: "handler_result list \<Rightarrow> (observation \<times> PartitionRegistry) list" where
  "sampleWorld answers =
     map (\<lambda>a. (\<lparr>obs_stop = False, obs_handler = a, obs_sent = Inr ()\<rparr>, sampleRegistry)) answers"

definition onceRetried :: RetryPolicy where
  "onceRetried = RetryPolicy_default\<lparr>maxAttempts := 2\<rparr>"

theorem execute_actions_witness:
  "\<exists>j. fst (execute onceRetried sampleItem (sampleWorld (replicate 10 Threw))) =
     failedAttempts onceRetried sampleItem 1 1 @
     [Invoked (wi_payload sampleItem) (wi_metadata sampleItem) False] @ failedSends onceRetried sampleItem 1 j @
     [Sent (deadLetterRecord sampleItem 2) True, Completed sampleTicket]"
proof -
  have cur: "isCurrent sampleTicket sampleRegistry" by code_simp
  have "snd (execute onceRetried sampleItem (sampleWorld (replicate 10 Threw))) = Finished DeadLettered"
    using cur
    by (simp add: execute_def sampleWorld_def onceRetried_def effectiveMaxAttempts_def shouldAbandon_def
        sampleItem_def invokeHandler_def sleepUnlessStopped_def finish_def numeral_eq_Suc)
  with execute_actions [of onceRetried sampleItem "sampleWorld (replicate 10 Threw)" _ DeadLettered]
  show ?thesis
    by (auto simp: prod_eq_iff onceRetried_def effectiveMaxAttempts_def sampleItem_def)
qed

text \<open>C30. An execution ends: if the sink accepts what it is sent, it returns an outcome within
  \<open>3 * n + 4\<close> steps for \<open>n\<close> allowed attempts, whatever the handler, the token and the registry do.\<close>

theorem execute_terminates:
  assumes "\<forall>(obs, r) \<in> set world. has_value (obs_sent obs)"
    and "3 * nat (effectiveMaxAttempts policy) + 4 \<le> length world"
  shows "\<exists>acts outcome. execute policy item world = (acts, Finished outcome)"
  using run_finishes [OF assms(1), of policy "AttemptTop 1" item] assms(2) by (simp add: execute_def)

theorem execute_terminates_witness:
  "\<exists>acts outcome. execute onceRetried sampleItem (sampleWorld (replicate 10 Threw)) = (acts, Finished outcome)"
  by (rule execute_terminates)
    (simp_all add: sampleWorld_def onceRetried_def effectiveMaxAttempts_def)

end
