(* ===== verification/WorkerPool.thy ===== *)
theory WorkerPool
  imports Prelude
begin

text \<open>
  \<open>shared/messaging/WorkerPool.h\<close>: a bounded queue of tasks and the threads that take from it. The
  queue, the capacity and the flag are guarded by the pool's mutex; every section of code that
  holds the mutex is one definition, and so is every step of a thread. A thread waits, executes
  a task (whose state \<open>'run\<close> the pool does not look into) or has left its loop; its stop token is
  part of it.
\<close>

datatype 'run worker = Waiting | Executing 'run | Exited

datatype 'run thread = Thread (stop_requested: bool) (activity: "'run worker")

record ('task, 'run) WorkerPool =
  wp_queue :: "'task list"
  wp_capacity :: nat
  wp_stopped :: bool
  wp_threads :: "'run thread list"

definition WorkerPool_create :: "nat \<Rightarrow> nat \<Rightarrow> ('task, 'run) WorkerPool" where
  "WorkerPool_create threadCount queueCapacity =
     \<lparr>wp_queue = [], wp_capacity = max 1 queueCapacity, wp_stopped = False,
      wp_threads = replicate (max 1 threadCount) (Thread False Waiting)\<rparr>"

definition trySubmit :: "'task \<Rightarrow> ('task, 'run) WorkerPool \<Rightarrow> bool \<times> ('task, 'run) WorkerPool" where
  "trySubmit task pool =
     (if wp_stopped pool \<or> wp_capacity pool \<le> length (wp_queue pool) then (False, pool)
      else (True, pool\<lparr>wp_queue := wp_queue pool @ [task]\<rparr>))"

definition pendingCount :: "('task, 'run) WorkerPool \<Rightarrow> nat" where
  "pendingCount pool = length (wp_queue pool)"

text \<open>\<open>stop\<close>: the locked section, the stop requests, and the joining destructors of the threads, which
  return only when every thread has left its loop.\<close>

definition stop_close :: "('task, 'run) WorkerPool \<Rightarrow> ('task, 'run) WorkerPool" where
  "stop_close pool = pool\<lparr>wp_stopped := True, wp_queue := []\<rparr>"

definition stop_request :: "nat \<Rightarrow> ('task, 'run) WorkerPool \<Rightarrow> ('task, 'run) WorkerPool" where
  "stop_request i pool =
     (if i < length (wp_threads pool) then
        pool\<lparr>wp_threads := (wp_threads pool)[i := Thread True (activity (wp_threads pool ! i))]\<rparr>
      else pool)"

definition stop_join :: "('task, 'run) WorkerPool \<Rightarrow> ('task, 'run) WorkerPool option" where
  "stop_join pool =
     (if list_all (\<lambda>th. activity th = Exited) (wp_threads pool) then Some (pool\<lparr>wp_threads := []\<rparr>) else None)"

text \<open>
  The locked section of \<open>workerLoop\<close> in thread \<open>i\<close>: the wait ends when the queue is not empty or a stop
  is requested; a stopped thread leaves the loop, any other takes the first task. \<open>None\<close>: the
  thread goes on waiting, or is not at this point.
\<close>

definition worker_take ::
  "('task \<Rightarrow> 'run) \<Rightarrow> nat \<Rightarrow> ('task, 'run) WorkerPool \<Rightarrow> ('task, 'run) WorkerPool option" where
  "worker_take start i pool =
     (if i < length (wp_threads pool) \<and> activity (wp_threads pool ! i) = Waiting then
        if stop_requested (wp_threads pool ! i) then
          Some (pool\<lparr>wp_threads := (wp_threads pool)[i := Thread True Exited]\<rparr>)
        else
          (case wp_queue pool of
             [] \<Rightarrow> None
           | task # rest \<Rightarrow>
               Some (pool\<lparr>wp_queue := rest, wp_threads := (wp_threads pool)[i := Thread False (Executing (start task))]\<rparr>))
      else None)"

text \<open>The task of thread \<open>i\<close> goes on (\<open>Some\<close>), or it returned or threw and the loop starts again.\<close>

definition worker_run :: "nat \<Rightarrow> 'run option \<Rightarrow> ('task, 'run) WorkerPool \<Rightarrow> ('task, 'run) WorkerPool" where
  "worker_run i next pool =
     pool\<lparr>wp_threads := (wp_threads pool)[i := Thread (stop_requested (wp_threads pool ! i))
        (case next of None \<Rightarrow> Waiting | Some run \<Rightarrow> Executing run)]\<rparr>"

section \<open>Histories of a pool\<close>

text \<open>What a thread does with a task: it has taken it out of the queue, under the lock, and will call it, or it is in the
  call, outside the lock.\<close>

datatype 'task call = Holding 'task | Calling 'task

text \<open>\<open>pool_history pool accepted taken begun\<close>: the pool after any interleaving of its operations, with the tasks that it
  accepted, that its threads took and that they called, each in order.\<close>

inductive pool_history ::
  "('task, 'task call) WorkerPool \<Rightarrow> 'task list \<Rightarrow> 'task list \<Rightarrow> 'task list \<Rightarrow> bool" where
  created: "pool_history (WorkerPool_create threadCount queueCapacity) [] [] []"
| submitted: "pool_history pool accepted taken begun \<Longrightarrow> trySubmit task pool = (True, pool') \<Longrightarrow>
    pool_history pool' (accepted @ [task]) taken begun"
| refused: "pool_history pool accepted taken begun \<Longrightarrow> trySubmit task pool = (False, pool') \<Longrightarrow>
    pool_history pool' accepted taken begun"
| took: "pool_history pool accepted taken begun \<Longrightarrow> worker_take Holding i pool = Some pool' \<Longrightarrow>
    pool_history pool' accepted
      (if stop_requested (wp_threads pool ! i) then taken else taken @ [hd (wp_queue pool)]) begun"
| called: "pool_history pool accepted taken begun \<Longrightarrow> i < length (wp_threads pool) \<Longrightarrow>
    activity (wp_threads pool ! i) = Executing (Holding task) \<Longrightarrow>
    pool_history (worker_run i (Some (Calling task)) pool) accepted taken (begun @ [task])"
| returned: "pool_history pool accepted taken begun \<Longrightarrow> i < length (wp_threads pool) \<Longrightarrow>
    activity (wp_threads pool ! i) = Executing (Calling task) \<Longrightarrow>
    pool_history (worker_run i None pool) accepted taken begun"
| closed: "pool_history pool accepted taken begun \<Longrightarrow> pool_history (stop_close pool) accepted taken begun"
| requested: "pool_history pool accepted taken begun \<Longrightarrow> wp_stopped pool \<Longrightarrow>
    pool_history (stop_request i pool) accepted taken begun"
| joined: "pool_history pool accepted taken begun \<Longrightarrow> wp_stopped pool \<Longrightarrow> stop_join pool = Some pool' \<Longrightarrow>
    pool_history pool' accepted taken begun"

text \<open>The tasks that were taken and are still to be called.\<close>

fun held_by :: "'task call thread \<Rightarrow> 'task multiset" where
  "held_by (Thread _ (Executing (Holding task))) = {#task#}"
| "held_by _ = {#}"

definition held :: "('task, 'task call) WorkerPool \<Rightarrow> 'task multiset" where
  "held pool = sum_list (map held_by (wp_threads pool))"

lemma held_update:
  assumes "i < length threads"
  shows "sum_list (map held_by (threads[i := th])) + held_by (threads ! i) = sum_list (map held_by threads) + held_by th"
  using assms by (induction threads arbitrary: i) (auto simp: ac_simps split: nat.split)

lemma held_none: "\<forall>th \<in> set threads. held_by th = {#} \<Longrightarrow> sum_list (map held_by threads) = {#}"
  by (induction threads) simp_all

lemma held_by_cases: "held_by th = (case activity th of Executing (Holding task) \<Rightarrow> {#task#} | _ \<Rightarrow> {#})"
  by (cases th rule: held_by.cases) simp_all

definition pool_inv :: "('task, 'task call) WorkerPool \<Rightarrow> 'task list \<Rightarrow> 'task list \<Rightarrow> 'task list \<Rightarrow> bool" where
  "pool_inv pool accepted taken begun \<longleftrightarrow>
     1 \<le> wp_capacity pool \<and> length (wp_queue pool) \<le> wp_capacity pool \<and>
     (if wp_stopped pool then wp_queue pool = [] \<and> (\<exists>dropped. accepted = taken @ dropped)
      else accepted = taken @ wp_queue pool) \<and>
     mset taken = mset begun + held pool"

lemma held_worker_take:
  assumes "worker_take Holding i pool = Some pool'"
  shows "held pool' = held pool + (if stop_requested (wp_threads pool ! i) then {#} else {#hd (wp_queue pool)#})"
proof -
  have i: "i < length (wp_threads pool)" "activity (wp_threads pool ! i) = Waiting"
    using assms by (auto simp: worker_take_def split: if_splits)
  then have "held_by (wp_threads pool ! i) = {#}" by (simp add: held_by_cases)
  with assms i held_update [OF i(1)] show ?thesis
    by (auto simp: worker_take_def held_def split: if_splits list.splits)
qed

lemma held_worker_run:
  assumes "i < length (wp_threads pool)" "activity (wp_threads pool ! i) = Executing run"
  shows "held (worker_run i (Some (Calling task)) pool) + held_by (wp_threads pool ! i) = held pool"
    and "held (worker_run i None pool) + held_by (wp_threads pool ! i) = held pool"
  using held_update [OF assms(1)] by (simp_all add: held_def worker_run_def)

lemma held_stop_request: "held (stop_request i pool) = held pool"
proof (cases "i < length (wp_threads pool)")
  case True
  then show ?thesis
    using held_update [OF True, of "Thread True (activity (wp_threads pool ! i))"]
    by (simp add: held_def stop_request_def held_by_cases)
qed (simp add: stop_request_def)

lemma held_stop_join: "stop_join pool = Some pool' \<Longrightarrow> held pool = {#} \<and> held pool' = {#}"
  by (auto simp: held_def stop_join_def list_all_iff held_by_cases split: if_splits intro: held_none)

lemma pool_history_inv: "pool_history pool accepted taken begun \<Longrightarrow> pool_inv pool accepted taken begun"
proof (induction rule: pool_history.induct)
  case (created threadCount queueCapacity)
  have "held (WorkerPool_create threadCount queueCapacity :: ('a, 'a call) WorkerPool) = {#}"
    unfolding held_def by (rule held_none) (simp add: WorkerPool_create_def)
  then show ?case by (simp add: pool_inv_def WorkerPool_create_def)
next
  case (took pool accepted taken begun i pool')
  then show ?case
    using held_worker_take [OF took.hyps(2)]
    by (auto simp: pool_inv_def worker_take_def split: if_splits list.splits)
next
  case (called pool accepted taken begun i task)
  then have "held_by (wp_threads pool ! i) = {#task#}" by (simp add: held_by_cases)
  with called held_worker_run(1) [OF called.hyps(2,3), of task] show ?case
    by (auto simp: pool_inv_def worker_run_def)
next
  case (returned pool accepted taken begun i task)
  then have "held_by (wp_threads pool ! i) = {#}" by (simp add: held_by_cases)
  with returned held_worker_run(2) [OF returned.hyps(2,3)] show ?case
    by (auto simp: pool_inv_def worker_run_def)
next
  case (requested pool accepted taken begun i)
  then show ?case using held_stop_request [of i pool] by (auto simp: pool_inv_def stop_request_def)
next
  case (joined pool accepted taken begun pool')
  then show ?case using held_stop_join [OF joined.hyps(3)] by (auto simp: pool_inv_def stop_join_def split: if_splits)
qed (auto simp: pool_inv_def trySubmit_def stop_close_def held_def split: if_splits)

section \<open>Properties\<close>

text \<open>C33. No task is lost or run twice, under every interleaving of the submitting thread, the workers and \<open>stop\<close>: the queue
  never exceeds its capacity and is emptied from its front; until the pool is stopped every accepted task is queued,
  held by a thread that is about to call it, or was called, and only once; \<open>stop\<close> drops what is queued and nothing else, and when
  it has joined the threads every task that was taken has been called. A submission is refused exactly when the pool is
  stopped or its queue is full. Nothing is said about the order of the calls.\<close>

theorem pool_runs_once:
  assumes "pool_history pool accepted taken begun"
  shows "pendingCount pool \<le> wp_capacity pool \<and>
    (\<exists>rest. accepted = taken @ rest \<and> (wp_stopped pool \<or> rest = wp_queue pool)) \<and>
    mset taken = mset begun + held pool \<and>
    (wp_threads pool = [] \<longrightarrow> mset begun = mset taken) \<and>
    fst (trySubmit task pool) = (\<not> wp_stopped pool \<and> pendingCount pool < wp_capacity pool)"
  using pool_history_inv [OF assms]
  by (auto simp: pool_inv_def pendingCount_def trySubmit_def held_def split: if_splits)

text \<open>Two threads take a task each, and the second is called first.\<close>

definition samplePool :: "(nat, nat call) WorkerPool" where
  "samplePool =
     (let submit = (\<lambda>task pool. snd (trySubmit task pool)); take_task = (\<lambda>i pool. the (worker_take Holding i pool)) in
      worker_run 1 (Some (Calling 2)) (take_task 1 (take_task 0 (submit 2 (submit 1 (WorkerPool_create 2 4))))))"

lemma samplePool_history: "pool_history samplePool [1, 2] [1, 2] [2]"
proof -
  note defs = WorkerPool_create_def trySubmit_def worker_take_def worker_run_def
  let ?p0 = "WorkerPool_create 2 4 :: (nat, nat call) WorkerPool"
  let ?p1 = "snd (trySubmit 1 ?p0)" let ?p2 = "snd (trySubmit 2 ?p1)"
  let ?p3 = "the (worker_take Holding 0 ?p2)" let ?p4 = "the (worker_take Holding 1 ?p3)"
  have "pool_history ?p1 [1] [] []"
    using pool_history.submitted [OF pool_history.created [of 2 4], of 1 ?p1] by (simp add: defs)
  from pool_history.submitted [OF this, of 2 ?p2] have "pool_history ?p2 [1, 2] [] []" by (simp add: defs)
  from pool_history.took [OF this, of 0 ?p3] have "pool_history ?p3 [1, 2] [1] []" by (simp add: defs numeral_2_eq_2)
  from pool_history.took [OF this, of 1 ?p4] have "pool_history ?p4 [1, 2] [1, 2] []" by (simp add: defs numeral_2_eq_2)
  from pool_history.called [OF this, of 1 2] show ?thesis by (simp add: samplePool_def defs numeral_2_eq_2)
qed

theorem pool_runs_once_witness:
  "pool_history samplePool [1, 2] [1, 2] [2] \<and> mset [1, 2] = mset [2] + held samplePool \<and> fst (trySubmit 3 samplePool)"
proof -
  have "pendingCount samplePool = 0" "wp_capacity samplePool = 4" "\<not> wp_stopped samplePool" by code_simp+
  then show ?thesis using pool_runs_once [OF samplePool_history, of 3] samplePool_history by simp
qed

text \<open>Once the pool is stopped nothing is taken any more: the queue is empty, submissions are
  refused and a thread can only leave its loop.\<close>

lemma stopped_pool_is_idle:
  assumes "pool_history pool accepted taken begun" "wp_stopped pool"
  shows "wp_queue pool = [] \<and> \<not> fst (trySubmit task pool) \<and>
    (case worker_take Holding i pool of
       None \<Rightarrow> True
     | Some pool' \<Rightarrow> activity (wp_threads pool' ! i) = Exited)"
  using pool_history_inv [OF assms(1)] assms(2)
  by (auto simp: pool_inv_def trySubmit_def worker_take_def split: option.splits if_splits list.splits)

end
