(* ===== verification/ConsumerPipeline.thy ===== *)
theory ConsumerPipeline
  imports RecordExecutor WorkerPool
begin

text \<open>
  \<open>shared/messaging/ConsumerPipeline.h\<close>: registry, executor, backlog and worker pool put together,
  and the whole as a transition system. The polling thread calls the methods of the pipeline;
  the threads of the pool run the executor. Every transition is one section of code that is
  atomic towards the other threads: the backlog belongs to the polling thread alone, the registry
  and the pool are guarded by their mutexes.
\<close>

record IncomingRecord =
  ir_partition :: PartitionKey
  ir_offset :: int
  ir_payload :: string
  ir_eventId :: "string option"
  ir_eventType :: string

record PipelineConfiguration =
  pc_workerThreads :: nat
  pc_queueCapacity :: nat
  pc_retry :: RetryPolicy

definition PipelineConfiguration_default :: PipelineConfiguration where
  "PipelineConfiguration_default =
     \<lparr>pc_workerThreads = 4, pc_queueCapacity = 64, pc_retry = RetryPolicy_default\<rparr>"

text \<open>A task of the pool is the execution of one item; a running task is the item and where
  \<open>execute\<close> stands.\<close>

record ConsumerPipeline =
  cl_registry :: PartitionRegistry
  cl_policy :: RetryPolicy
  cl_backlog :: "WorkItem list"
  cl_pool :: "(WorkItem, WorkItem \<times> exec_pc) WorkerPool"

definition ConsumerPipeline_create :: "PipelineConfiguration \<Rightarrow> ConsumerPipeline" where
  "ConsumerPipeline_create config =
     \<lparr>cl_registry = PartitionRegistry_init, cl_policy = pc_retry config, cl_backlog = [],
      cl_pool = WorkerPool_create (pc_workerThreads config) (pc_queueCapacity config)\<rparr>"

definition onPartitionsAssigned :: "PartitionKey list \<Rightarrow> ConsumerPipeline \<Rightarrow> ConsumerPipeline" where
  "onPartitionsAssigned partitions pl = pl\<lparr>cl_registry := assign partitions (cl_registry pl)\<rparr>"

definition onPartitionsRevoked ::
  "PartitionKey list \<Rightarrow> ConsumerPipeline \<Rightarrow> CommitPosition list \<times> ConsumerPipeline" where
  "onPartitionsRevoked partitions pl =
     (let (finalPositions, r) = revoke partitions (cl_registry pl) in
      (finalPositions,
       pl\<lparr>cl_registry := r,
          cl_backlog := filter (\<lambda>item. rt_partition (wi_ticket item) \<notin> set partitions) (cl_backlog pl)\<rparr>))"

text \<open>\<open>ingest\<close> returns nothing; what it did is told here by the ticket and, for a record it skips, by
  the result of completing it.\<close>

datatype ingest_outcome =
    NotRegistered error_code
  | SkippedRecord RecordTicket "CompletionResult expected"
  | Backlogged RecordTicket

definition workItem_of :: "IncomingRecord \<Rightarrow> RecordTicket \<Rightarrow> OutboxEventId \<Rightarrow> WorkItem" where
  "workItem_of rec ticket eventId =
     \<lparr>wi_ticket = ticket, wi_payload = ir_payload rec,
      wi_metadata = \<lparr>mm_eventId = eventId, mm_eventType = ir_eventType rec\<rparr>\<rparr>"

definition ingest :: "IncomingRecord \<Rightarrow> ConsumerPipeline \<Rightarrow> ingest_outcome \<times> ConsumerPipeline" where
  "ingest rec pl =
     (case registry_registerRecord (ir_partition rec) (ir_offset rec) (cl_registry pl) of
        (Inl e, r) \<Rightarrow> (NotRegistered e, pl\<lparr>cl_registry := r\<rparr>)
      | (Inr ticket, r) \<Rightarrow>
          (case OutboxEventId_create (case ir_eventId rec of None \<Rightarrow> [] | Some v \<Rightarrow> v) of
             Inl e \<Rightarrow>
               let (res, r') = registry_complete ticket r in
               (SkippedRecord ticket res, pl\<lparr>cl_registry := r'\<rparr>)
           | Inr eventId \<Rightarrow>
               (Backlogged ticket,
                pl\<lparr>cl_registry := r, cl_backlog := cl_backlog pl @ [workItem_of rec ticket eventId]\<rparr>)))"

text \<open>One turn of the loop of \<open>pump\<close>: \<open>Some b\<close> when the method returns \<open>b\<close>. \<open>pump\<close> is the loop when no
  worker takes anything meanwhile.\<close>

definition pump_turn :: "ConsumerPipeline \<Rightarrow> bool option \<times> ConsumerPipeline" where
  "pump_turn pl =
     (case cl_backlog pl of
        [] \<Rightarrow> (Some True, pl)
      | item # rest \<Rightarrow>
          let (accepted, pool) = trySubmit item (cl_pool pl) in
          if \<not> accepted then (Some False, pl\<lparr>cl_pool := pool\<rparr>)
          else (None, pl\<lparr>cl_pool := pool, cl_backlog := rest\<rparr>))"

function pump :: "ConsumerPipeline \<Rightarrow> bool \<times> ConsumerPipeline" where
  "pump pl = (case pump_turn pl of (Some b, pl') \<Rightarrow> (b, pl') | (None, pl') \<Rightarrow> pump pl')"
  by auto
termination
  by (relation "measure (\<lambda>pl. length (cl_backlog pl))")
    (auto simp: pump_turn_def Let_def split: list.splits if_splits prod.splits)

declare pump.simps [simp del]

definition pipeline_commitCandidates :: "ConsumerPipeline \<Rightarrow> CommitPosition list" where
  "pipeline_commitCandidates pl = commitCandidates (cl_registry pl)"

definition pipeline_confirmCommit :: "CommitPosition \<Rightarrow> ConsumerPipeline \<Rightarrow> ConsumerPipeline" where
  "pipeline_confirmCommit position pl =
     pl\<lparr>cl_registry := snd (registry_confirmCommit position (cl_registry pl))\<rparr>"

definition backlogSize :: "ConsumerPipeline \<Rightarrow> nat" where
  "backlogSize pl = length (cl_backlog pl)"

text \<open>\<open>stop\<close> is \<open>WorkerPool::stop\<close>, whose sections are those of \<open>WorkerPool\<close>, followed by this.\<close>

definition pipeline_stopped :: "ConsumerPipeline \<Rightarrow> ConsumerPipeline" where
  "pipeline_stopped pl = pl\<lparr>cl_backlog := []\<rparr>"

section \<open>The transition system\<close>

text \<open>The events of a run: a ticket was issued, its record was skipped for want of an event id,
  handled by the handler, stored in the dead-letter queue, its completion was applied, or the task that
  executed it threw.\<close>

datatype event =
    EvIssued RecordTicket
  | EvSkipped RecordTicket
  | EvHandled RecordTicket
  | EvDeadLettered RecordTicket
  | EvCompleted RecordTicket
  | EvThrew RecordTicket

definition completion_events :: "RecordTicket \<Rightarrow> CompletionResult expected \<Rightarrow> event list" where
  "completion_events ticket res = (if res = Inr Applied then [EvCompleted ticket] else [])"

definition ingest_events :: "ingest_outcome \<Rightarrow> event list" where
  "ingest_events outcome =
     (case outcome of
        NotRegistered e \<Rightarrow> []
      | SkippedRecord ticket res \<Rightarrow> [EvIssued ticket, EvSkipped ticket] @ completion_events ticket res
      | Backlogged ticket \<Rightarrow> [EvIssued ticket])"

definition action_events :: "WorkItem \<Rightarrow> PartitionRegistry \<Rightarrow> exec_action \<Rightarrow> event list" where
  "action_events item r act =
     (case act of
        Invoked _ _ b \<Rightarrow> if b then [EvHandled (wi_ticket item)] else []
      | Sent _ b \<Rightarrow> if b then [EvDeadLettered (wi_ticket item)] else []
      | Slept _ \<Rightarrow> []
      | Completed ticket \<Rightarrow> completion_events ticket (fst (registry_complete ticket r)))"

definition start_task :: "WorkItem \<Rightarrow> WorkItem \<times> exec_pc" where
  "start_task item = (item, AttemptTop 1)"

text \<open>One step of the task in thread \<open>i\<close>; the token it reads is the thread's.\<close>

definition task_step :: "nat \<Rightarrow> observation \<Rightarrow> ConsumerPipeline \<Rightarrow> (event list \<times> ConsumerPipeline) option" where
  "task_step i obs pl =
     (if i < length (wp_threads (cl_pool pl)) then
        case activity (wp_threads (cl_pool pl) ! i) of
          Executing (item, pc) \<Rightarrow>
            let obs' = obs\<lparr>obs_stop := stop_requested (wp_threads (cl_pool pl) ! i)\<rparr>;
                (acts, res, r) = execute_step (cl_policy pl) item obs' pc (cl_registry pl);
                next = (case res of Running pc' \<Rightarrow> Some (item, pc') | Finished outcome \<Rightarrow> None) in
            Some (concat (map (action_events item (cl_registry pl)) acts),
                  pl\<lparr>cl_registry := r, cl_pool := worker_run i next (cl_pool pl)\<rparr>)
        | _ \<Rightarrow> None
      else None)"

text \<open>
  The task in thread \<open>i\<close> throws; \<open>workerLoop\<close> catches everything and goes on. The executor catches what the
  handler throws and the registry does not throw; its log calls may (\<open>Logging\<close>), as may an allocation.
\<close>

definition task_throws :: "nat \<Rightarrow> ConsumerPipeline \<Rightarrow> (event list \<times> ConsumerPipeline) option" where
  "task_throws i pl =
     (if i < length (wp_threads (cl_pool pl)) then
        case activity (wp_threads (cl_pool pl) ! i) of
          Executing (item, pc) \<Rightarrow> Some ([EvThrew (wi_ticket item)], pl\<lparr>cl_pool := worker_run i None (cl_pool pl)\<rparr>)
        | _ \<Rightarrow> None
      else None)"

inductive pipeline_step :: "ConsumerPipeline \<Rightarrow> event list \<Rightarrow> ConsumerPipeline \<Rightarrow> bool" where
  Assigned: "no_generation_wrap ps (cl_registry pl) \<Longrightarrow> pipeline_step pl [] (onPartitionsAssigned ps pl)"
| Revoked: "onPartitionsRevoked ps pl = (positions, pl') \<Longrightarrow> pipeline_step pl [] pl'"
| Ingested: "legalOffset (ir_offset rec) \<Longrightarrow> ingest rec pl = (outcome, pl') \<Longrightarrow>
    pipeline_step pl (ingest_events outcome) pl'"
| Pumped: "pump_turn pl = (res, pl') \<Longrightarrow> pipeline_step pl [] pl'"
| Taken: "worker_take start_task i (cl_pool pl) = Some pool \<Longrightarrow> pipeline_step pl [] (pl\<lparr>cl_pool := pool\<rparr>)"
| Executed: "task_step i obs pl = Some (evs, pl') \<Longrightarrow> pipeline_step pl evs pl'"
| Thrown: "task_throws i pl = Some (evs, pl') \<Longrightarrow> pipeline_step pl evs pl'"
| Confirmed: "pipeline_step pl [] (pipeline_confirmCommit position pl)"
| StopClosed: "pipeline_step pl [] (pl\<lparr>cl_pool := stop_close (cl_pool pl)\<rparr>)"
| StopRequested: "wp_stopped (cl_pool pl) \<Longrightarrow> pipeline_step pl [] (pl\<lparr>cl_pool := stop_request i (cl_pool pl)\<rparr>)"
| StopJoined: "wp_stopped (cl_pool pl) \<Longrightarrow> stop_join (cl_pool pl) = Some pool \<Longrightarrow>
    pipeline_step pl [] (pl\<lparr>cl_pool := pool\<rparr>)"
| StopCleared: "wp_stopped (cl_pool pl) \<Longrightarrow> pipeline_step pl [] (pipeline_stopped pl)"

inductive pipeline_history :: "ConsumerPipeline \<Rightarrow> event list \<Rightarrow> bool" where
  hist_init: "pipeline_history (ConsumerPipeline_create config) []"
| hist_step: "pipeline_history pl tr \<Longrightarrow> pipeline_step pl evs pl' \<Longrightarrow> pipeline_history pl' (tr @ evs)"

end
