(* ===== verification/PipelineSafety.thy ===== *)
theory PipelineSafety
  imports ConsumerPipeline
begin

text \<open>
  What holds in every state of the consumer pipeline: only settled records are completed, and
  until the pipeline is stopped no record is lost between the registry, the backlog, the queue and
  the workers.
\<close>

section \<open>Reading a trace\<close>

definition issuedIn :: "event list \<Rightarrow> ghost" where
  "issuedIn tr = (\<lambda>p g. {off. EvIssued \<lparr>rt_partition = p, rt_offset = off, rt_generation = g\<rparr> \<in> set tr})"

definition completedIn :: "event list \<Rightarrow> ghost" where
  "completedIn tr = (\<lambda>p g. {off. EvCompleted \<lparr>rt_partition = p, rt_offset = off, rt_generation = g\<rparr> \<in> set tr})"

text \<open>A record is settled when it was handled, stored in the dead-letter queue or skipped.\<close>

definition settled :: "RecordTicket \<Rightarrow> event list \<Rightarrow> bool" where
  "settled t tr \<longleftrightarrow> EvHandled t \<in> set tr \<or> EvDeadLettered t \<in> set tr \<or> EvSkipped t \<in> set tr"

lemma issued_issuedIn [simp]: "issued t (issuedIn tr) \<longleftrightarrow> EvIssued t \<in> set tr"
  by (cases t) (simp add: issued_def issuedIn_def)

lemma issuedIn_append:
  "issuedIn (tr @ [EvIssued t]) = ghost_add t (issuedIn tr)"
  "completedIn (tr @ [EvCompleted t]) = ghost_add t (completedIn tr)"
  by (cases t; auto simp: fun_eq_iff issuedIn_def completedIn_def ghost_add_apply)+

definition ghostNeutral :: "event \<Rightarrow> bool" where
  "ghostNeutral ev = (case ev of EvIssued _ \<Rightarrow> False | EvCompleted _ \<Rightarrow> False | _ \<Rightarrow> True)"

lemma issuedIn_neutral:
  "list_all ghostNeutral evs \<Longrightarrow> issuedIn (tr @ evs) = issuedIn tr"
  "list_all ghostNeutral evs \<Longrightarrow> completedIn (tr @ evs) = completedIn tr"
  by (auto simp: fun_eq_iff issuedIn_def completedIn_def list_all_iff ghostNeutral_def)

lemma issuedIn_completed: "issuedIn (tr @ [EvCompleted t]) = issuedIn tr"
  and completedIn_issued: "completedIn (tr @ [EvIssued t]) = completedIn tr"
  by (auto simp: fun_eq_iff issuedIn_def completedIn_def)

lemma settled_mono: "settled t tr \<Longrightarrow> settled t (tr @ evs)"
  by (auto simp: settled_def)

section \<open>Where the records are\<close>

definition runs :: "'run thread list \<Rightarrow> 'run set" where
  "runs threads = {run. \<exists>th \<in> set threads. activity th = Executing run}"

abbreviation running :: "ConsumerPipeline \<Rightarrow> (WorkItem \<times> exec_pc) set" where
  "running pl \<equiv> runs (wp_threads (cl_pool pl))"

definition inFlight :: "ConsumerPipeline \<Rightarrow> RecordTicket set" where
  "inFlight pl =
     wi_ticket ` set (cl_backlog pl) \<union> wi_ticket ` set (wp_queue (cl_pool pl)) \<union> (wi_ticket \<circ> fst) ` running pl"

section \<open>The invariant\<close>

definition pipeline_inv :: "ConsumerPipeline \<Rightarrow> event list \<Rightarrow> bool" where
  "pipeline_inv pl tr \<longleftrightarrow>
     registry_tracks (cl_registry pl) (issuedIn tr) (completedIn tr) \<and>
     (\<forall>t. EvCompleted t \<in> set tr \<longrightarrow> settled t tr) \<and>
     (\<forall>t \<in> inFlight pl. EvIssued t \<in> set tr) \<and>
     (\<forall>th \<in> set (wp_threads (cl_pool pl)). stop_requested th \<longrightarrow> wp_stopped (cl_pool pl)) \<and>
     (\<forall>item outcome. (item, Finishing outcome) \<in> running pl \<longrightarrow> settled (wi_ticket item) tr) \<and>
     (\<not> wp_stopped (cl_pool pl) \<longrightarrow>
        (\<forall>t. EvIssued t \<in> set tr \<and> isCurrent t (cl_registry pl) \<and> EvCompleted t \<notin> set tr \<and> EvThrew t \<notin> set tr \<longrightarrow>
           t \<in> inFlight pl))"

lemma pipeline_invD:
  assumes "pipeline_inv pl tr"
  shows "registry_tracks (cl_registry pl) (issuedIn tr) (completedIn tr)"
    and "EvCompleted t \<in> set tr \<Longrightarrow> settled t tr"
    and "t \<in> inFlight pl \<Longrightarrow> EvIssued t \<in> set tr"
    and "th \<in> set (wp_threads (cl_pool pl)) \<Longrightarrow> stop_requested th \<Longrightarrow> wp_stopped (cl_pool pl)"
    and "(item, Finishing outcome) \<in> running pl \<Longrightarrow> settled (wi_ticket item) tr"
    and "\<not> wp_stopped (cl_pool pl) \<Longrightarrow> EvIssued t \<in> set tr \<Longrightarrow> isCurrent t (cl_registry pl) \<Longrightarrow>
      EvCompleted t \<notin> set tr \<Longrightarrow> EvThrew t \<notin> set tr \<Longrightarrow> t \<in> inFlight pl"
  using assms by (auto simp: pipeline_inv_def)

text \<open>A transition that leaves the registry's tickets and the trace alone only moves records.\<close>

lemma pipeline_inv_move:
  assumes "pipeline_inv pl tr"
    and "registry_tracks (cl_registry pl') (issuedIn tr) (completedIn tr)"
    and "inFlight pl' \<subseteq> inFlight pl"
    and "\<And>th. th \<in> set (wp_threads (cl_pool pl')) \<Longrightarrow> stop_requested th \<Longrightarrow> wp_stopped (cl_pool pl')"
    and "\<And>item outcome. (item, Finishing outcome) \<in> running pl' \<Longrightarrow> (item, Finishing outcome) \<in> running pl"
    and "\<not> wp_stopped (cl_pool pl') \<Longrightarrow> \<not> wp_stopped (cl_pool pl)"
    and "\<And>t. \<not> wp_stopped (cl_pool pl') \<Longrightarrow> EvIssued t \<in> set tr \<Longrightarrow> isCurrent t (cl_registry pl') \<Longrightarrow>
      isCurrent t (cl_registry pl) \<and> (t \<in> inFlight pl \<longrightarrow> t \<in> inFlight pl')"
  shows "pipeline_inv pl' tr"
  using assms unfolding pipeline_inv_def by blast

lemma isCurrent_put:
  "kv_find p (r_partitions r) = Some st \<Longrightarrow> isCurrent t (put_tracker p st tr r) = isCurrent t r"
  by (auto simp: isCurrent_def)

lemma isCurrent_kept:
  "isCurrent t (snd (registry_registerRecord p off r)) = isCurrent t r"
  "isCurrent t (snd (registry_complete t' r)) = isCurrent t r"
  "isCurrent t (snd (registry_confirmCommit cp r)) = isCurrent t r"
  by (auto simp: registry_registerRecord_def registry_complete_def registry_confirmCommit_def isCurrent_put
      split: option.split prod.split)

section \<open>Preservation\<close>

lemma inv_create: "pipeline_inv (ConsumerPipeline_create config) []"
proof -
  have "registry_tracks PartitionRegistry_init (issuedIn []) (completedIn [])"
    using registry_history_tracks [OF registry_history.reg_init]
    by (simp add: issuedIn_def completedIn_def)
  then show ?thesis
    by (auto simp: pipeline_inv_def ConsumerPipeline_create_def inFlight_def runs_def WorkerPool_create_def)
qed

lemma inv_assigned:
  assumes "pipeline_inv pl tr" "no_generation_wrap ps (cl_registry pl)"
  shows "pipeline_inv (onPartitionsAssigned ps pl) tr"
proof (rule pipeline_inv_move [OF assms(1)])
  note tracks = pipeline_invD(1) [OF assms(1)]
  show "registry_tracks (cl_registry (onPartitionsAssigned ps pl)) (issuedIn tr) (completedIn tr)"
    using assign_tracks [OF tracks assms(2)] by (simp add: onPartitionsAssigned_def)
  fix t
  assume t: "EvIssued t \<in> set tr" "isCurrent t (cl_registry (onPartitionsAssigned ps pl))"
  have "rt_partition t \<notin> set ps"
  proof
    assume "rt_partition t \<in> set ps"
    with assign_fresh [OF this assms(2)] issued_generation [OF tracks, of t] t show False
      by (auto simp: isCurrent_def onPartitionsAssigned_def)
  qed
  then show "isCurrent t (cl_registry pl) \<and> (t \<in> inFlight pl \<longrightarrow> t \<in> inFlight (onPartitionsAssigned ps pl))"
    using t(2) by (simp add: isCurrent_def onPartitionsAssigned_def assign_other inFlight_def)
qed (use pipeline_invD(4) [OF assms(1)] in \<open>auto simp: onPartitionsAssigned_def inFlight_def\<close>)

lemma inv_revoked:
  assumes "pipeline_inv pl tr" "onPartitionsRevoked ps pl = (positions, pl')"
  shows "pipeline_inv pl' tr"
proof (rule pipeline_inv_move [OF assms(1)])
  have pl': "pl' = pl\<lparr>cl_registry := snd (revoke ps (cl_registry pl)),
      cl_backlog := filter (\<lambda>item. rt_partition (wi_ticket item) \<notin> set ps) (cl_backlog pl)\<rparr>"
    using assms(2) by (auto simp: onPartitionsRevoked_def split: prod.splits)
  show "registry_tracks (cl_registry pl') (issuedIn tr) (completedIn tr)"
    using revoke_tracks [OF pipeline_invD(1) [OF assms(1)]] by (simp add: pl')
  show "inFlight pl' \<subseteq> inFlight pl" by (auto simp: pl' inFlight_def)
  show "\<not> wp_stopped (cl_pool pl') \<Longrightarrow> \<not> wp_stopped (cl_pool pl)" by (simp add: pl')
  show "\<And>item outcome. (item, Finishing outcome) \<in> running pl' \<Longrightarrow> (item, Finishing outcome) \<in> running pl"
    by (simp add: pl')
  show "\<And>th. th \<in> set (wp_threads (cl_pool pl')) \<Longrightarrow> stop_requested th \<Longrightarrow> wp_stopped (cl_pool pl')"
    using pipeline_invD(4) [OF assms(1)] by (simp add: pl')
  fix t
  assume "isCurrent t (cl_registry pl')"
  then have "rt_partition t \<notin> set ps" "isCurrent t (cl_registry pl)"
    by (auto simp: pl' isCurrent_def revoke_find split: if_splits)
  then show "isCurrent t (cl_registry pl) \<and> (t \<in> inFlight pl \<longrightarrow> t \<in> inFlight pl')"
    by (auto simp: pl' inFlight_def)
qed

lemma inv_confirmed: "pipeline_inv pl tr \<Longrightarrow> pipeline_inv (pipeline_confirmCommit position pl) tr"
  by (rule pipeline_inv_move)
    (auto simp: pipeline_confirmCommit_def inFlight_def isCurrent_kept dest: pipeline_invD(4)
      intro!: confirm_tracks pipeline_invD(1))

lemma inv_pumped:
  assumes "pipeline_inv pl tr" "pump_turn pl = (res, pl')"
  shows "pipeline_inv pl' tr"
  by (rule pipeline_inv_move [OF assms(1)])
    (use assms in \<open>auto simp: pump_turn_def trySubmit_def inFlight_def
      dest: pipeline_invD(1) pipeline_invD(4) split: list.splits if_splits prod.splits\<close>)

text \<open>Exchanging one thread: the tasks of the other threads stay.\<close>

definition runOf :: "'run thread \<Rightarrow> 'run set" where
  "runOf th = (case activity th of Executing run \<Rightarrow> {run} | _ \<Rightarrow> {})"

lemma runOf_simps [simp]:
  "runOf (Thread s Waiting) = {}" "runOf (Thread s Exited) = {}" "runOf (Thread s (Executing run)) = {run}"
  by (simp_all add: runOf_def)

lemma runs_update:
  assumes "i < length threads"
  obtains others where "runs threads = others \<union> runOf (threads ! i)"
    and "\<And>th. runs (threads[i := th]) = others \<union> runOf th"
proof
  let ?others = "{run. \<exists>j < length threads. j \<noteq> i \<and> activity (threads ! j) = Executing run}"
  have eq: "runs ths = {run. \<exists>j < length ths. activity (ths ! j) = Executing run}" for ths :: "'run thread list"
    by (auto simp: runs_def in_set_conv_nth) (metis nth_mem)
  show "runs threads = ?others \<union> runOf (threads ! i)"
    using assms unfolding eq by (auto simp: runOf_def split: worker.splits)
  show "runs (threads[i := th]) = ?others \<union> runOf th" for th
    using assms unfolding eq by (auto simp: runOf_def nth_list_update split: worker.splits)
qed

lemma thread_stop_update:
  "th \<in> set (threads[i := Thread s a]) \<Longrightarrow> stop_requested th \<Longrightarrow> s \<or> (\<exists>th' \<in> set threads. stop_requested th')"
  using set_update_subset_insert [of threads i "Thread s a"] by auto

lemma inv_taken:
  assumes "pipeline_inv pl tr" "worker_take start_task i (cl_pool pl) = Some pool"
  shows "pipeline_inv (pl\<lparr>cl_pool := pool\<rparr>) tr"
proof -
  let ?ths = "wp_threads (cl_pool pl)"
  have i: "i < length ?ths" "activity (?ths ! i) = Waiting"
    using assms(2) by (auto simp: worker_take_def split: if_splits)
  obtain others where others: "runs ?ths = others \<union> runOf (?ths ! i)"
    "\<And>th. runs (?ths[i := th]) = others \<union> runOf th"
    using runs_update [OF i(1)] by blast
  have idle: "runOf (?ths ! i) = {}" using i(2) by (simp add: runOf_def)
  have stop: "stop_requested (?ths ! i) \<Longrightarrow> wp_stopped (cl_pool pl)"
    using pipeline_invD(4) [OF assms(1) nth_mem [OF i(1)]] by simp
  show ?thesis
    by (rule pipeline_inv_move [OF assms(1)])
      (use assms(2) i others idle stop pipeline_invD(1,4) [OF assms(1)]
        in \<open>auto simp: worker_take_def inFlight_def start_task_def dest!: thread_stop_update
          split: if_splits list.splits\<close>)
qed

lemma inv_stop:
  assumes "pipeline_inv pl tr"
  shows "pipeline_inv (pl\<lparr>cl_pool := stop_close (cl_pool pl)\<rparr>) tr"
    and "wp_stopped (cl_pool pl) \<Longrightarrow> pipeline_inv (pl\<lparr>cl_pool := stop_request i (cl_pool pl)\<rparr>) tr"
    and "wp_stopped (cl_pool pl) \<Longrightarrow> stop_join (cl_pool pl) = Some pool \<Longrightarrow> pipeline_inv (pl\<lparr>cl_pool := pool\<rparr>) tr"
    and "wp_stopped (cl_pool pl) \<Longrightarrow> pipeline_inv (pipeline_stopped pl) tr"
proof -
  let ?ths = "wp_threads (cl_pool pl)"
  note inv = pipeline_invD(1,4) [OF assms]
  have same: "runs (?ths[i := Thread True (activity (?ths ! i))]) = runs ?ths" if "i < length ?ths" for i
    using runs_update [OF that] by (metis runOf_def thread.sel(2))
  show "pipeline_inv (pl\<lparr>cl_pool := stop_close (cl_pool pl)\<rparr>) tr"
    by (rule pipeline_inv_move [OF assms]) (use inv in \<open>auto simp: stop_close_def inFlight_def\<close>)
  show "wp_stopped (cl_pool pl) \<Longrightarrow> pipeline_inv (pl\<lparr>cl_pool := stop_request i (cl_pool pl)\<rparr>) tr"
    by (rule pipeline_inv_move [OF assms]) (use inv same in \<open>auto simp: stop_request_def inFlight_def split: if_splits\<close>)
  show "wp_stopped (cl_pool pl) \<Longrightarrow> stop_join (cl_pool pl) = Some pool \<Longrightarrow> pipeline_inv (pl\<lparr>cl_pool := pool\<rparr>) tr"
    by (rule pipeline_inv_move [OF assms]) (use inv in \<open>auto simp: stop_join_def inFlight_def runs_def split: if_splits\<close>)
  show "wp_stopped (cl_pool pl) \<Longrightarrow> pipeline_inv (pipeline_stopped pl) tr"
    by (rule pipeline_inv_move [OF assms]) (use inv in \<open>auto simp: pipeline_stopped_def inFlight_def\<close>)
qed

lemma inv_ingest_skipped:
  assumes "pipeline_inv pl tr" "legalOffset (ir_offset rec)"
    and "registry_registerRecord (ir_partition rec) (ir_offset rec) (cl_registry pl) = (Inr ticket, r)"
    and "OutboxEventId_create (case ir_eventId rec of None \<Rightarrow> [] | Some v \<Rightarrow> v) = Inl e" "ingest rec pl = (outcome, pl')"
  shows "pipeline_inv pl' (tr @ ingest_events outcome)"
proof -
  note reg = register_tracks [OF pipeline_invD(1) [OF assms(1)] assms(2,3)]
  have cur: "isCurrent t r = isCurrent t (cl_registry pl)" for t
    using isCurrent_kept(1) [of t "ir_partition rec" "ir_offset rec" "cl_registry pl"] assms(3) by simp
  let ?r = "snd (registry_complete ticket r)"
  have "issued ticket (ghost_add ticket (issuedIn tr))" by (simp add: issued_def ghost_add_apply)
  note fin = registry_complete_current [OF reg(1) this reg(3)]
  have pl': "ingest_events outcome = [EvIssued ticket] @ [EvSkipped ticket] @ [EvCompleted ticket]"
    "pl' = pl\<lparr>cl_registry := ?r\<rparr>"
    using assms(3-5) fin(1)
    by (auto simp: ingest_def ingest_events_def completion_events_def split: prod.splits)
  have "issuedIn (tr @ ingest_events outcome) = ghost_add ticket (issuedIn tr)"
    "completedIn (tr @ ingest_events outcome) = ghost_add ticket (completedIn tr)"
    unfolding issuedIn_append(1) [symmetric] issuedIn_append(2) [symmetric] pl'(1)
    by (auto simp: issuedIn_def completedIn_def fun_eq_iff)
  with fin(2) have "registry_tracks ?r (issuedIn (tr @ ingest_events outcome)) (completedIn (tr @ ingest_events outcome))"
    by simp
  then show ?thesis
    using assms(1) cur unfolding pipeline_inv_def pl'
    by (auto simp: settled_def inFlight_def isCurrent_kept)
qed

lemma inv_ingested:
  assumes "pipeline_inv pl tr" "legalOffset (ir_offset rec)" "ingest rec pl = (outcome, pl')"
  shows "pipeline_inv pl' (tr @ ingest_events outcome)"
proof (cases "registry_registerRecord (ir_partition rec) (ir_offset rec) (cl_registry pl)")
  case (Pair res r)
  note tracks = pipeline_invD(1) [OF assms(1)]
  have cur: "isCurrent t r = isCurrent t (cl_registry pl)" for t
    using isCurrent_kept(1) [of t "ir_partition rec" "ir_offset rec" "cl_registry pl"] Pair by simp
  show ?thesis
  proof (cases res)
    case (Inl e)
    then have pl': "outcome = NotRegistered e" "pl' = pl\<lparr>cl_registry := r\<rparr>"
      using assms(3) Pair by (auto simp: ingest_def)
    show ?thesis
      unfolding pl' ingest_events_def
      by simp (rule pipeline_inv_move [OF assms(1)],
          use refused_tracks [OF tracks Pair [unfolded Inl]] cur pipeline_invD(4) [OF assms(1)]
          in \<open>auto simp: inFlight_def\<close>)
  next
    case (Inr ticket)
    note reg = register_tracks [OF tracks assms(2) Pair [unfolded Inr]]
    show ?thesis
    proof (cases "OutboxEventId_create (case ir_eventId rec of None \<Rightarrow> [] | Some v \<Rightarrow> v)")
      case (Inl e)
      from inv_ingest_skipped [OF assms(1,2) Pair [unfolded Inr] this assms(3)] show ?thesis .
    next
      case right: (Inr eventId)
      have pl': "outcome = Backlogged ticket"
        "pl' = pl\<lparr>cl_registry := r, cl_backlog := cl_backlog pl @ [workItem_of rec ticket eventId]\<rparr>"
        using assms(3) Pair Inr right by (auto simp: ingest_def)
      have "registry_tracks r (issuedIn (tr @ [EvIssued ticket])) (completedIn (tr @ [EvIssued ticket]))"
        using reg(1) by (simp add: issuedIn_append completedIn_issued)
      then show ?thesis
        using assms(1) cur unfolding pipeline_inv_def pl' ingest_events_def
        by (auto simp: settled_def inFlight_def workItem_of_def)
    qed
  qed
qed

section \<open>A step of a worker\<close>

lemma execute_step_quiet:
  assumes "execute_step policy item obs pc r = (acts, res, r')" "\<forall>outcome. pc \<noteq> Finishing outcome"
  shows "r' = r" and "list_all ghostNeutral (concat (map (action_events item r0) acts))"
    and "res = Running (Finishing outcome) \<Longrightarrow> settled (wi_ticket item) (concat (map (action_events item r0) acts))"
    and "res = Finished outcome \<Longrightarrow> obs_stop obs \<or> \<not> isCurrent (wi_ticket item) r"
  using assms
  by (cases pc; auto simp: Let_def action_events_def ghostNeutral_def settled_def shouldAbandon_def
      sleepUnlessStopped_def split: if_splits)+

lemma execute_step_finishing:
  "execute_step policy item obs (Finishing outcome) r =
     ([Completed (wi_ticket item)], Finished outcome, snd (registry_complete (wi_ticket item) r))"
  by (simp add: finish_def)

text \<open>Thread \<open>i\<close> leaves its task or goes on with it.\<close>

lemma worker_run_inFlight:
  assumes "i < length (wp_threads (cl_pool pl))"
    and "activity (wp_threads (cl_pool pl) ! i) = Executing (item, pc)"
    and "pl' = pl\<lparr>cl_registry := r, cl_pool := worker_run i next (cl_pool pl)\<rparr>"
  shows "wi_ticket item \<in> inFlight pl"
    and "inFlight pl \<subseteq> insert (wi_ticket item) (inFlight pl')"
    and "next = Some (item, pc') \<Longrightarrow> inFlight pl' = inFlight pl \<and> running pl' \<subseteq> insert (item, pc') (running pl)"
    and "next = None \<Longrightarrow> inFlight pl' \<subseteq> inFlight pl \<and> running pl' \<subseteq> running pl"
    and "th \<in> set (wp_threads (cl_pool pl')) \<Longrightarrow> stop_requested th \<Longrightarrow>
      \<exists>th' \<in> set (wp_threads (cl_pool pl)). stop_requested th'"
    and "wp_stopped (cl_pool pl') = wp_stopped (cl_pool pl)"
proof -
  let ?ths = "wp_threads (cl_pool pl)"
  obtain others where others: "runs ?ths = others \<union> {(item, pc)}"
    "\<And>th. runs (?ths[i := th]) = others \<union> runOf th"
    using runs_update [OF assms(1)] assms(2) by (auto simp: runOf_def)
  show "wi_ticket item \<in> inFlight pl" "inFlight pl \<subseteq> insert (wi_ticket item) (inFlight pl')"
    using others by (auto simp: inFlight_def assms(3) worker_run_def)
  show "next = Some (item, pc') \<Longrightarrow> inFlight pl' = inFlight pl \<and> running pl' \<subseteq> insert (item, pc') (running pl)"
    "next = None \<Longrightarrow> inFlight pl' \<subseteq> inFlight pl \<and> running pl' \<subseteq> running pl"
    using others by (auto simp: inFlight_def assms(3) worker_run_def)
  show "wp_stopped (cl_pool pl') = wp_stopped (cl_pool pl)" by (simp add: assms(3) worker_run_def)
  show "th \<in> set (wp_threads (cl_pool pl')) \<Longrightarrow> stop_requested th \<Longrightarrow> \<exists>th' \<in> set ?ths. stop_requested th'"
    using nth_mem [OF assms(1)] by (auto simp: assms(3) worker_run_def dest!: thread_stop_update)
qed

lemma complete_traced:
  assumes "registry_tracks r (issuedIn tr) (completedIn tr)" "EvIssued t \<in> set tr"
  defines "evs \<equiv> completion_events t (fst (registry_complete t r))"
  shows "registry_tracks (snd (registry_complete t r)) (issuedIn (tr @ evs)) (completedIn (tr @ evs))"
    and "evs = (if isCurrent t r then [EvCompleted t] else [])"
proof -
  show evs: "evs = (if isCurrent t r then [EvCompleted t] else [])"
    using registry_complete_current(1) [OF assms(1), of t] registry_complete_stale [of t r] assms(2)
    by (cases "isCurrent t r") (simp_all add: evs_def completion_events_def)
  show "registry_tracks (snd (registry_complete t r)) (issuedIn (tr @ evs)) (completedIn (tr @ evs))"
    using registry_complete_current(2) [OF assms(1), of t] registry_complete_stale [of t r] assms(1,2)
    by (cases "isCurrent t r") (simp_all add: evs issuedIn_append issuedIn_completed)
qed

lemma task_stepE:
  assumes "task_step i obs pl = Some (evs, pl')"
  obtains item pc acts res r nxt where
    "i < length (wp_threads (cl_pool pl))" "activity (wp_threads (cl_pool pl) ! i) = Executing (item, pc)"
    "execute_step (cl_policy pl) item (obs\<lparr>obs_stop := stop_requested (wp_threads (cl_pool pl) ! i)\<rparr>) pc
       (cl_registry pl) = (acts, res, r)"
    "evs = concat (map (action_events item (cl_registry pl)) acts)"
    "nxt = (case res of Running pc' \<Rightarrow> Some (item, pc') | Finished outcome \<Rightarrow> None)"
    "pl' = pl\<lparr>cl_registry := r, cl_pool := worker_run i nxt (cl_pool pl)\<rparr>"
  using assms by (auto simp: task_step_def Let_def split: if_splits worker.splits prod.splits)

lemma inv_finishing:
  assumes "pipeline_inv pl tr" "i < length (wp_threads (cl_pool pl))"
    and run: "activity (wp_threads (cl_pool pl) ! i) = Executing (item, Finishing outcome)"
    and pl': "pl' = pl\<lparr>cl_registry := snd (registry_complete (wi_ticket item) (cl_registry pl)),
      cl_pool := worker_run i None (cl_pool pl)\<rparr>"
    and evs: "evs = completion_events (wi_ticket item) (fst (registry_complete (wi_ticket item) (cl_registry pl)))"
  shows "pipeline_inv pl' (tr @ evs)"
proof -
  let ?t = "wi_ticket item"
  note moved = worker_run_inFlight [OF assms(2,3) pl']
  note inv = pipeline_invD [OF assms(1)]
  have iss: "EvIssued ?t \<in> set tr" using inv(3) moved(1) by blast
  note fin = complete_traced [OF inv(1) iss, folded evs]
  have settled: "settled ?t tr"
    using inv(5) [of item outcome] run nth_mem [OF assms(2)] by (auto simp: runs_def)
  show ?thesis
    unfolding pipeline_inv_def
  proof (intro conjI)
    show "registry_tracks (cl_registry pl') (issuedIn (tr @ evs)) (completedIn (tr @ evs))"
      using fin(1) by (simp add: pl')
    show "\<forall>t. EvCompleted t \<in> set (tr @ evs) \<longrightarrow> settled t (tr @ evs)"
      using inv(2) settled by (auto simp: fin(2) intro: settled_mono split: if_splits)
    show "\<forall>t \<in> inFlight pl'. EvIssued t \<in> set (tr @ evs)" using moved(4) inv(3) by auto
    show "\<forall>th \<in> set (wp_threads (cl_pool pl')). stop_requested th \<longrightarrow> wp_stopped (cl_pool pl')"
      using moved(5,6) inv(4) by blast
    show "\<forall>it oc. (it, Finishing oc) \<in> running pl' \<longrightarrow> settled (wi_ticket it) (tr @ evs)"
      using moved(4) inv(5) by (auto intro!: settled_mono)
    show "\<not> wp_stopped (cl_pool pl') \<longrightarrow> (\<forall>t. EvIssued t \<in> set (tr @ evs) \<and> isCurrent t (cl_registry pl') \<and>
        EvCompleted t \<notin> set (tr @ evs) \<and> EvThrew t \<notin> set (tr @ evs) \<longrightarrow> t \<in> inFlight pl')"
      using moved(2,6) inv(6) by (auto simp: fin(2) pl' isCurrent_kept split: if_splits)
  qed
qed

text \<open>Any other step changes neither the registry nor the tickets issued and completed.\<close>

lemma inv_unfinished:
  assumes "pipeline_inv pl tr" "i < length (wp_threads (cl_pool pl))"
    and run: "activity (wp_threads (cl_pool pl) ! i) = Executing (item, pc)"
    and pl': "pl' = pl\<lparr>cl_registry := cl_registry pl, cl_pool := worker_run i nxt (cl_pool pl)\<rparr>"
    and nxt: "nxt = Some (item, pc') \<and> (\<forall>oc. pc' = Finishing oc \<longrightarrow> settled (wi_ticket item) evs) \<or>
      nxt = None \<and> (wp_stopped (cl_pool pl) \<or> \<not> isCurrent (wi_ticket item) (cl_registry pl) \<or> EvThrew (wi_ticket item) \<in> set evs)"
    and neutral: "list_all ghostNeutral evs"
  shows "pipeline_inv pl' (tr @ evs)"
proof -
  note moved = worker_run_inFlight [OF assms(2,3) pl']
  note inv = pipeline_invD [OF assms(1)]
  have same: "EvIssued t \<in> set (tr @ evs) \<longleftrightarrow> EvIssued t \<in> set tr"
    "EvCompleted t \<in> set (tr @ evs) \<longleftrightarrow> EvCompleted t \<in> set tr" for t
    using neutral by (auto simp: list_all_iff ghostNeutral_def)
  have grow: "settled t evs \<Longrightarrow> settled t (tr @ evs)" for t by (auto simp: settled_def)
  show ?thesis
    unfolding pipeline_inv_def same
  proof (intro conjI)
    show "registry_tracks (cl_registry pl') (issuedIn (tr @ evs)) (completedIn (tr @ evs))"
      using inv(1) by (simp add: issuedIn_neutral [OF neutral] pl')
    show "\<forall>t. EvCompleted t \<in> set tr \<longrightarrow> settled t (tr @ evs)" using inv(2) settled_mono by blast
    show "\<forall>t \<in> inFlight pl'. EvIssued t \<in> set tr" using nxt moved(3) [of pc'] moved(4) inv(3) by blast
    show "\<forall>th \<in> set (wp_threads (cl_pool pl')). stop_requested th \<longrightarrow> wp_stopped (cl_pool pl')"
      using moved(5,6) inv(4) by blast
    show "\<forall>it oc. (it, Finishing oc) \<in> running pl' \<longrightarrow> settled (wi_ticket it) (tr @ evs)"
      using nxt moved(3) [of pc'] moved(4) inv(5) settled_mono grow by blast
    show "\<not> wp_stopped (cl_pool pl') \<longrightarrow> (\<forall>t. EvIssued t \<in> set tr \<and> isCurrent t (cl_registry pl') \<and>
        EvCompleted t \<notin> set tr \<and> EvThrew t \<notin> set (tr @ evs) \<longrightarrow> t \<in> inFlight pl')"
    proof -
      have "cl_registry pl' = cl_registry pl" by (simp add: pl')
      with nxt moved(6) moved(3) [of pc'] show ?thesis
        by (auto dest: inv(6) moved(2) [THEN subsetD])
    qed
  qed
qed

lemma inv_executed:
  assumes "pipeline_inv pl tr" "task_step i obs pl = Some (evs, pl')"
  shows "pipeline_inv pl' (tr @ evs)"
  using assms(2)
proof (rule task_stepE)
  fix item pc acts res r nxt
  let ?th = "wp_threads (cl_pool pl) ! i"
  assume i: "i < length (wp_threads (cl_pool pl))" and run: "activity ?th = Executing (item, pc)"
    and step: "execute_step (cl_policy pl) item (obs\<lparr>obs_stop := stop_requested ?th\<rparr>) pc
       (cl_registry pl) = (acts, res, r)"
    and evs: "evs = concat (map (action_events item (cl_registry pl)) acts)"
    and nxt: "nxt = (case res of Running pc' \<Rightarrow> Some (item, pc') | Finished outcome \<Rightarrow> None)"
    and pl': "pl' = pl\<lparr>cl_registry := r, cl_pool := worker_run i nxt (cl_pool pl)\<rparr>"
  show "pipeline_inv pl' (tr @ evs)"
  proof (cases "\<exists>outcome. pc = Finishing outcome")
    case True
    then obtain outcome where pc: "pc = Finishing outcome" ..
    have "acts = [Completed (wi_ticket item)]" "res = Finished outcome"
      "r = snd (registry_complete (wi_ticket item) (cl_registry pl))"
      using step unfolding pc execute_step_finishing by simp_all
    then show ?thesis
      using inv_finishing [OF assms(1) i run [unfolded pc]] by (simp add: pl' evs nxt action_events_def)
  next
    case False
    then have quiet: "\<forall>outcome. pc \<noteq> Finishing outcome" by blast
    note q = execute_step_quiet [OF step quiet]
    have stop: "stop_requested ?th \<Longrightarrow> wp_stopped (cl_pool pl)"
      using pipeline_invD(4) [OF assms(1) nth_mem [OF i]] .
    show ?thesis
      by (rule inv_unfinished [OF assms(1) i run, where nxt = nxt and pc' = "case res of Running pc' \<Rightarrow> pc' | _ \<Rightarrow> pc"])
        (use q(1,3,4) q(2) [of "cl_registry pl"] stop in \<open>auto simp: pl' nxt evs split: exec_result.split\<close>)
  qed
qed

lemma inv_thrown:
  assumes "pipeline_inv pl tr" "task_throws i pl = Some (evs, pl')"
  shows "pipeline_inv pl' (tr @ evs)"
proof -
  obtain item pc where throws: "i < length (wp_threads (cl_pool pl))" "activity (wp_threads (cl_pool pl) ! i) = Executing (item, pc)"
    "evs = [EvThrew (wi_ticket item)]" "pl' = pl\<lparr>cl_pool := worker_run i None (cl_pool pl)\<rparr>"
    using assms(2) by (auto simp: task_throws_def split: if_splits worker.splits)
  show ?thesis
    by (rule inv_unfinished [OF assms(1) throws(1,2), where nxt = None]) (simp_all add: throws(3,4) ghostNeutral_def)
qed

lemma pipeline_history_inv: "pipeline_history pl tr \<Longrightarrow> pipeline_inv pl tr"
proof (induction rule: pipeline_history.induct)
  case (hist_init config)
  then show ?case by (rule inv_create)
next
  case (hist_step pl tr evs pl')
  from hist_step.hyps(2) hist_step.IH show ?case
    by (cases rule: pipeline_step.cases)
      (auto intro: inv_assigned inv_revoked inv_ingested inv_pumped inv_taken inv_executed inv_thrown inv_confirmed inv_stop)
qed

section \<open>pump\<close>

text \<open>The loop keeps the order of the records, and returns \<open>true\<close> exactly when the backlog is empty.\<close>

lemma pump_exact:
  assumes "pump pl = (drained, pl')"
  shows "wp_queue (cl_pool pl') @ cl_backlog pl' = wp_queue (cl_pool pl) @ cl_backlog pl \<and>
    (drained \<longleftrightarrow> cl_backlog pl' = []) \<and>
    (\<not> drained \<longrightarrow> wp_stopped (cl_pool pl') \<or> wp_capacity (cl_pool pl') \<le> pendingCount (cl_pool pl'))"
  using assms
proof (induction pl rule: pump.induct)
  case (1 pl)
  show ?case
  proof (cases "cl_backlog pl")
    case Nil
    then show ?thesis using "1.prems" by (auto simp: pump.simps [of pl] pump_turn_def)
  next
    case (Cons item rest)
    obtain accepted pool where sub: "trySubmit item (cl_pool pl) = (accepted, pool)" by fastforce
    show ?thesis
    proof (cases accepted)
      case True
      then have turn: "pump_turn pl = (None, pl\<lparr>cl_pool := pool, cl_backlog := rest\<rparr>)"
        by (simp add: pump_turn_def Cons sub)
      have "wp_queue pool = wp_queue (cl_pool pl) @ [item]"
        using sub True by (auto simp: trySubmit_def split: if_splits)
      with "1.IH" [OF turn [symmetric] refl] "1.prems" turn Cons show ?thesis
        by (simp add: pump.simps [of pl])
    next
      case False
      then have "pump pl = (False, pl\<lparr>cl_pool := pool\<rparr>)"
        by (simp add: pump.simps [of pl] pump_turn_def Cons sub)
      with "1.prems" sub False Cons show ?thesis
        by (auto simp: trySubmit_def pendingCount_def split: if_splits)
    qed
  qed
qed

lemma candidate_covers_completed:
  assumes "pipeline_history pl tr"
    and "cp \<in> set (pipeline_commitCandidates pl) \<or> cp \<in> set (fst (onPartitionsRevoked ps pl))"
    and "EvIssued t \<in> set tr" "rt_partition t = cp_partition cp" "rt_generation t = cp_generation cp"
    and "rt_offset t < cp_offset cp"
  shows "EvCompleted t \<in> set tr"
proof -
  note tracks = pipeline_invD(1) [OF pipeline_history_inv [OF assms(1)]]
  obtain st where st: "kv_find (cp_partition cp) (r_partitions (cl_registry pl)) = Some st"
    "ps_generation st = cp_generation cp" "commitCandidate (ps_tracker st) = Some (cp_offset cp)"
    using assms(2) commitCandidates_iff [OF registry_tracksD(1) [OF tracks]]
      revoke_positions [of cp ps "cl_registry pl"]
    by (auto simp: pipeline_commitCandidates_def onPartitionsRevoked_def split: prod.splits)
  have "rt_offset t \<in> issuedIn tr (cp_partition cp) (ps_generation st)"
    using assms(3-5) st(2) issued_issuedIn [of t tr] by (simp add: issued_def)
  from ot.candidate_safe [OF registry_tracksD(3) [OF tracks st(1)] st(3) this assms(6)] assms(4,5) st(2)
  show ?thesis by (cases t) (simp add: completedIn_def)
qed

section \<open>Properties\<close>

text \<open>C1. At-least-once processing of the consumer, over every interleaving of polling, rebalances,
  workers, commits and shutdown: a position the pipeline offers for commit, periodically or when
  partitions are revoked, never passes a record that was accepted under the same assignment and was
  neither handled successfully, nor stored in the dead-letter queue, nor skipped for want of a valid
  event id.\<close>

theorem pipeline_at_least_once:
  assumes "pipeline_history pl tr"
    and "cp \<in> set (pipeline_commitCandidates pl) \<or> cp \<in> set (fst (onPartitionsRevoked ps pl))"
    and "EvIssued t \<in> set tr" "rt_partition t = cp_partition cp" "rt_generation t = cp_generation cp"
    and "rt_offset t < cp_offset cp"
  shows "settled t tr"
  by (rule pipeline_invD(2) [OF pipeline_history_inv [OF assms(1)] candidate_covers_completed [OF assms]])

definition sampleRecord :: "string option \<Rightarrow> IncomingRecord" where
  "sampleRecord eventId =
     \<lparr>ir_partition = sampleKey, ir_offset = 7, ir_payload = ''{}'', ir_eventId = eventId, ir_eventType = ''OrderCreated''\<rparr>"

definition samplePipeline :: "string option \<Rightarrow> ConsumerPipeline" where
  "samplePipeline eventId =
     snd (ingest (sampleRecord eventId)
            (onPartitionsAssigned [sampleKey] (ConsumerPipeline_create PipelineConfiguration_default)))"

lemma samplePipeline_history:
  "pipeline_history (samplePipeline None) [EvIssued sampleTicket, EvSkipped sampleTicket, EvCompleted sampleTicket]"
  "pipeline_history (samplePipeline (Some ''00000000-0000-4000-8000-000000000001'')) [EvIssued sampleTicket]"
proof -
  let ?pl = "onPartitionsAssigned [sampleKey] (ConsumerPipeline_create PipelineConfiguration_default)"
  have "pipeline_step (ConsumerPipeline_create PipelineConfiguration_default) [] ?pl"
    by (rule pipeline_step.Assigned)
      (simp add: no_generation_wrap_def ConsumerPipeline_create_def PartitionRegistry_init_def)
  from pipeline_history.hist_step [OF pipeline_history.hist_init this]
  have pl: "pipeline_history ?pl []" by simp
  have step: "pipeline_step ?pl (ingest_events (fst (ingest (sampleRecord e) ?pl))) (samplePipeline e)" for e
    by (rule pipeline_step.Ingested [of "sampleRecord e"])
      (simp_all add: legalOffset_def int_limits sampleRecord_def samplePipeline_def)
  have "ingest_events (fst (ingest (sampleRecord None) ?pl)) =
      [EvIssued sampleTicket, EvSkipped sampleTicket, EvCompleted sampleTicket]"
    "ingest_events (fst (ingest (sampleRecord (Some ''00000000-0000-4000-8000-000000000001'')) ?pl)) =
      [EvIssued sampleTicket]"
    by code_simp+
  with pipeline_history.hist_step [OF pl step]
  show "pipeline_history (samplePipeline None) [EvIssued sampleTicket, EvSkipped sampleTicket, EvCompleted sampleTicket]"
    "pipeline_history (samplePipeline (Some ''00000000-0000-4000-8000-000000000001'')) [EvIssued sampleTicket]"
    by (metis append_Nil)+
qed

theorem pipeline_at_least_once_witness:
  "pipeline_commitCandidates (samplePipeline None) = [\<lparr>cp_partition = sampleKey, cp_offset = 8, cp_generation = 1\<rparr>] \<and>
   settled sampleTicket [EvIssued sampleTicket, EvSkipped sampleTicket, EvCompleted sampleTicket]"
proof -
  have "pipeline_commitCandidates (samplePipeline None) = [\<lparr>cp_partition = sampleKey, cp_offset = 8, cp_generation = 1\<rparr>]"
    by code_simp
  with pipeline_at_least_once [OF samplePipeline_history(1),
      of "\<lparr>cp_partition = sampleKey, cp_offset = 8, cp_generation = 1\<rparr>" "[]" sampleTicket]
  show ?thesis by (simp add: sampleTicket_def)
qed

text \<open>C13. No record is lost: until the pipeline is stopped, every accepted record whose partition is
  still assigned as it was is completed or is in the backlog, in the pool's queue or with a
  worker; the only exception is a record whose task threw, which the pool only logs.\<close>

theorem no_record_lost:
  assumes "pipeline_history pl tr" "\<not> wp_stopped (cl_pool pl)"
    and "EvIssued t \<in> set tr" "isCurrent t (cl_registry pl)"
  shows "EvCompleted t \<in> set tr \<or> t \<in> inFlight pl \<or> EvThrew t \<in> set tr"
  using pipeline_invD(6) [OF pipeline_history_inv [OF assms(1)] assms(2-4)] by blast

theorem no_record_lost_witness:
  "sampleTicket \<in> inFlight (samplePipeline (Some ''00000000-0000-4000-8000-000000000001''))"
proof -
  have "\<not> wp_stopped (cl_pool (samplePipeline (Some ''00000000-0000-4000-8000-000000000001'')))" by code_simp
  moreover have "isCurrent sampleTicket (cl_registry (samplePipeline (Some ''00000000-0000-4000-8000-000000000001'')))"
    by code_simp
  ultimately show ?thesis
    using no_record_lost [OF samplePipeline_history(2), of sampleTicket] by simp
qed

text \<open>C22. Progress of the commits: when nothing is in flight in a running pipeline and no task threw, the
  candidates cover every accepted record of an assigned partition that is not committed yet.\<close>

theorem idle_pipeline_commits_all:
  assumes "pipeline_history pl tr" "\<not> wp_stopped (cl_pool pl)" "inFlight pl = {}"
    and "EvIssued t \<in> set tr" "\<forall>t'. EvThrew t' \<notin> set tr"
    and "kv_find (rt_partition t) (r_partitions (cl_registry pl)) = Some st" "ps_generation st = rt_generation t"
    and "\<forall>c. t_committed (ps_tracker st) = Some c \<longrightarrow> c \<le> rt_offset t"
  shows "\<exists>off > rt_offset t. \<lparr>cp_partition = rt_partition t, cp_offset = off, cp_generation = rt_generation t\<rparr>
    \<in> set (pipeline_commitCandidates pl)"
proof -
  note inv = pipeline_history_inv [OF assms(1)]
  note tracks = pipeline_invD(1) [OF inv]
  let ?R = "issuedIn tr (rt_partition t) (ps_generation st)"
  have in_R: "rt_offset t \<in> ?R"
    using assms(4,7) issued_issuedIn [of t tr] by (simp add: issued_def)
  have "\<forall>o' \<in> ?R. o' \<in> completedIn tr (rt_partition t) (ps_generation st)"
  proof
    fix o'
    let ?t = "\<lparr>rt_partition = rt_partition t, rt_offset = o', rt_generation = ps_generation st\<rparr>"
    assume "o' \<in> ?R"
    with pipeline_invD(6) [OF inv assms(2), of ?t] assms(3,5,6)
    show "o' \<in> completedIn tr (rt_partition t) (ps_generation st)"
      by (auto simp: issuedIn_def completedIn_def isCurrent_def)
  qed
  with ot.candidate_max [OF registry_tracksD(3) [OF tracks assms(6)] in_R _ assms(8)]
  obtain off where "commitCandidate (ps_tracker st) = Some off" "rt_offset t < off" by blast
  with assms(6,7) show ?thesis
    by (auto simp: pipeline_commitCandidates_def commitCandidates_iff [OF registry_tracksD(1) [OF tracks]])
qed

theorem idle_pipeline_commits_all_witness:
  "\<exists>off > 7. \<lparr>cp_partition = sampleKey, cp_offset = off, cp_generation = 1\<rparr>
     \<in> set (pipeline_commitCandidates (samplePipeline None))"
proof -
  let ?pl = "samplePipeline None"
  have "\<not> wp_stopped (cl_pool ?pl)" by code_simp
  moreover have "cl_backlog ?pl = [] \<and> wp_queue (cl_pool ?pl) = [] \<and>
      list_all (\<lambda>th. activity th = Waiting) (wp_threads (cl_pool ?pl))" by code_simp
  then have "inFlight ?pl = {}" by (auto simp: inFlight_def runs_def list_all_iff)
  moreover have find: "map_option (\<lambda>st. (ps_generation st, t_committed (ps_tracker st)))
      (kv_find sampleKey (r_partitions (cl_registry ?pl))) = Some (1, None)" by code_simp
  ultimately show ?thesis
    using idle_pipeline_commits_all [OF samplePipeline_history(1), of sampleTicket]
    by (auto simp: sampleTicket_def)
qed

end
