(* ===== verification/KafkaPublisher.thy ===== *)
theory KafkaPublisher
  imports RecordExecutor
begin

text \<open>
  \<open>shared/messaging/producer/KafkaEventPublisher.cpp\<close>, \<open>PublishRequest.h\<close> and
  \<open>PublisherDeadLetterSink.h\<close>. The Kafka producer is not part of the sources: it is the parameter
  \<open>send\<close>, which takes a producer record and tells what came of it: an exception, a delivery report, or no
  report yet. Its error values are the constants of librdkafka that the sources name, and all others.
\<close>

record PublishRequest =
  pq_topic :: string
  pq_key :: string
  pq_payload :: string
  pq_metadata :: MessageMetadata

datatype KafkaError =
    MSG_TIMED_OUT
  | TOPIC_AUTHORIZATION_FAILED
  | CLUSTER_AUTHORIZATION_FAILED
  | UNKNOWN_TOPIC_OR_PART
  | INVALID_ARG
  | OtherKafkaError int

definition mapError :: "KafkaError \<Rightarrow> error_code" where
  "mapError e =
     (case e of
        MSG_TIMED_OUT \<Rightarrow> make_EventPublisherError EventPublisherError.Timeout
      | TOPIC_AUTHORIZATION_FAILED \<Rightarrow> make_EventPublisherError EventPublisherError.BrokerRejected
      | CLUSTER_AUTHORIZATION_FAILED \<Rightarrow> make_EventPublisherError EventPublisherError.BrokerRejected
      | UNKNOWN_TOPIC_OR_PART \<Rightarrow> make_EventPublisherError EventPublisherError.BrokerRejected
      | INVALID_ARG \<Rightarrow> make_EventPublisherError EventPublisherError.SerializationFailure
      | OtherKafkaError _ \<Rightarrow> make_EventPublisherError EventPublisherError.ConnectionFailure)"

record ProducerRecord =
  pr_topic :: string
  pr_key :: string
  pr_value :: string
  pr_headers :: "(string \<times> string) list"

definition producerRecord :: "PublishRequest \<Rightarrow> ProducerRecord" where
  "producerRecord request =
     \<lparr>pr_topic = pq_topic request, pr_key = pq_key request, pr_value = pq_payload request,
      pr_headers = [(''eventId'', outboxEventId_value (mm_eventId (pq_metadata request))),
                    (''eventType'', mm_eventType (pq_metadata request))]\<rparr>"

text \<open>\<open>KafkaProducer::send\<close>: it throws, or its delivery callback is called (with an error or
  without), or the callback is still to come.\<close>

datatype send_result = SendThrew KafkaError | DeliveryReport "KafkaError option" | Unreported

text \<open>A future that is ready with its value, or not ready.\<close>

datatype 'a future = Ready 'a | NotReady

definition publish :: "(ProducerRecord \<Rightarrow> send_result) \<Rightarrow> PublishRequest \<Rightarrow> unit expected future" where
  "publish send request =
     (case send (producerRecord request) of
        SendThrew e \<Rightarrow> Ready (Inl (mapError e))
      | DeliveryReport (Some e) \<Rightarrow> Ready (Inl (mapError e))
      | DeliveryReport None \<Rightarrow> Ready (Inr ())
      | Unreported \<Rightarrow> NotReady)"

definition publisher_makeProperties :: "string \<Rightarrow> (string \<times> string) list" where
  "publisher_makeProperties brokers =
     [(''bootstrap.servers'', brokers), (''enable.idempotence'', ''true''), (''message.timeout.ms'', ''5000'')]"

section \<open>The dead-letter sink\<close>

definition kTopicSuffix :: string where "kTopicSuffix = ''.dlq''"

definition deadLetterRequest :: "string \<Rightarrow> DeadLetterRecord \<Rightarrow> PublishRequest" where
  "deadLetterRequest topicSuffix rec =
     \<lparr>pq_topic = topic (dl_source rec) @ topicSuffix,
      pq_key = outboxEventId_value (mm_eventId (dl_metadata rec)),
      pq_payload = dl_payload rec, pq_metadata = dl_metadata rec\<rparr>"

text \<open>The future returned by the publisher \<open>publish\<close> is looked at when the timeout has passed.\<close>

definition sink_send ::
  "(PublishRequest \<Rightarrow> unit expected future) \<Rightarrow> string \<Rightarrow> DeadLetterRecord \<Rightarrow> unit expected" where
  "sink_send publisher topicSuffix rec =
     (case publisher (deadLetterRequest topicSuffix rec) of
        NotReady \<Rightarrow> Inl (make_EventPublisherError EventPublisherError.Timeout)
      | Ready res \<Rightarrow> res)"

section \<open>Properties\<close>

text \<open>The dead-letter sink on the Kafka publisher reports success exactly when the broker
  acknowledged the record: the original payload, event id and event type, in the topic of the source
  with the suffix, under the event id as key. Every other outcome is an error of the publisher.\<close>

lemma sink_success_iff_acknowledged:
  "sink_send (publish send) kTopicSuffix rec =
     (case send \<lparr>pr_topic = topic (dl_source rec) @ ''.dlq'',
                 pr_key = outboxEventId_value (mm_eventId (dl_metadata rec)), pr_value = dl_payload rec,
                 pr_headers = [(''eventId'', outboxEventId_value (mm_eventId (dl_metadata rec))),
                               (''eventType'', mm_eventType (dl_metadata rec))]\<rparr> of
        DeliveryReport None \<Rightarrow> Inr ()
      | DeliveryReport (Some e) \<Rightarrow> Inl (mapError e)
      | SendThrew e \<Rightarrow> Inl (mapError e)
      | Unreported \<Rightarrow> Inl (make_EventPublisherError EventPublisherError.Timeout))"
  by (simp add: sink_send_def publish_def deadLetterRequest_def producerRecord_def kTopicSuffix_def
      split: send_result.split option.split)

end
