(* ===== verification/KafkaConsumer.thy ===== *)
theory KafkaConsumer
  imports PipelineSafety KafkaPublisher
begin

text \<open>
  \<open>shared/messaging/consumer/KafkaEventConsumer.cpp\<close>: the polling thread. The Kafka client is not
  part of the sources: what its calls answer (the records and rebalance callbacks of a \<open>poll\<close>, whether a
  call throws a \<open>KafkaException\<close>) and what the clock shows are inputs of the definitions; what the code
  tells the broker is their output. Rebalance callbacks run inside \<open>poll\<close>, in the polling thread.
  Times are in milliseconds.
\<close>

record KafkaConsumerConfiguration =
  kcc_brokers :: string
  kcc_groupId :: string
  kcc_topic :: string

definition consumer_makeProperties :: "KafkaConsumerConfiguration \<Rightarrow> (string \<times> string) list" where
  "consumer_makeProperties configuration =
     [(''bootstrap.servers'', kcc_brokers configuration), (''group.id'', kcc_groupId configuration),
      (''enable.auto.commit'', ''false''), (''auto.offset.reset'', ''earliest'')]"

definition COMMIT_INTERVAL :: int where "COMMIT_INTERVAL = 500"
definition SUBSCRIBE_ATTEMPTS :: nat where "SUBSCRIBE_ATTEMPTS = 10"

definition toKeys :: "(string \<times> int) list \<Rightarrow> PartitionKey list" where
  "toKeys partitions = map (\<lambda>(t, p). PartitionKey t p) partitions"

text \<open>The state of \<open>Impl\<close>: the pipeline while there is one, the pause flag, the time of the last
  commit, and whether the polling thread is joinable.\<close>

record KafkaEventConsumer =
  kc_pipeline :: "ConsumerPipeline option"
  kc_paused :: bool
  kc_lastCommit :: int
  kc_joinable :: bool

definition KafkaEventConsumer_create :: KafkaEventConsumer where
  "KafkaEventConsumer_create = \<lparr>kc_pipeline = None, kc_paused = False, kc_lastCommit = 0, kc_joinable = False\<rparr>"

section \<open>Records\<close>

record ConsumerRecord =
  cr_error :: bool
  cr_topic :: string
  cr_partition :: int
  cr_offset :: int
  cr_value :: string
  cr_headers :: "(string \<times> string) list"

definition read_header :: "IncomingRecord \<Rightarrow> string \<times> string \<Rightarrow> IncomingRecord" where
  "read_header incoming header =
     (case header of (key, value) \<Rightarrow>
        if key = ''eventId'' then incoming\<lparr>ir_eventId := Some value\<rparr>
        else if key = ''eventType'' then incoming\<lparr>ir_eventType := value\<rparr>
        else incoming)"

definition incoming_of :: "ConsumerRecord \<Rightarrow> IncomingRecord" where
  "incoming_of rec =
     foldl read_header
       \<lparr>ir_partition = PartitionKey (cr_topic rec) (cr_partition rec), ir_offset = cr_offset rec,
        ir_payload = cr_value rec, ir_eventId = None, ir_eventType = []\<rparr>
       (cr_headers rec)"

definition consumer_ingest :: "ConsumerRecord \<Rightarrow> ConsumerPipeline \<Rightarrow> ConsumerPipeline" where
  "consumer_ingest rec pl = (if cr_error rec then pl else snd (ingest (incoming_of rec) pl))"

section \<open>Commits\<close>

text \<open>The map from partitions to offsets that \<open>commitSync\<close> is given.\<close>

type_synonym offsets = "(PartitionKey, int) std_map"

definition offsets_of :: "CommitPosition list \<Rightarrow> offsets" where
  "offsets_of positions =
     foldl (\<lambda>offsets position. kv_insert_or_assign (cp_partition position) (cp_offset position) offsets) [] positions"

text \<open>\<open>accepted\<close>: \<open>commitSync\<close> does not throw. The result is that of the method and what was sent.\<close>

definition commitOffsets :: "bool \<Rightarrow> CommitPosition list \<Rightarrow> bool \<times> offsets list" where
  "commitOffsets accepted positions =
     (if positions = [] then (True, []) else (accepted, [offsets_of positions]))"

definition commitReady ::
  "bool \<Rightarrow> int \<Rightarrow> bool \<Rightarrow> ConsumerPipeline \<Rightarrow> int \<Rightarrow> offsets list \<times> ConsumerPipeline \<times> int" where
  "commitReady force now accepted pl lastCommit =
     (if \<not> force \<and> now - lastCommit < COMMIT_INTERVAL then ([], pl, lastCommit)
      else
        let positions = pipeline_commitCandidates pl in
        if positions = [] then ([], pl, lastCommit)
        else
          let (committed, sent) = commitOffsets accepted positions in
          if \<not> committed then (sent, pl, now)
          else (sent, foldl (\<lambda>pl position. pipeline_confirmCommit position pl) pl positions, now))"

datatype RebalanceEventType = PartitionsAssigned | PartitionsRevoked

definition onRebalance ::
  "RebalanceEventType \<Rightarrow> (string \<times> int) list \<Rightarrow> bool \<Rightarrow> ConsumerPipeline option \<Rightarrow> offsets list \<times> ConsumerPipeline option" where
  "onRebalance type partitions accepted pipeline =
     (case pipeline of
        None \<Rightarrow> ([], None)
      | Some pl \<Rightarrow>
          let keys = toKeys partitions in
          if type = PartitionsAssigned then ([], Some (onPartitionsAssigned keys pl))
          else
            let (positions, pl') = onPartitionsRevoked keys pl in
            (snd (commitOffsets accepted positions), Some pl'))"

section \<open>The loop\<close>

text \<open>The calls on the client that pause and resume the partitions.\<close>

datatype flow_call = Pause | Resume

text \<open>\<open>None\<close>: the client's call threw, and the rest of the turn is skipped.\<close>

definition applyBackpressure :: "bool \<Rightarrow> bool \<Rightarrow> bool \<Rightarrow> flow_call list \<times> bool option" where
  "applyBackpressure throws drained paused =
     (if \<not> drained then ([Pause], if throws then None else Some True)
      else if paused then ([Resume], if throws then None else Some False)
      else ([], Some paused))"

record rebalance =
  rb_type :: RebalanceEventType
  rb_partitions :: "(string \<times> int) list"
  rb_commitAccepted :: bool

fun run_callbacks :: "rebalance list \<Rightarrow> ConsumerPipeline option \<Rightarrow> offsets list \<times> ConsumerPipeline option" where
  "run_callbacks [] pipeline = ([], pipeline)"
| "run_callbacks (rb # rbs) pipeline =
     (let (sent, pipeline') = onRebalance (rb_type rb) (rb_partitions rb) (rb_commitAccepted rb) pipeline;
          (sent', pipeline'') = run_callbacks rbs pipeline' in
      (sent @ sent', pipeline''))"

text \<open>What the client and the clock answer during one turn of the loop.\<close>

record turn_input =
  ti_callbacks :: "rebalance list"
  ti_poll :: "ConsumerRecord list option"
  ti_flowThrows :: bool
  ti_now :: int
  ti_commitAccepted :: bool

text \<open>One turn of \<open>run\<close>: \<open>poll\<close> with its callbacks (\<open>None\<close> when it throws), the records, the pump, the
  back pressure, the commits. The turn ends early where a call throws.\<close>

definition run_turn :: "turn_input \<Rightarrow> KafkaEventConsumer \<Rightarrow> (flow_call list \<times> offsets list) \<times> KafkaEventConsumer" where
  "run_turn input kc =
     (let (sent, pipeline) = run_callbacks (ti_callbacks input) (kc_pipeline kc);
          kc1 = kc\<lparr>kc_pipeline := pipeline\<rparr> in
      case (ti_poll input, pipeline) of
        (Some records, Some pl) \<Rightarrow>
          let (drained, pl1) = pump (foldl (\<lambda>pl rec. consumer_ingest rec pl) pl records);
              (calls, paused) = applyBackpressure (ti_flowThrows input) drained (kc_paused kc);
              kc2 = kc1\<lparr>kc_pipeline := Some pl1\<rparr> in
          (case paused of
             None \<Rightarrow> ((calls, sent), kc2)
           | Some p \<Rightarrow>
               let (sent', pl2, lastCommit) =
                     commitReady False (ti_now input) (ti_commitAccepted input) pl1 (kc_lastCommit kc) in
               ((calls, sent @ sent'), kc2\<lparr>kc_pipeline := Some pl2, kc_paused := p, kc_lastCommit := lastCommit\<rparr>))
      | _ \<Rightarrow> (([], sent), kc1))"

section \<open>Starting and stopping\<close>

text \<open>A loop of attempts, of which \<open>left\<close> are left: \<open>answer k\<close> tells whether attempt \<open>k\<close> succeeds or
  throws. The loop ends at the first success; between attempts the thread sleeps.\<close>

fun attempts_from :: "(nat \<Rightarrow> bool) \<Rightarrow> nat \<Rightarrow> nat \<Rightarrow> bool" where
  "attempts_from answer attempt 0 = False"
| "attempts_from answer attempt (Suc left) =
     (if answer attempt then True else attempts_from answer (attempt + 1) left)"

definition subscribeWithRetry :: "(nat \<Rightarrow> bool) \<Rightarrow> bool" where
  "subscribeWithRetry answer = attempts_from answer 1 SUBSCRIBE_ATTEMPTS"

definition consumer_start ::
  "PipelineConfiguration \<Rightarrow> (nat \<Rightarrow> bool) \<Rightarrow> KafkaEventConsumer \<Rightarrow> unit expected \<times> KafkaEventConsumer" where
  "consumer_start config answer kc =
     (if kc_pipeline kc \<noteq> None then (Inl errc_operation_in_progress, kc)
      else if \<not> subscribeWithRetry answer then
        (Inl (make_EventConsumerError EventConsumerError.ConnectionFailure), kc\<lparr>kc_pipeline := None\<rparr>)
      else (Inr (), kc\<lparr>kc_pipeline := Some (ConsumerPipeline_create config), kc_joinable := True\<rparr>))"

text \<open>\<open>stop\<close>: the polling thread is joined and \<open>_pipeline->stop()\<close> has joined the pool's threads, which
  leaves the pipeline \<open>joined\<close>; it then clears the backlog, and the ready prefix is committed.\<close>

definition consumer_stop ::
  "ConsumerPipeline \<Rightarrow> int \<Rightarrow> bool \<Rightarrow> KafkaEventConsumer \<Rightarrow> offsets list \<times> KafkaEventConsumer" where
  "consumer_stop joined now accepted kc =
     (if \<not> kc_joinable kc then ([], kc)
      else
        let (sent, pl, lastCommit) = commitReady True now accepted (pipeline_stopped joined) (kc_lastCommit kc) in
        (sent, kc\<lparr>kc_pipeline := Some pl, kc_lastCommit := lastCommit, kc_joinable := False\<rparr>))"

definition createWithRetry :: "(nat \<Rightarrow> bool) \<Rightarrow> int \<Rightarrow> KafkaEventConsumer expected" where
  "createWithRetry answer attempts =
     (if attempts_from answer 1 (nat attempts) then Inr KafkaEventConsumer_create
      else Inl (make_EventConsumerError EventConsumerError.ConnectionFailure))"

section \<open>Lemmas\<close>

lemma attempts_from_iff: "attempts_from answer k n \<longleftrightarrow> (\<exists>i \<in> {k..<k + n}. answer i)"
proof (induction n arbitrary: k)
  case (Suc n)
  have "{k..<k + Suc n} = insert k {Suc k..<Suc k + n}" by auto
  with Suc show ?case by simp
qed simp

lemma offsets_of_find:
  "kv_find p (offsets_of positions) = Some off \<Longrightarrow> \<exists>cp \<in> set positions. cp_partition cp = p \<and> cp_offset cp = off"
proof (induction positions rule: rev_induct)
  case (snoc cp positions)
  then show ?case by (auto simp: offsets_of_def split: if_splits)
qed (simp add: offsets_of_def kv_find_def)

lemma commitOffsets_sent:
  "offs \<in> set (snd (commitOffsets accepted positions)) \<Longrightarrow> offs = offsets_of positions"
  by (auto simp: commitOffsets_def split: if_splits)

lemma commitReady_sent:
  "offs \<in> set (fst (commitReady force now accepted pl lastCommit)) \<Longrightarrow> offs = offsets_of (pipeline_commitCandidates pl)"
  using commitOffsets_sent [of offs accepted "pipeline_commitCandidates pl"]
  by (auto simp: commitReady_def Let_def split: if_splits prod.splits)

lemma onRebalance_sent:
  "offs \<in> set (fst (onRebalance type partitions accepted (Some pl))) \<Longrightarrow>
   offs = offsets_of (fst (onPartitionsRevoked (toKeys partitions) pl))"
  by (auto simp: onRebalance_def Let_def dest: commitOffsets_sent split: if_splits prod.splits)

lemma onPartitionsRevoked_positions: "fst (onPartitionsRevoked ps pl) = fst (revoke ps (cl_registry pl))"
  by (simp add: onPartitionsRevoked_def split: prod.split)

lemma commitReady_pipeline:
  assumes "pipeline_history pl tr"
  shows "pipeline_history (fst (snd (commitReady force now accepted pl lastCommit))) tr"
proof -
  have "pipeline_history (foldl (\<lambda>pl position. pipeline_confirmCommit position pl) pl positions) tr" for positions
  proof (induction positions rule: rev_induct)
    case (snoc cp positions)
    then show ?case using pipeline_history.hist_step [OF snoc pipeline_step.Confirmed] by simp
  qed (simp add: assms)
  then show ?thesis using assms by (simp add: commitReady_def Let_def split: prod.split)
qed

lemma pump_pipeline: "pipeline_history pl tr \<Longrightarrow> pipeline_history (snd (pump pl)) tr"
proof (induction pl rule: pump.induct)
  case (1 pl)
  obtain res pl' where turn: "pump_turn pl = (res, pl')" by fastforce
  have "pipeline_history pl' tr"
    using pipeline_history.hist_step [OF "1.prems" pipeline_step.Pumped [OF turn]] by simp
  with "1.IH" [OF turn [symmetric]] turn show ?case
    by (cases res) (simp_all add: pump.simps [of pl])
qed

text \<open>The number of generations that the callbacks of a poll hand out at most.\<close>

definition callback_partitions :: "rebalance list \<Rightarrow> nat" where
  "callback_partitions rbs = sum_list (map (\<lambda>rb. length (rb_partitions rb)) rbs)"

definition generations_left :: "nat \<Rightarrow> ConsumerPipeline \<Rightarrow> bool" where
  "generations_left n pl \<longleftrightarrow> unat (r_lastGeneration (cl_registry pl)) + n < 18446744073709551616"

lemma assign_lastGeneration:
  "no_generation_wrap ps r \<Longrightarrow> unat (r_lastGeneration (assign ps r)) = unat (r_lastGeneration r) + length ps"
proof (induction ps r rule: assign.induct)
  case (2 p ps r)
  then show ?case by (simp add: Let_def no_generation_wrap_def unat_word_ariths)
qed simp

lemma revoke_lastGeneration: "r_lastGeneration (snd (revoke ps r)) = r_lastGeneration r"
  by (induction ps r rule: revoke.induct) (auto split: option.splits prod.splits)

lemma onRebalance_pipeline:
  assumes "pipeline_history pl tr" "generations_left (length partitions + n) pl"
  shows "\<exists>pl'. snd (onRebalance type partitions accepted (Some pl)) = Some pl' \<and> pipeline_history pl' tr \<and>
    generations_left n pl'"
proof (cases "type = PartitionsAssigned")
  case True
  let ?pl = "onPartitionsAssigned (toKeys partitions) pl"
  have wrap: "no_generation_wrap (toKeys partitions) (cl_registry pl)"
    using assms(2) by (simp add: no_generation_wrap_def generations_left_def toKeys_def)
  from pipeline_history.hist_step [OF assms(1) pipeline_step.Assigned [OF wrap]]
  have "pipeline_history ?pl tr" by simp
  moreover have "generations_left n ?pl"
    using assign_lastGeneration [OF wrap] assms(2)
    by (simp add: generations_left_def onPartitionsAssigned_def toKeys_def)
  ultimately show ?thesis using True by (simp add: onRebalance_def)
next
  case False
  obtain positions pl' where rev: "onPartitionsRevoked (toKeys partitions) pl = (positions, pl')" by fastforce
  from pipeline_history.hist_step [OF assms(1) pipeline_step.Revoked [OF rev]]
  have "pipeline_history pl' tr" by simp
  moreover have "generations_left n pl'"
    using rev assms(2) revoke_lastGeneration [of "toKeys partitions" "cl_registry pl"]
    by (auto simp: generations_left_def onPartitionsRevoked_def split: prod.splits)
  ultimately show ?thesis using False rev by (simp add: onRebalance_def)
qed

lemma run_callbacks_pipeline:
  assumes "pipeline_history pl tr" "generations_left (callback_partitions rbs) pl"
  shows "\<exists>pl'. snd (run_callbacks rbs (Some pl)) = Some pl' \<and> pipeline_history pl' tr"
  using assms
proof (induction rbs arbitrary: pl)
  case (Cons rb rbs)
  obtain sent pipeline where cb: "onRebalance (rb_type rb) (rb_partitions rb) (rb_commitAccepted rb) (Some pl) = (sent, pipeline)"
    by fastforce
  with onRebalance_pipeline [OF Cons.prems(1), of "rb_partitions rb" "callback_partitions rbs" "rb_type rb" "rb_commitAccepted rb"]
    Cons.prems(2) obtain pl' where pl': "pipeline = Some pl'" "pipeline_history pl' tr"
    "generations_left (callback_partitions rbs) pl'" by (auto simp: callback_partitions_def)
  with Cons.IH [OF pl'(2,3)] cb show ?case by (auto split: prod.split)
qed simp

section \<open>Properties\<close>

text \<open>C14. What is told to the broker: an offset committed by the periodic commit or in a rebalance
  callback never passes a record of the partition's current assignment that was not settled (handled,
  dead-lettered or skipped).\<close>

theorem broker_commits_are_safe:
  assumes "pipeline_history pl tr"
    and "offs \<in> set (fst (commitReady force now accepted pl lastCommit)) \<or>
      offs \<in> set (fst (onRebalance type partitions accepted (Some pl)))"
    and "kv_find (rt_partition t) offs = Some off" "rt_offset t < off"
    and "EvIssued t \<in> set tr" "isCurrent t (cl_registry pl)"
  shows "settled t tr"
proof -
  note inv = pipeline_history_inv [OF assms(1)]
  note tracks = pipeline_invD(1) [OF inv]
  have "offs = offsets_of (commitCandidates (cl_registry pl)) \<or>
      offs = offsets_of (fst (revoke (toKeys partitions) (cl_registry pl)))"
    using assms(2) commitReady_sent [of offs force now accepted pl lastCommit]
      onRebalance_sent [of offs type partitions accepted pl]
    by (auto simp: pipeline_commitCandidates_def onPartitionsRevoked_positions)
  then obtain cp where "cp \<in> set (commitCandidates (cl_registry pl)) \<or>
      cp \<in> set (fst (revoke (toKeys partitions) (cl_registry pl)))"
    and "cp_partition cp = rt_partition t" "cp_offset cp = off"
    using offsets_of_find assms(3) by blast
  then obtain st where st: "kv_find (rt_partition t) (r_partitions (cl_registry pl)) = Some st"
    "commitCandidate (ps_tracker st) = Some off"
    using commitCandidates_iff [OF registry_tracksD(1) [OF tracks]] revoke_positions by force
  have "rt_offset t \<in> issuedIn tr (rt_partition t) (ps_generation st)"
    using assms(5,6) st issued_issuedIn [of t tr] by (simp add: issued_def isCurrent_def)
  from ot.candidate_safe [OF registry_tracksD(3) [OF tracks st(1)] st(2) this assms(4)] assms(6) st
  have "EvCompleted t \<in> set tr" by (cases t) (simp add: completedIn_def isCurrent_def)
  then show ?thesis by (rule pipeline_invD(2) [OF inv])
qed

theorem broker_commits_are_safe_witness:
  "fst (commitReady True 0 True (samplePipeline None) 0) = [[(sampleKey, 8)]] \<and>
   settled sampleTicket [EvIssued sampleTicket, EvSkipped sampleTicket, EvCompleted sampleTicket]"
proof -
  have sent: "fst (commitReady True 0 True (samplePipeline None) 0) = [[(sampleKey, 8)]]" by code_simp
  moreover have "isCurrent sampleTicket (cl_registry (samplePipeline None))" by code_simp
  moreover have "kv_find (rt_partition sampleTicket) [(sampleKey, 8 :: int)] = Some 8" by code_simp
  ultimately show ?thesis
    using broker_commits_are_safe [OF samplePipeline_history(1), of "[(sampleKey, 8)]" True 0 True 0 PartitionsAssigned "[]"
        sampleTicket 8] by (simp add: sampleTicket_def)
qed

text \<open>The record a consumer receives for a published one, at a partition and an offset that the broker
  chose.\<close>

definition delivered :: "ProducerRecord \<Rightarrow> int \<Rightarrow> int \<Rightarrow> ConsumerRecord" where
  "delivered rec p off =
     \<lparr>cr_error = False, cr_topic = pr_topic rec, cr_partition = p, cr_offset = off,
      cr_value = pr_value rec, cr_headers = pr_headers rec\<rparr>"

lemma incoming_delivered:
  "incoming_of (delivered (producerRecord request) p off) =
     \<lparr>ir_partition = PartitionKey (pq_topic request) p, ir_offset = off, ir_payload = pq_payload request,
      ir_eventId = Some (outboxEventId_value (mm_eventId (pq_metadata request))),
      ir_eventType = mm_eventType (pq_metadata request)\<rparr>"
  by (simp add: incoming_of_def delivered_def producerRecord_def read_header_def)

text \<open>From the publisher to the handler: a published request that the pipeline accepts arrives in the
  backlog with the payload, the event id and the event type it was published with, so that the handler
  and, after failures, the dead-letter queue get exactly these.\<close>

lemma publish_consume_roundtrip:
  assumes "isValidUuid (outboxEventId_value (mm_eventId (pq_metadata request)))"
    and "registry_registerRecord (PartitionKey (pq_topic request) p) off (cl_registry pl) = (Inr ticket, r)"
  shows "cl_backlog (consumer_ingest (delivered (producerRecord request) p off) pl) =
    cl_backlog pl @ [\<lparr>wi_ticket = ticket, wi_payload = pq_payload request, wi_metadata = pq_metadata request\<rparr>]"
proof -
  have "OutboxEventId_create (outboxEventId_value (mm_eventId (pq_metadata request))) =
      Inr (mm_eventId (pq_metadata request))"
    using assms(1) by (simp add: OutboxEventId_create_def StrongID_create_Inr_iff)
  then show ?thesis
    using assms(2) incoming_delivered [of request p off] by (simp add: consumer_ingest_def ingest_def workItem_of_def delivered_def)
qed

text \<open>Starting: a consumer that has a pipeline refuses, and keeps its state, also after it was
  stopped; otherwise it starts exactly when one of the ten attempts to subscribe succeeds, and it is
  left without a pipeline when none does.\<close>

lemma consumer_start_outcome:
  "consumer_start config answer kc =
     (if kc_pipeline kc \<noteq> None then (Inl errc_operation_in_progress, kc)
      else if \<exists>k \<in> {1..10}. answer k then
        (Inr (), kc\<lparr>kc_pipeline := Some (ConsumerPipeline_create config), kc_joinable := True\<rparr>)
      else (Inl (make_EventConsumerError EventConsumerError.ConnectionFailure), kc)) \<and>
   (kc_joinable kc \<longrightarrow>
      fst (consumer_start config answer (snd (consumer_stop joined now accepted kc))) = Inl errc_operation_in_progress)"
proof -
  have ten: "{1..10} = {1..<1 + SUBSCRIBE_ATTEMPTS}" by (auto simp: SUBSCRIBE_ATTEMPTS_def)
  show ?thesis
    unfolding ten subscribeWithRetry_def consumer_start_def attempts_from_iff [symmetric]
    by (auto simp: consumer_stop_def split: prod.split)
qed

end
