(* ===== verification/Delivery.thy ===== *)
theory Delivery
  imports KafkaConsumer
begin

text \<open>
  A consumer together with its topic, its handler and what the handler changes. The broker keeps the records of
  each partition and the committed offsets; the client reads a partition from the committed offset on, in the order of
  the offsets (\<open>auto.offset.reset\<close> is \<open>earliest\<close>). The consumer is the one of \<open>KafkaConsumer\<close>, whose workers now call a
  handler that changes a state \<open>'db\<close>, which others change as well. Records arrive, partitions are assigned and
  revoked, calls and commits fail and the process is restarted at any time. What the handler has to promise is
  the locale \<open>event_handler\<close>; what follows is that every record before a committed offset was dealt with.
\<close>

section \<open>The model\<close>

text \<open>\<open>dv_log\<close>, \<open>dv_committed\<close> and \<open>dv_deadLetters\<close> belong to the broker, \<open>dv_position\<close> to the client. \<open>dv_trace\<close> is
  what the pipeline did since the process was started.\<close>

record 'db consumer_state =
  dv_log :: "IncomingRecord list"
  dv_committed :: "PartitionKey \<Rightarrow> int"
  dv_deadLetters :: "DeadLetterRecord list"
  dv_position :: "PartitionKey \<Rightarrow> int"
  dv_pipeline :: ConsumerPipeline
  dv_trace :: "event list"
  dv_db :: 'db

definition delivery_init :: "PipelineConfiguration \<Rightarrow> 'db \<Rightarrow> 'db consumer_state" where
  "delivery_init config db =
     \<lparr>dv_log = [], dv_committed = (\<lambda>_. 0), dv_deadLetters = [], dv_position = (\<lambda>_. 0),
      dv_pipeline = ConsumerPipeline_create config, dv_trace = [], dv_db = db\<rparr>"

text \<open>The broker's offsets after a commit; one that \<open>commitSync\<close> reported as failed may have been stored.\<close>

definition apply_commits :: "offsets list \<Rightarrow> (PartitionKey \<Rightarrow> int) \<Rightarrow> PartitionKey \<Rightarrow> int" where
  "apply_commits sent committed =
     foldl (\<lambda>committed offs p. case kv_find p offs of None \<Rightarrow> committed p | Some off \<Rightarrow> off) committed sent"

text \<open>The next record that the client reads of a partition.\<close>

definition next_record :: "IncomingRecord \<Rightarrow> 'db consumer_state \<Rightarrow> bool" where
  "next_record rec d \<longleftrightarrow>
     rec \<in> set (dv_log d) \<and> dv_position d (ir_partition rec) \<le> ir_offset rec \<and>
     list_all (\<lambda>r. ir_partition r = ir_partition rec \<and> dv_position d (ir_partition rec) \<le> ir_offset r \<longrightarrow>
       ir_offset rec \<le> ir_offset r) (dv_log d)"

text \<open>The handler runs where the executor calls it.\<close>

definition handler_call ::
  "(string \<Rightarrow> MessageMetadata \<Rightarrow> 'env \<Rightarrow> 'db \<Rightarrow> handler_result \<times> 'db) \<Rightarrow> WorkItem \<Rightarrow> exec_pc \<Rightarrow> 'env \<Rightarrow> 'db \<Rightarrow> handler_result \<times> 'db" where
  "handler_call handle item pc env db =
     (case pc of Invoking _ \<Rightarrow> handle (wi_payload item) (wi_metadata item) env db | _ \<Rightarrow> (Threw, db))"

definition stored_letters :: "RetryPolicy \<Rightarrow> WorkItem \<Rightarrow> event list \<Rightarrow> DeadLetterRecord list" where
  "stored_letters policy item evs =
     (if EvDeadLettered (wi_ticket item) \<in> set evs then [deadLetterRecord item (effectiveMaxAttempts policy)] else [])"

inductive delivery_step ::
  "(string \<Rightarrow> MessageMetadata \<Rightarrow> 'env \<Rightarrow> 'db \<Rightarrow> handler_result \<times> 'db) \<Rightarrow> (string \<Rightarrow> 'env \<Rightarrow> 'db \<Rightarrow> bool) \<Rightarrow>
   ('db \<Rightarrow> 'db \<Rightarrow> bool) \<Rightarrow> (IncomingRecord \<Rightarrow> 'db \<Rightarrow> bool) \<Rightarrow> 'db consumer_state \<Rightarrow> 'db consumer_state \<Rightarrow> bool"
  for handle env_ok others acceptable
where
  appended: "acceptable rec (dv_db d) \<Longrightarrow> 0 \<le> ir_offset rec \<Longrightarrow> legalOffset (ir_offset rec) \<Longrightarrow>
    list_all (\<lambda>r. ir_partition r = ir_partition rec \<longrightarrow> ir_offset r < ir_offset rec) (dv_log d) \<Longrightarrow>
    delivery_step handle env_ok others acceptable d (d\<lparr>dv_log := dv_log d @ [rec]\<rparr>)"
| assigned: "onRebalance PartitionsAssigned partitions accepted (Some (dv_pipeline d)) = (sent, Some pl) \<Longrightarrow>
    no_generation_wrap (toKeys partitions) (cl_registry (dv_pipeline d)) \<Longrightarrow>
    delivery_step handle env_ok others acceptable d (d\<lparr>dv_pipeline := pl,
      dv_position := (\<lambda>p. if p \<in> set (toKeys partitions) then dv_committed d p else dv_position d p)\<rparr>)"
| revoked: "onRebalance PartitionsRevoked partitions accepted (Some (dv_pipeline d)) = (sent, Some pl) \<Longrightarrow>
    stored = sent \<or> \<not> accepted \<and> stored = [] \<Longrightarrow>
    delivery_step handle env_ok others acceptable d
      (d\<lparr>dv_committed := apply_commits stored (dv_committed d), dv_pipeline := pl\<rparr>)"
| polled: "isAssigned (ir_partition rec) (cl_registry (dv_pipeline d)) \<Longrightarrow> next_record rec d \<Longrightarrow>
    ingest rec (dv_pipeline d) = (outcome, pl) \<Longrightarrow>
    delivery_step handle env_ok others acceptable d (d\<lparr>dv_pipeline := pl, dv_trace := dv_trace d @ ingest_events outcome,
      dv_position := (dv_position d)(ir_partition rec := ir_offset rec + 1)\<rparr>)"
| pumped: "pump_turn (dv_pipeline d) = (res, pl) \<Longrightarrow> delivery_step handle env_ok others acceptable d (d\<lparr>dv_pipeline := pl\<rparr>)"
| committed: "commitReady force now accepted (dv_pipeline d) lastCommit = (sent, pl, lastCommit') \<Longrightarrow>
    stored = sent \<or> \<not> accepted \<and> stored = [] \<Longrightarrow>
    delivery_step handle env_ok others acceptable d
      (d\<lparr>dv_committed := apply_commits stored (dv_committed d), dv_pipeline := pl\<rparr>)"
| taken: "worker_take start_task i (cl_pool (dv_pipeline d)) = Some pool \<Longrightarrow>
    delivery_step handle env_ok others acceptable d (d\<lparr>dv_pipeline := dv_pipeline d\<lparr>cl_pool := pool\<rparr>\<rparr>)"
| executed: "i < length (wp_threads (cl_pool (dv_pipeline d))) \<Longrightarrow>
    activity (wp_threads (cl_pool (dv_pipeline d)) ! i) = Executing (item, pc) \<Longrightarrow>
    (\<exists>attempt. pc = Invoking attempt) \<longrightarrow> env_ok (wi_payload item) env (dv_db d) \<Longrightarrow>
    handler_call handle item pc env (dv_db d) = (res, db) \<Longrightarrow>
    task_step i (obs\<lparr>obs_handler := res\<rparr>) (dv_pipeline d) = Some (evs, pl) \<Longrightarrow>
    delivery_step handle env_ok others acceptable d (d\<lparr>dv_pipeline := pl, dv_trace := dv_trace d @ evs, dv_db := db,
      dv_deadLetters := dv_deadLetters d @ stored_letters (cl_policy (dv_pipeline d)) item evs\<rparr>)"
| thrown: "task_throws i (dv_pipeline d) = Some (evs, pl) \<Longrightarrow>
    delivery_step handle env_ok others acceptable d (d\<lparr>dv_pipeline := pl, dv_trace := dv_trace d @ evs\<rparr>)"
| stopping: "pl = dv_pipeline d\<lparr>cl_pool := stop_close (cl_pool (dv_pipeline d))\<rparr> \<or>
    wp_stopped (cl_pool (dv_pipeline d)) \<and>
      (pl = dv_pipeline d\<lparr>cl_pool := stop_request i (cl_pool (dv_pipeline d))\<rparr> \<or>
       (\<exists>pool. stop_join (cl_pool (dv_pipeline d)) = Some pool \<and> pl = dv_pipeline d\<lparr>cl_pool := pool\<rparr>) \<or>
       pl = pipeline_stopped (dv_pipeline d)) \<Longrightarrow>
    delivery_step handle env_ok others acceptable d (d\<lparr>dv_pipeline := pl\<rparr>)"
| restarted: "delivery_step handle env_ok others acceptable d (d\<lparr>dv_pipeline := ConsumerPipeline_create config, dv_trace := []\<rparr>)"
| other: "others (dv_db d) db \<Longrightarrow> delivery_step handle env_ok others acceptable d (d\<lparr>dv_db := db\<rparr>)"

text \<open>The event id that \<open>ingest\<close> finds in a record.\<close>

definition eventIdOf :: "IncomingRecord \<Rightarrow> OutboxEventId option" where
  "eventIdOf rec =
     (case OutboxEventId_create (case ir_eventId rec of None \<Rightarrow> [] | Some v \<Rightarrow> v) of Inl _ \<Rightarrow> None | Inr i \<Rightarrow> Some i)"

text \<open>A record was dealt with: it has no event id and was skipped, it has had its effect, or it is in the dead-letter
  queue.\<close>

definition dead_lettered :: "'db consumer_state \<Rightarrow> IncomingRecord \<Rightarrow> bool" where
  "dead_lettered d rec \<longleftrightarrow>
     list_ex (\<lambda>letter. dl_source letter = ir_partition rec \<and> dl_offset letter = ir_offset rec \<and> dl_payload letter = ir_payload rec)
       (dv_deadLetters d)"

definition dealt :: "(IncomingRecord \<Rightarrow> 'db \<Rightarrow> bool) \<Rightarrow> 'db consumer_state \<Rightarrow> IncomingRecord \<Rightarrow> bool" where
  "dealt effect d rec \<longleftrightarrow>
     eventIdOf rec = None \<or> effect rec (dv_db d) \<or> dead_lettered d rec"

lemma dealt_simps:
  "dealt effect d rec \<longleftrightarrow> eventIdOf rec = None \<or> effect rec (dv_db d) \<or> (\<exists>letter \<in> set (dv_deadLetters d).
     dl_source letter = ir_partition rec \<and> dl_offset letter = ir_offset rec \<and> dl_payload letter = ir_payload rec)"
  by (simp add: dealt_def dead_lettered_def list_ex_iff)

section \<open>The pipeline\<close>

text \<open>The items in the backlog, in the queue and with the workers.\<close>

definition pipeline_items :: "ConsumerPipeline \<Rightarrow> WorkItem set" where
  "pipeline_items pl = set (cl_backlog pl) \<union> set (wp_queue (cl_pool pl)) \<union> fst ` running pl"

lemma items_create: "pipeline_items (ConsumerPipeline_create config) = {}"
  by (simp add: pipeline_items_def ConsumerPipeline_create_def WorkerPool_create_def runs_def)

lemma items_pumped: "pump_turn pl = (res, pl') \<Longrightarrow> pipeline_items pl' = pipeline_items pl \<and> cl_registry pl' = cl_registry pl"
  by (auto simp: pipeline_items_def pump_turn_def trySubmit_def split: list.splits if_splits prod.splits)

lemma items_revoked:
  "pipeline_items (snd (onPartitionsRevoked ps pl)) \<subseteq> pipeline_items pl"
  "isCurrent t (cl_registry (snd (onPartitionsRevoked ps pl))) \<Longrightarrow> isCurrent t (cl_registry pl)"
proof -
  have pl': "snd (onPartitionsRevoked ps pl) = pl\<lparr>cl_registry := snd (revoke ps (cl_registry pl)),
      cl_backlog := filter (\<lambda>item. rt_partition (wi_ticket item) \<notin> set ps) (cl_backlog pl)\<rparr>"
    by (simp add: onPartitionsRevoked_def split: prod.split)
  show "pipeline_items (snd (onPartitionsRevoked ps pl)) \<subseteq> pipeline_items pl" unfolding pl' by (auto simp: pipeline_items_def)
  show "isCurrent t (cl_registry (snd (onPartitionsRevoked ps pl))) \<Longrightarrow> isCurrent t (cl_registry pl)"
    unfolding pl' by (simp add: isCurrent_def revoke_find split: if_splits)
qed

lemma items_taken:
  assumes "worker_take start_task i (cl_pool pl) = Some pool"
  shows "pipeline_items (pl\<lparr>cl_pool := pool\<rparr>) \<subseteq> pipeline_items pl"
proof -
  let ?ths = "wp_threads (cl_pool pl)"
  have i: "i < length ?ths" using assms by (auto simp: worker_take_def split: if_splits)
  obtain others where "runs ?ths = others \<union> runOf (?ths ! i)" "\<And>th. runs (?ths[i := th]) = others \<union> runOf th"
    using runs_update [OF i] by blast
  then show ?thesis
    using assms by (auto simp: pipeline_items_def worker_take_def start_task_def split: if_splits list.splits)
qed

lemma items_run:
  assumes "i < length (wp_threads (cl_pool pl))" "activity (wp_threads (cl_pool pl) ! i) = Executing (item, pc)"
    and "pl' = pl\<lparr>cl_registry := r, cl_pool := worker_run i nxt (cl_pool pl)\<rparr>" "nxt = None \<or> nxt = Some (item, pc')"
  shows "pipeline_items pl' \<subseteq> pipeline_items pl" and "item \<in> pipeline_items pl"
proof -
  let ?ths = "wp_threads (cl_pool pl)"
  obtain others where others: "runs ?ths = others \<union> {(item, pc)}" "\<And>th. runs (?ths[i := th]) = others \<union> runOf th"
    using runs_update [OF assms(1)] assms(2) by (auto simp: runOf_def)
  then show "item \<in> pipeline_items pl" by (auto simp: pipeline_items_def)
  show "pipeline_items pl' \<subseteq> pipeline_items pl"
    using others assms(4) by (auto simp: pipeline_items_def assms(3) worker_run_def)
qed

lemma items_stopping:
  "pipeline_items (pl\<lparr>cl_pool := stop_close (cl_pool pl)\<rparr>) \<subseteq> pipeline_items pl"
  "pipeline_items (pl\<lparr>cl_pool := stop_request i (cl_pool pl)\<rparr>) \<subseteq> pipeline_items pl"
  "stop_join (cl_pool pl) = Some pool \<Longrightarrow> pipeline_items (pl\<lparr>cl_pool := pool\<rparr>) \<subseteq> pipeline_items pl"
  "pipeline_items (pipeline_stopped pl) \<subseteq> pipeline_items pl"
proof -
  have "runs (ths[i := Thread True (activity (ths ! i))]) = runs ths" if "i < length ths"
    for ths :: "(WorkItem \<times> exec_pc) thread list"
    using runs_update [OF that] by (metis runOf_def thread.sel(2))
  then show "pipeline_items (pl\<lparr>cl_pool := stop_request i (cl_pool pl)\<rparr>) \<subseteq> pipeline_items pl"
    by (auto simp: pipeline_items_def stop_request_def)
qed (auto simp: pipeline_items_def stop_close_def stop_join_def runs_def pipeline_stopped_def split: if_splits)

lemma items_confirmed:
  "pipeline_items (pipeline_confirmCommit cp pl) = pipeline_items pl"
  "isCurrent t (cl_registry (pipeline_confirmCommit cp pl)) = isCurrent t (cl_registry pl)"
  by (simp_all add: pipeline_items_def pipeline_confirmCommit_def isCurrent_kept)

lemma items_ready:
  assumes "commitReady force now accepted pl lastCommit = (sent, pl', lastCommit')"
  shows "pipeline_items pl' = pipeline_items pl \<and> (\<forall>t. isCurrent t (cl_registry pl') = isCurrent t (cl_registry pl))"
proof -
  have "pipeline_items (foldl (\<lambda>pl cp. pipeline_confirmCommit cp pl) pl cps) = pipeline_items pl \<and>
      (\<forall>t. isCurrent t (cl_registry (foldl (\<lambda>pl cp. pipeline_confirmCommit cp pl) pl cps)) = isCurrent t (cl_registry pl))" for cps
    by (induction cps rule: rev_induct) (simp_all add: items_confirmed)
  then show ?thesis
    using assms by (auto simp: commitReady_def Let_def split: if_splits prod.splits)
qed

text \<open>What a step of a worker tells: it settles the record it executes or none, because the handler answered
  \<open>true\<close> or the dead-letter sink took it.\<close>

lemma execute_step_settles:
  assumes "execute_step policy item obs pc r = (acts, res, r')" "settled t (concat (map (action_events item r0) acts))"
  shows "t = wi_ticket item \<and>
    ((\<exists>attempt. pc = Invoking attempt) \<and> obs_handler obs = Returned True \<or> EvDeadLettered t \<in> set (concat (map (action_events item r0) acts)))"
  using assms
  by (cases pc) (auto simp: Let_def action_events_def settled_def completion_events_def invokeHandler_def finish_def
      split: if_splits handler_result.splits)

lemma execute_step_issues: "execute_step policy item obs pc r = (acts, res, r') \<Longrightarrow> EvIssued t \<notin> set (concat (map (action_events item r0) acts))"
  by (auto simp: action_events_def completion_events_def split: exec_action.splits if_splits)

lemma execute_step_current:
  assumes "execute_step policy item obs pc r = (acts, res, r')"
  shows "isCurrent t r' = isCurrent t r"
  using assms by (cases pc) (auto simp: Let_def finish_def isCurrent_kept split: if_splits prod.splits)

lemma task_step_effects:
  assumes "task_step i obs pl = Some (evs, pl')" "activity (wp_threads (cl_pool pl) ! i) = Executing (item, pc)"
  shows "pipeline_items pl' \<subseteq> pipeline_items pl" and "item \<in> pipeline_items pl" and "isCurrent t (cl_registry pl') = isCurrent t (cl_registry pl)"
    and "EvIssued t \<notin> set evs"
    and "settled t evs \<Longrightarrow> t = wi_ticket item \<and>
      ((\<exists>attempt. pc = Invoking attempt) \<and> obs_handler obs = Returned True \<or> EvDeadLettered t \<in> set evs)"
proof -
  obtain acts res r nxt where step: "i < length (wp_threads (cl_pool pl))"
    "execute_step (cl_policy pl) item (obs\<lparr>obs_stop := stop_requested (wp_threads (cl_pool pl) ! i)\<rparr>) pc (cl_registry pl) = (acts, res, r)"
    "evs = concat (map (action_events item (cl_registry pl)) acts)"
    "nxt = (case res of Running pc' \<Rightarrow> Some (item, pc') | Finished outcome \<Rightarrow> None)"
    "pl' = pl\<lparr>cl_registry := r, cl_pool := worker_run i nxt (cl_pool pl)\<rparr>"
    using assms(1) by (rule task_stepE) (use assms(2) in auto)
  have "nxt = None \<or> nxt = Some (item, case res of Running pc' \<Rightarrow> pc' | _ \<Rightarrow> pc)"
    by (simp add: step(4) split: exec_result.split)
  from items_run [OF step(1) assms(2) step(5) this] show "pipeline_items pl' \<subseteq> pipeline_items pl" "item \<in> pipeline_items pl" .
  show "isCurrent t (cl_registry pl') = isCurrent t (cl_registry pl)"
    using execute_step_current [OF step(2)] by (simp add: step(5))
  show "EvIssued t \<notin> set evs" using execute_step_issues [OF step(2)] by (simp add: step(3))
  show "settled t evs \<Longrightarrow> t = wi_ticket item \<and>
      ((\<exists>attempt. pc = Invoking attempt) \<and> obs_handler obs = Returned True \<or> EvDeadLettered t \<in> set evs)"
    using execute_step_settles [OF step(2)] unfolding step(3) by fastforce
qed

text \<open>A record whose offset is larger than those accepted before, of an assigned partition, is accepted.\<close>

definition is_record_of :: "IncomingRecord \<Rightarrow> RecordTicket \<Rightarrow> bool" where
  "is_record_of rec t \<longleftrightarrow> rt_partition t = ir_partition rec \<and> rt_offset t = ir_offset rec"

lemma ingest_accepts:
  assumes "pipeline_inv pl tr" "legalOffset (ir_offset rec)" "isAssigned (ir_partition rec) (cl_registry pl)"
    and "\<forall>t. EvIssued t \<in> set tr \<and> isCurrent t (cl_registry pl) \<and> rt_partition t = ir_partition rec \<longrightarrow> rt_offset t < ir_offset rec"
    and "ingest rec pl = (outcome, pl')"
  obtains ticket where "is_record_of rec ticket" "isCurrent ticket (cl_registry pl)"
    "\<And>t. isCurrent t (cl_registry pl') = isCurrent t (cl_registry pl)"
    "\<And>t. EvIssued t \<in> set (ingest_events outcome) \<longleftrightarrow> t = ticket"
    "\<And>t. settled t (ingest_events outcome) \<longleftrightarrow> t = ticket \<and> eventIdOf rec = None"
    "pipeline_items pl' = pipeline_items pl \<union> (case eventIdOf rec of None \<Rightarrow> {} | Some i \<Rightarrow> {workItem_of rec ticket i})"
proof -
  note tracks = pipeline_invD(1) [OF assms(1)]
  obtain st where st: "kv_find (ir_partition rec) (r_partitions (cl_registry pl)) = Some st"
    using assms(3) by (auto simp: isAssigned_def)
  let ?R = "issuedIn tr (ir_partition rec) (ps_generation st)"
  have "\<forall>off \<in> ?R. off < ir_offset rec"
    using assms(4) st by (auto simp: issuedIn_def isCurrent_def)
  then have "fst (registerRecord (ir_offset rec) (ps_tracker st)) = Inr ()"
    using ot.register_iff [OF registry_tracksD(3) [OF tracks st]] by blast
  then obtain ticket r where reg: "registry_registerRecord (ir_partition rec) (ir_offset rec) (cl_registry pl) = (Inr ticket, r)"
    using st by (cases "registerRecord (ir_offset rec) (ps_tracker st)") (auto simp: registry_registerRecord_def transform_def)
  note ticket = register_tracks [OF tracks assms(2) reg]
  have cur: "isCurrent t r = isCurrent t (cl_registry pl)" for t
    using isCurrent_kept(1) [of t "ir_partition rec" "ir_offset rec" "cl_registry pl"] reg by simp
  have "is_record_of rec ticket" using ticket(2) by (metis RecordTicket.select_convs(1,2) is_record_of_def)
  moreover have "isCurrent ticket (cl_registry pl)" using ticket(3) cur by simp
  moreover have "isCurrent t (cl_registry pl') = isCurrent t (cl_registry pl)" for t
    using assms(5) reg cur [of t] isCurrent_kept(2) [of t ticket r]
    by (auto simp: ingest_def split: sum.splits prod.splits)
  moreover have "EvIssued t \<in> set (ingest_events outcome) \<longleftrightarrow> t = ticket" for t
    using assms(5) reg by (auto simp: ingest_def ingest_events_def completion_events_def split: sum.splits prod.splits)
  moreover have "settled t (ingest_events outcome) \<longleftrightarrow> t = ticket \<and> eventIdOf rec = None" for t
    using assms(5) reg
    by (auto simp: ingest_def ingest_events_def completion_events_def settled_def eventIdOf_def split: sum.splits prod.splits)
  moreover have "pipeline_items pl' = pipeline_items pl \<union> (case eventIdOf rec of None \<Rightarrow> {} | Some i \<Rightarrow> {workItem_of rec ticket i})"
    using assms(5) reg by (auto simp: ingest_def pipeline_items_def eventIdOf_def split: sum.splits prod.splits)
  ultimately show ?thesis by (rule that)
qed

text \<open>A commit position is the successor of an accepted offset.\<close>

lemma commitCandidate_registered:
  assumes "tracks t R D" "commitCandidate t = Some p"
  shows "\<exists>off \<in> R. p = off + 1"
proof -
  obtain e where e: "e \<in> set (takeWhile e_done (t_entries t))" "p = wrap_i64 (e_offset e + 1)"
    using assms by (rule commitCandidate_Some)
  have "e_offset e \<in> R" using tracksD(2) [OF assms(1)] set_takeWhileD [OF e(1)] by simp
  moreover from this have "legalOffset (e_offset e)" using assms(1) by (simp add: tracks_def)
  then have "wrap_i64 (e_offset e + 1) = e_offset e + 1"
    by (simp add: legalOffset_def wrap_i64_id in_i64_def)
  ultimately show ?thesis using e(2) by auto
qed


section \<open>Invariant\<close>

text \<open>The items of a pipeline are records of the log.\<close>

definition carried :: "IncomingRecord list \<Rightarrow> WorkItem \<Rightarrow> bool" where
  "carried records item \<longleftrightarrow>
     (\<exists>rec i. rec \<in> set records \<and> is_record_of rec (wi_ticket item) \<and> eventIdOf rec = Some i \<and>
        item = workItem_of rec (wi_ticket item) i)"

text \<open>What a log is: the offsets are the broker's, and determine the record.\<close>

definition log_ok :: "IncomingRecord list \<Rightarrow> bool" where
  "log_ok records \<longleftrightarrow>
     (\<forall>rec \<in> set records. 0 \<le> ir_offset rec \<and> legalOffset (ir_offset rec)) \<and>
     (\<forall>rec \<in> set records. \<forall>rec' \<in> set records. ir_partition rec = ir_partition rec' \<longrightarrow> ir_offset rec = ir_offset rec' \<longrightarrow> rec = rec')"

text \<open>The offsets that positions take: the first one, and the successors of records.\<close>

definition reached :: "IncomingRecord list \<Rightarrow> PartitionKey \<Rightarrow> int \<Rightarrow> bool" where
  "reached records p c \<longleftrightarrow> c = 0 \<or> (\<exists>rec \<in> set records. ir_partition rec = p \<and> c = ir_offset rec + 1)"

definition delivery_inv :: "(IncomingRecord \<Rightarrow> 'db \<Rightarrow> bool) \<Rightarrow> (IncomingRecord \<Rightarrow> 'db \<Rightarrow> bool) \<Rightarrow> ('db \<Rightarrow> bool) \<Rightarrow> 'db consumer_state \<Rightarrow> bool" where
  "delivery_inv acceptable effect db_ok d \<longleftrightarrow>
     db_ok (dv_db d) \<and> log_ok (dv_log d) \<and> (\<forall>rec \<in> set (dv_log d). acceptable rec (dv_db d)) \<and>
     pipeline_history (dv_pipeline d) (dv_trace d) \<and> (\<forall>item \<in> pipeline_items (dv_pipeline d). carried (dv_log d) item) \<and>
     (\<forall>rec \<in> set (dv_log d). \<forall>t. is_record_of rec t \<longrightarrow> settled t (dv_trace d) \<longrightarrow> dealt effect d rec) \<and>
     (\<forall>t. EvIssued t \<in> set (dv_trace d) \<longrightarrow> isCurrent t (cl_registry (dv_pipeline d)) \<longrightarrow>
        rt_offset t < dv_position d (rt_partition t)) \<and>
     (\<forall>rec \<in> set (dv_log d). \<forall>t. is_record_of rec t \<longrightarrow> isCurrent t (cl_registry (dv_pipeline d)) \<longrightarrow>
        ir_offset rec < dv_position d (ir_partition rec) \<longrightarrow> dealt effect d rec \<or> EvIssued t \<in> set (dv_trace d)) \<and>
     (\<forall>rec \<in> set (dv_log d). ir_offset rec < dv_committed d (ir_partition rec) \<longrightarrow> dealt effect d rec) \<and>
     (\<forall>t. EvIssued t \<in> set (dv_trace d) \<or> settled t (dv_trace d) \<longrightarrow> (\<exists>rec \<in> set (dv_log d). is_record_of rec t)) \<and>
     (\<forall>p. reached (dv_log d) p (dv_committed d p) \<and> reached (dv_log d) p (dv_position d p))"

lemma delivery_invD:
  assumes "delivery_inv acceptable effect db_ok d"
  shows "db_ok (dv_db d)" and "log_ok (dv_log d)" and "rec \<in> set (dv_log d) \<Longrightarrow> acceptable rec (dv_db d)"
    and "pipeline_history (dv_pipeline d) (dv_trace d)"
    and "item \<in> pipeline_items (dv_pipeline d) \<Longrightarrow> carried (dv_log d) item"
    and "rec \<in> set (dv_log d) \<Longrightarrow> is_record_of rec t \<Longrightarrow> settled t (dv_trace d) \<Longrightarrow> dealt effect d rec"
    and "EvIssued t \<in> set (dv_trace d) \<Longrightarrow> isCurrent t (cl_registry (dv_pipeline d)) \<Longrightarrow>
      rt_offset t < dv_position d (rt_partition t)"
    and "rec \<in> set (dv_log d) \<Longrightarrow> is_record_of rec t \<Longrightarrow> isCurrent t (cl_registry (dv_pipeline d)) \<Longrightarrow>
      ir_offset rec < dv_position d (ir_partition rec) \<Longrightarrow> dealt effect d rec \<or> EvIssued t \<in> set (dv_trace d)"
    and "rec \<in> set (dv_log d) \<Longrightarrow> ir_offset rec < dv_committed d (ir_partition rec) \<Longrightarrow> dealt effect d rec"
    and "EvIssued t \<in> set (dv_trace d) \<or> settled t (dv_trace d) \<Longrightarrow> \<exists>rec \<in> set (dv_log d). is_record_of rec t"
    and "reached (dv_log d) p (dv_committed d p)" and "reached (dv_log d) p (dv_position d p)"
  using assms by (auto simp: delivery_inv_def)

lemma settled_append: "settled t (tr @ evs) \<longleftrightarrow> settled t tr \<or> settled t evs"
  by (auto simp: settled_def)

lemma log_ok_unique:
  "log_ok records \<Longrightarrow> rec \<in> set records \<Longrightarrow> rec' \<in> set records \<Longrightarrow> is_record_of rec t \<Longrightarrow> is_record_of rec' t \<Longrightarrow> rec = rec'"
  by (auto simp: log_ok_def is_record_of_def)

lemma delivery_inv_init: "db_ok db \<Longrightarrow> delivery_inv acceptable effect db_ok (delivery_init config db)"
  by (auto simp: delivery_inv_def delivery_init_def log_ok_def items_create pipeline_history.hist_init settled_def reached_def)

text \<open>A transition that only moves records, adds to the state and settles records that are dealt with.\<close>

lemma delivery_inv_move:
  assumes inv: "delivery_inv acceptable effect db_ok d"
    and same: "dv_log d' = dv_log d" "dv_committed d' = dv_committed d" "dv_position d' = dv_position d"
    and db: "db_ok (dv_db d')" "\<And>rec. rec \<in> set (dv_log d) \<Longrightarrow> acceptable rec (dv_db d')"
      "\<And>rec. rec \<in> set (dv_log d) \<Longrightarrow> dealt effect d rec \<Longrightarrow> dealt effect d' rec"
    and pipeline: "pipeline_step (dv_pipeline d) evs (dv_pipeline d') \<or> evs = [] \<and> pipeline_history (dv_pipeline d') (dv_trace d)"
      "dv_trace d' = dv_trace d @ evs"
      "pipeline_items (dv_pipeline d') \<subseteq> pipeline_items (dv_pipeline d)" "\<And>t. EvIssued t \<notin> set evs"
      "\<And>t. isCurrent t (cl_registry (dv_pipeline d')) \<Longrightarrow> isCurrent t (cl_registry (dv_pipeline d))"
    and settles: "\<And>rec t. rec \<in> set (dv_log d) \<Longrightarrow> is_record_of rec t \<Longrightarrow> settled t evs \<Longrightarrow> dealt effect d' rec"
      "\<And>t. settled t evs \<Longrightarrow> \<exists>rec \<in> set (dv_log d). is_record_of rec t"
  shows "delivery_inv acceptable effect db_ok d'"
proof -
  note D = delivery_invD [OF inv]
  have "pipeline_history (dv_pipeline d') (dv_trace d')"
    using pipeline(1) pipeline_history.hist_step [OF D(4)] by (auto simp: pipeline(2))
  moreover have "dealt effect d' rec" if "rec \<in> set (dv_log d)" "is_record_of rec t" "settled t (dv_trace d')" for rec t
    using that D(6) db(3) settles(1) unfolding pipeline(2) settled_append by blast
  moreover have issued: "EvIssued t \<in> set (dv_trace d') \<longleftrightarrow> EvIssued t \<in> set (dv_trace d)" for t
    using pipeline(4) by (simp add: pipeline(2))
  moreover have "dealt effect d' rec \<or> EvIssued t \<in> set (dv_trace d)"
    if "rec \<in> set (dv_log d)" "is_record_of rec t" "isCurrent t (cl_registry (dv_pipeline d'))" "ir_offset rec < dv_position d (ir_partition rec)" for rec t
    using that D(8) db(3) pipeline(5) by blast
  moreover have "\<forall>item \<in> pipeline_items (dv_pipeline d'). carried (dv_log d) item" using D(5) pipeline(3) by blast
  moreover have "\<exists>rec \<in> set (dv_log d). is_record_of rec t" if "EvIssued t \<in> set (dv_trace d) \<or> settled t (dv_trace d')" for t
    using that D(10) settles(2) unfolding pipeline(2) settled_append by blast
  ultimately show ?thesis
    using D(2,7,9,11,12) db pipeline(5) unfolding delivery_inv_def same by blast
qed

lemma commit_position_registered:
  assumes "pipeline_history pl tr" "cp \<in> set (pipeline_commitCandidates pl) \<or> cp \<in> set (fst (onPartitionsRevoked ps pl))"
  shows "\<exists>off. EvIssued \<lparr>rt_partition = cp_partition cp, rt_offset = off, rt_generation = cp_generation cp\<rparr> \<in> set tr \<and>
      cp_offset cp = off + 1"
    and "isCurrent \<lparr>rt_partition = cp_partition cp, rt_offset = off, rt_generation = cp_generation cp\<rparr> (cl_registry pl)"
proof -
  note tracks = pipeline_invD(1) [OF pipeline_history_inv [OF assms(1)]]
  obtain st where st: "kv_find (cp_partition cp) (r_partitions (cl_registry pl)) = Some st"
    "ps_generation st = cp_generation cp" "commitCandidate (ps_tracker st) = Some (cp_offset cp)"
    using assms(2) commitCandidates_iff [OF registry_tracksD(1) [OF tracks]] revoke_positions [of cp ps "cl_registry pl"]
    by (auto simp: pipeline_commitCandidates_def onPartitionsRevoked_positions)
  show "\<exists>off. EvIssued \<lparr>rt_partition = cp_partition cp, rt_offset = off, rt_generation = cp_generation cp\<rparr> \<in> set tr \<and>
      cp_offset cp = off + 1"
    using commitCandidate_registered [OF registry_tracksD(3) [OF tracks st(1)] st(3)] st(2) by (auto simp: issuedIn_def)
  show "isCurrent \<lparr>rt_partition = cp_partition cp, rt_offset = off, rt_generation = cp_generation cp\<rparr> (cl_registry pl)"
    using st by (simp add: isCurrent_def)
qed

text \<open>What lies before a position that is offered for commit is dealt with.\<close>

lemma commit_position_dealt:
  assumes "delivery_inv acceptable effect db_ok d"
    and "cp \<in> set (pipeline_commitCandidates (dv_pipeline d)) \<or> cp \<in> set (fst (onPartitionsRevoked ps (dv_pipeline d)))"
    and "rec \<in> set (dv_log d)" "ir_partition rec = cp_partition cp" "ir_offset rec < cp_offset cp"
  shows "dealt effect d rec"
proof -
  note D = delivery_invD [OF assms(1)]
  note cp = commit_position_registered [OF D(4) assms(2)]
  let ?t = "\<lparr>rt_partition = cp_partition cp, rt_offset = ir_offset rec, rt_generation = cp_generation cp\<rparr>"
  obtain off where off: "EvIssued \<lparr>rt_partition = cp_partition cp, rt_offset = off, rt_generation = cp_generation cp\<rparr> \<in> set (dv_trace d)"
    "cp_offset cp = off + 1" using cp(1) by blast
  have "ir_offset rec < dv_position d (ir_partition rec)"
    using D(7) [OF off(1) cp(2)] off(2) assms(4,5) by simp
  moreover have t: "is_record_of rec ?t" using assms(4) by (simp add: is_record_of_def)
  ultimately consider "dealt effect d rec" | "EvIssued ?t \<in> set (dv_trace d)" using D(8) [OF assms(3) t cp(2)] by blast
  then show ?thesis
  proof cases
    case 2
    from candidate_covers_completed [OF D(4) assms(2) this] assms(5) have "EvCompleted ?t \<in> set (dv_trace d)" by simp
    then have "settled ?t (dv_trace d)" by (rule pipeline_invD(2) [OF pipeline_history_inv [OF D(4)]])
    with D(6) [OF assms(3) t] show ?thesis .
  qed
qed

lemma dealt_cong:
  "dv_db d' = dv_db d \<Longrightarrow> dv_deadLetters d' = dv_deadLetters d \<Longrightarrow> dealt effect d' rec = dealt effect d rec"
  by (simp add: dealt_simps)

lemma delivery_inv_commit:
  assumes "delivery_inv acceptable effect db_ok d"
    and "\<forall>offs \<in> set stored. offs = offsets_of (pipeline_commitCandidates (dv_pipeline d)) \<or>
      offs = offsets_of (fst (onPartitionsRevoked ps (dv_pipeline d)))"
  shows "delivery_inv acceptable effect db_ok (d\<lparr>dv_committed := apply_commits stored (dv_committed d)\<rparr>)"
proof -
  have "dealt effect d rec" if rec: "rec \<in> set (dv_log d)" "ir_offset rec < apply_commits stored (dv_committed d) (ir_partition rec)" for rec
    using assms(2) rec(2)
  proof (induction stored rule: rev_induct)
    case Nil
    with rec(1) show ?case using delivery_invD(9) [OF assms(1)] by (simp add: apply_commits_def)
  next
    case (snoc offs stored)
    show ?case
    proof (cases "kv_find (ir_partition rec) offs")
      case None
      with snoc show ?thesis by (simp add: apply_commits_def)
    next
      case (Some off)
      obtain cp where cp: "cp \<in> set (pipeline_commitCandidates (dv_pipeline d)) \<or> cp \<in> set (fst (onPartitionsRevoked ps (dv_pipeline d)))"
        "cp_partition cp = ir_partition rec" "cp_offset cp = off"
        using offsets_of_find Some snoc.prems(1) by (metis in_set_conv_decomp)
      moreover have "ir_offset rec < off" using snoc.prems(2) Some by (simp add: apply_commits_def)
      ultimately show ?thesis using commit_position_dealt [OF assms(1) cp(1) rec(1)] by simp
    qed
  qed
  moreover have "reached (dv_log d) p (apply_commits stored (dv_committed d) p)" for p
    using assms(2)
  proof (induction stored rule: rev_induct)
    case Nil
    show ?case using delivery_invD(11) [OF assms(1)] by (simp add: apply_commits_def)
  next
    case (snoc offs stored)
    show ?case
    proof (cases "kv_find p offs")
      case (Some off)
      obtain cp where cp: "cp \<in> set (pipeline_commitCandidates (dv_pipeline d)) \<or> cp \<in> set (fst (onPartitionsRevoked ps (dv_pipeline d)))"
        "cp_partition cp = p" "cp_offset cp = off"
        using offsets_of_find Some snoc.prems by (metis in_set_conv_decomp)
      from commit_position_registered(1) [OF delivery_invD(4) [OF assms(1)] cp(1)] delivery_invD(10) [OF assms(1)]
      show ?thesis using cp(2,3) Some by (fastforce simp: apply_commits_def reached_def is_record_of_def)
    qed (use snoc in \<open>simp add: apply_commits_def\<close>)
  qed
  ultimately show ?thesis using assms(1) by (simp add: delivery_inv_def dealt_simps)
qed

lemma assigned_issued:
  assumes "pipeline_inv pl tr" "no_generation_wrap ps (cl_registry pl)"
    and "EvIssued t \<in> set tr" "isCurrent t (cl_registry (onPartitionsAssigned ps pl))"
  shows "rt_partition t \<notin> set ps \<and> isCurrent t (cl_registry pl)"
proof -
  have "rt_partition t \<notin> set ps"
  proof
    assume "rt_partition t \<in> set ps"
    with assign_fresh [OF this assms(2)] issued_generation [OF pipeline_invD(1) [OF assms(1)], of t] assms(3,4) show False
      by (auto simp: isCurrent_def onPartitionsAssigned_def)
  qed
  with assms(4) show ?thesis by (simp add: isCurrent_def onPartitionsAssigned_def assign_other)
qed

section \<open>The promise of a handler\<close>

text \<open>
  \<open>IEventHandler\<close>: what others do to the state keeps records acceptable and effects in place; so
  does the handler, and when it answers \<open>true\<close> the record has had its effect.
\<close>

locale event_handler =
  fixes handle :: "string \<Rightarrow> MessageMetadata \<Rightarrow> 'env \<Rightarrow> 'db \<Rightarrow> handler_result \<times> 'db"
    and env_ok :: "string \<Rightarrow> 'env \<Rightarrow> 'db \<Rightarrow> bool"
    and others :: "'db \<Rightarrow> 'db \<Rightarrow> bool"
    and acceptable :: "IncomingRecord \<Rightarrow> 'db \<Rightarrow> bool"
    and effect :: "IncomingRecord \<Rightarrow> 'db \<Rightarrow> bool"
    and db_ok :: "'db \<Rightarrow> bool"
  assumes others_ok: "others db db' \<Longrightarrow> db_ok db \<Longrightarrow> db_ok db'"
    and others_acceptable: "others db db' \<Longrightarrow> db_ok db \<Longrightarrow> acceptable rec db \<Longrightarrow> acceptable rec db'"
    and others_effect: "others db db' \<Longrightarrow> db_ok db \<Longrightarrow> effect rec db \<Longrightarrow> effect rec db'"
    and handle_others: "db_ok db \<Longrightarrow> acceptable rec db \<Longrightarrow> eventIdOf rec = Some i \<Longrightarrow> env_ok (ir_payload rec) env db \<Longrightarrow>
      handle (ir_payload rec) \<lparr>mm_eventId = i, mm_eventType = ir_eventType rec\<rparr> env db = (res, db') \<Longrightarrow> others db db'"
    and handle_effect: "db_ok db \<Longrightarrow> acceptable rec db \<Longrightarrow> eventIdOf rec = Some i \<Longrightarrow> env_ok (ir_payload rec) env db \<Longrightarrow>
      handle (ir_payload rec) \<lparr>mm_eventId = i, mm_eventType = ir_eventType rec\<rparr> env db = (Returned True, db') \<Longrightarrow> effect rec db'"
begin

abbreviation inv :: "'db consumer_state \<Rightarrow> bool" where
  "inv \<equiv> delivery_inv acceptable effect db_ok"

lemma dealt_others:
  assumes "others (dv_db d) (dv_db d')" "db_ok (dv_db d)" "set (dv_deadLetters d) \<subseteq> set (dv_deadLetters d')" "dealt effect d rec"
  shows "dealt effect d' rec"
  using assms others_effect unfolding dealt_simps by blast

lemma others_inv:
  assumes "inv d" "others (dv_db d) db"
  shows "inv (d\<lparr>dv_db := db\<rparr>)"
proof (rule delivery_inv_move [OF assms(1), of _ "[]"])
  note D = delivery_invD [OF assms(1)]
  show "db_ok (dv_db (d\<lparr>dv_db := db\<rparr>))" using others_ok assms(2) D(1) by simp
  show "acceptable rec (dv_db (d\<lparr>dv_db := db\<rparr>))" if "rec \<in> set (dv_log d)" for rec
    using others_acceptable [OF assms(2) D(1)] D(3) that by simp
  show "dealt effect (d\<lparr>dv_db := db\<rparr>) rec" if "dealt effect d rec" for rec
    using dealt_others [of d "d\<lparr>dv_db := db\<rparr>"] assms(2) D(1) that by simp
qed (use delivery_invD(4) [OF assms(1)] in \<open>simp_all add: settled_def\<close>)

text \<open>Transitions of the pipeline that settle nothing.\<close>

lemma moved_inv:
  assumes "inv d" "pipeline_step (dv_pipeline d) evs pl \<or> evs = [] \<and> pipeline_history pl (dv_trace d)"
    and "pipeline_items pl \<subseteq> pipeline_items (dv_pipeline d)" "\<And>t. isCurrent t (cl_registry pl) \<Longrightarrow> isCurrent t (cl_registry (dv_pipeline d))"
    and "\<And>t. EvIssued t \<notin> set evs \<and> \<not> settled t evs"
  shows "inv (d\<lparr>dv_pipeline := pl, dv_trace := dv_trace d @ evs\<rparr>)"
proof (rule delivery_inv_move [OF assms(1), of _ evs])
  let ?d = "d\<lparr>dv_pipeline := pl, dv_trace := dv_trace d @ evs\<rparr>"
  show "pipeline_step (dv_pipeline d) evs (dv_pipeline ?d) \<or> evs = [] \<and> pipeline_history (dv_pipeline ?d) (dv_trace d)"
    using assms(2) by simp
  show "pipeline_items (dv_pipeline ?d) \<subseteq> pipeline_items (dv_pipeline d)" using assms(3) by simp
  show "isCurrent t (cl_registry (dv_pipeline d))" if "isCurrent t (cl_registry (dv_pipeline ?d))" for t
    using assms(4) that by simp
  show "EvIssued t \<notin> set evs" for t using assms(5) by simp
  show "dealt effect ?d rec" if "settled t evs" for rec t using assms(5) that by simp
  show "\<exists>rec \<in> set (dv_log d). is_record_of rec t" if "settled t evs" for t using assms(5) that by simp
  show "dealt effect ?d rec" if "dealt effect d rec" for rec using that by (simp add: dealt_simps)
qed (use delivery_invD(1,3) [OF assms(1)] in simp_all)

lemma quiet_inv:
  assumes "inv d" "pipeline_step (dv_pipeline d) [] pl \<or> pipeline_history pl (dv_trace d)"
    and "pipeline_items pl \<subseteq> pipeline_items (dv_pipeline d)" "\<And>t. isCurrent t (cl_registry pl) \<Longrightarrow> isCurrent t (cl_registry (dv_pipeline d))"
  shows "inv (d\<lparr>dv_pipeline := pl\<rparr>)"
  using moved_inv [OF assms(1), of "[]" pl] assms(2-4) by (simp add: settled_def)

lemma appended_inv:
  assumes "inv d" "acceptable rec (dv_db d)" "0 \<le> ir_offset rec" "legalOffset (ir_offset rec)"
    and new: "list_all (\<lambda>r. ir_partition r = ir_partition rec \<longrightarrow> ir_offset r < ir_offset rec) (dv_log d)"
  shows "inv (d\<lparr>dv_log := dv_log d @ [rec]\<rparr>)"
proof -
  note D = delivery_invD [OF assms(1)]
  have ahead: "c \<le> ir_offset rec" if "reached (dv_log d) (ir_partition rec) c" for c
    using that new assms(3) by (auto simp: reached_def list_all_iff)
  have fresh: "\<not> is_record_of rec t" if "EvIssued t \<in> set (dv_trace d) \<or> settled t (dv_trace d)" for t
    using D(10) [OF that] new by (auto simp: is_record_of_def list_all_iff)
  have "log_ok (dv_log d @ [rec])"
    using D(2) new assms(3,4) by (fastforce simp: log_ok_def list_all_iff)
  moreover have "carried (dv_log d @ [rec]) item" if "item \<in> pipeline_items (dv_pipeline d)" for item
    using D(5) [OF that] by (auto simp: carried_def)
  moreover have "reached (dv_log d @ [rec]) p c" if "reached (dv_log d) p c" for p c
    using that by (auto simp: reached_def)
  ultimately show ?thesis
    using assms(1,2) fresh ahead [OF D(11)] ahead [OF D(12)]
    by (auto simp: delivery_inv_def dealt_simps)
qed

lemma assigned_inv:
  assumes "inv d" "no_generation_wrap ps (cl_registry (dv_pipeline d))"
  shows "inv (d\<lparr>dv_pipeline := onPartitionsAssigned ps (dv_pipeline d),
      dv_position := (\<lambda>p. if p \<in> set ps then dv_committed d p else dv_position d p)\<rparr>)"
proof -
  note D = delivery_invD [OF assms(1)]
  let ?pl = "onPartitionsAssigned ps (dv_pipeline d)"
  note old = assigned_issued [OF pipeline_history_inv [OF D(4)] assms(2)]
  have "pipeline_history ?pl (dv_trace d)"
    using pipeline_history.hist_step [OF D(4) pipeline_step.Assigned [OF assms(2)]] by simp
  moreover have "pipeline_items ?pl = pipeline_items (dv_pipeline d)" by (simp add: pipeline_items_def onPartitionsAssigned_def)
  moreover have "isCurrent t (cl_registry (dv_pipeline d))" if "isCurrent t (cl_registry ?pl)" "rt_partition t \<notin> set ps" for t
    using that by (simp add: isCurrent_def onPartitionsAssigned_def assign_other)
  then have "dealt effect d rec \<or> EvIssued t \<in> set (dv_trace d)"
    if "rec \<in> set (dv_log d)" "is_record_of rec t" "isCurrent t (cl_registry ?pl)"
      "ir_offset rec < (if ir_partition rec \<in> set ps then dv_committed d (ir_partition rec) else dv_position d (ir_partition rec))" for rec t
    using that D(8,9) by (auto simp: is_record_of_def split: if_splits)
  ultimately show ?thesis
    using assms(1) old unfolding delivery_inv_def by (simp add: dealt_simps)
qed

lemma next_recordD:
  assumes "next_record rec d"
  shows "rec \<in> set (dv_log d)" "dv_position d (ir_partition rec) \<le> ir_offset rec"
    and "r \<in> set (dv_log d) \<Longrightarrow> ir_partition r = ir_partition rec \<Longrightarrow> dv_position d (ir_partition rec) \<le> ir_offset r \<Longrightarrow>
      ir_offset rec \<le> ir_offset r"
  using assms by (auto simp: next_record_def list_all_iff)

lemma current_ticket:
  assumes "is_record_of r t" "isCurrent t reg" "is_record_of r' t'" "isCurrent t' reg"
    and "ir_partition r = ir_partition r'" "ir_offset r = ir_offset r'"
  shows "t = t'"
  using assms by (auto simp: is_record_of_def isCurrent_def split: option.splits intro: RecordTicket.equality)

lemma polled_inv:
  assumes "inv d" "isAssigned (ir_partition rec) (cl_registry (dv_pipeline d))" "next_record rec d"
    and "ingest rec (dv_pipeline d) = (outcome, pl)"
  shows "inv (d\<lparr>dv_pipeline := pl, dv_trace := dv_trace d @ ingest_events outcome,
      dv_position := (dv_position d)(ir_partition rec := ir_offset rec + 1)\<rparr>)" (is "inv ?d")
proof -
  note D = delivery_invD [OF assms(1)]
  let ?evs = "ingest_events outcome"
  note rec = next_recordD(1,2) [OF assms(3)] and first = next_recordD(3) [OF assms(3)]
  have legal: "legalOffset (ir_offset rec)" using D(2) rec(1) by (simp add: log_ok_def)
  have later: "rt_offset t < ir_offset rec"
    if "EvIssued t \<in> set (dv_trace d)" "isCurrent t (cl_registry (dv_pipeline d))" "rt_partition t = ir_partition rec" for t
    using D(7) [OF that(1,2)] rec(2) that(3) by simp
  then obtain ticket where ticket: "is_record_of rec ticket" "isCurrent ticket (cl_registry (dv_pipeline d))"
    "\<And>t. isCurrent t (cl_registry pl) = isCurrent t (cl_registry (dv_pipeline d))"
    "\<And>t. EvIssued t \<in> set ?evs \<longleftrightarrow> t = ticket" "\<And>t. settled t ?evs \<longleftrightarrow> t = ticket \<and> eventIdOf rec = None"
    "pipeline_items pl = pipeline_items (dv_pipeline d) \<union> (case eventIdOf rec of None \<Rightarrow> {} | Some i \<Rightarrow> {workItem_of rec ticket i})"
    using ingest_accepts [OF pipeline_history_inv [OF D(4)] legal assms(2) _ assms(4)] by metis
  have history: "pipeline_history pl (dv_trace d @ ?evs)"
    using pipeline_history.hist_step [OF D(4) pipeline_step.Ingested [OF legal assms(4)]] .
  have carried: "\<forall>item \<in> pipeline_items pl. carried (dv_log d) item"
    using D(5) rec(1) ticket(1,6) by (auto simp: carried_def workItem_of_def split: option.splits)
  have settled: "dealt effect d r" if "r \<in> set (dv_log d)" "is_record_of r t" "settled t (dv_trace d @ ?evs)" for r t
    using that(3) unfolding settled_append
  proof
    assume "settled t ?evs"
    with log_ok_unique [OF D(2) that(1) rec(1) that(2)] ticket(1,5) show ?thesis by (simp add: dealt_simps)
  qed (rule D(6) [OF that(1,2)])
  have before: "rt_offset t < dv_position ?d (rt_partition t)"
    if "EvIssued t \<in> set (dv_trace d @ ?evs)" "isCurrent t (cl_registry (dv_pipeline d))" for t
    using that D(7) later ticket(1,4) by (force simp: is_record_of_def)
  have read: "dealt effect d r \<or> EvIssued t \<in> set (dv_trace d @ ?evs)"
    if r: "r \<in> set (dv_log d)" "is_record_of r t" "isCurrent t (cl_registry (dv_pipeline d))" "ir_offset r < dv_position ?d (ir_partition r)" for r t
  proof (cases "ir_offset r < dv_position d (ir_partition r)")
    case False
    then have "ir_partition r = ir_partition rec" "ir_offset r = ir_offset rec"
      using r(1,4) first [OF r(1)] by (auto split: if_splits)
    then show ?thesis using current_ticket [OF r(2,3) ticket(1,2)] ticket(4) by simp
  qed (use D(8) [OF r(1-3)] in auto)
  have known: "\<exists>r \<in> set (dv_log d). is_record_of r t" if "EvIssued t \<in> set (dv_trace d @ ?evs) \<or> settled t (dv_trace d @ ?evs)" for t
    using that D(10) rec(1) ticket(1,4,5) unfolding settled_append by auto
  have "reached (dv_log d) p (dv_position ?d p)" for p using D(12) rec(1) by (auto simp: reached_def)
  with history carried settled before read known show ?thesis
    using assms(1) ticket(3) unfolding delivery_inv_def by (simp add: dealt_simps)
qed

lemma executed_inv:
  assumes "inv d" "i < length (wp_threads (cl_pool (dv_pipeline d)))"
    and run: "activity (wp_threads (cl_pool (dv_pipeline d)) ! i) = Executing (item, pc)"
    and env: "(\<exists>attempt. pc = Invoking attempt) \<longrightarrow> env_ok (wi_payload item) env (dv_db d)"
    and call: "handler_call handle item pc env (dv_db d) = (res, db)"
    and step: "task_step i (obs\<lparr>obs_handler := res\<rparr>) (dv_pipeline d) = Some (evs, pl)"
  shows "inv (d\<lparr>dv_pipeline := pl, dv_trace := dv_trace d @ evs, dv_db := db,
      dv_deadLetters := dv_deadLetters d @ stored_letters (cl_policy (dv_pipeline d)) item evs\<rparr>)" (is "inv ?d")
proof -
  note D = delivery_invD [OF assms(1)]
  note effects = task_step_effects [OF step run]
  obtain rec j where rec: "rec \<in> set (dv_log d)" "is_record_of rec (wi_ticket item)" "eventIdOf rec = Some j"
    "item = workItem_of rec (wi_ticket item) j"
    using D(5) [OF effects(2)] by (auto simp: carried_def)
  have item: "wi_payload item = ir_payload rec" "wi_metadata item = \<lparr>mm_eventId = j, mm_eventType = ir_eventType rec\<rparr>"
    by (subst rec(4), simp add: workItem_of_def)+
  note handled = handle_others [OF D(1) D(3) [OF rec(1)] rec(3)] handle_effect [OF D(1) D(3) [OF rec(1)] rec(3)]
  have db: "others (dv_db d) db \<or> db = dv_db d"
    using call env handled(1) item by (cases pc) (auto simp: handler_call_def)
  have letter: "dealt effect ?d rec" if "EvDeadLettered (wi_ticket item) \<in> set evs"
    using that rec(2) item(1) by (auto simp: dealt_simps stored_letters_def deadLetterRecord_def is_record_of_def)
  have settles: "dealt effect ?d r" if "r \<in> set (dv_log d)" "is_record_of r t" "settled t evs" for r t
  proof -
    have t: "t = wi_ticket item"
      "(\<exists>attempt. pc = Invoking attempt) \<and> res = Returned True \<or> EvDeadLettered (wi_ticket item) \<in> set evs"
      using effects(5) [OF that(3)] by auto
    then have "r = rec" using log_ok_unique [OF D(2) that(1) rec(1) that(2)] rec(2) by simp
    moreover have "effect rec db" if "pc = Invoking attempt" "res = Returned True" for attempt
      using handled(2) [of env db] call env item that by (simp add: handler_call_def)
    ultimately show ?thesis using t letter by (auto simp: dealt_simps)
  qed
  show ?thesis
  proof (rule delivery_inv_move [OF assms(1), of _ evs])
    show "db_ok (dv_db ?d)" using db others_ok D(1) by auto
    show "acceptable r (dv_db ?d)" if "r \<in> set (dv_log d)" for r using db others_acceptable D(1) D(3) [OF that] by auto
    show "dealt effect ?d r" if "dealt effect d r" for r
      using db that dealt_others [of d ?d r] D(1) by (auto simp: dealt_simps)
    show "pipeline_step (dv_pipeline d) evs (dv_pipeline ?d) \<or> evs = [] \<and> pipeline_history (dv_pipeline ?d) (dv_trace d)"
      using pipeline_step.Executed [OF step] by simp
    show "\<exists>r \<in> set (dv_log d). is_record_of r t" if "settled t evs" for t using effects(5) [OF that] rec(1,2) by auto
  qed (use effects settles in simp_all)
qed

lemma stopping_inv:
  assumes "inv d"
    and "pl = dv_pipeline d\<lparr>cl_pool := stop_close (cl_pool (dv_pipeline d))\<rparr> \<or>
      wp_stopped (cl_pool (dv_pipeline d)) \<and>
        (pl = dv_pipeline d\<lparr>cl_pool := stop_request i (cl_pool (dv_pipeline d))\<rparr> \<or>
         (\<exists>pool. stop_join (cl_pool (dv_pipeline d)) = Some pool \<and> pl = dv_pipeline d\<lparr>cl_pool := pool\<rparr>) \<or>
         pl = pipeline_stopped (dv_pipeline d))"
  shows "inv (d\<lparr>dv_pipeline := pl\<rparr>)"
proof (rule quiet_inv [OF assms(1)])
  show "pipeline_step (dv_pipeline d) [] pl \<or> pipeline_history pl (dv_trace d)"
    using assms(2) by (auto intro: pipeline_step.intros)
  show "pipeline_items pl \<subseteq> pipeline_items (dv_pipeline d)" using assms(2) items_stopping by blast
  show "\<And>t. isCurrent t (cl_registry pl) \<Longrightarrow> isCurrent t (cl_registry (dv_pipeline d))"
    using assms(2) by (auto simp: pipeline_stopped_def)
qed

lemma revoked_inv:
  assumes "inv d" "onRebalance PartitionsRevoked partitions accepted (Some (dv_pipeline d)) = (sent, Some pl)" "set stored \<subseteq> set sent"
  shows "inv (d\<lparr>dv_committed := apply_commits stored (dv_committed d), dv_pipeline := pl\<rparr>)"
proof -
  let ?ps = "toKeys partitions" and ?d = "d\<lparr>dv_committed := apply_commits stored (dv_committed d)\<rparr>"
  have pl: "pl = snd (onPartitionsRevoked ?ps (dv_pipeline d))"
    using assms(2) by (auto simp: onRebalance_def split: prod.splits)
  have "\<forall>offs \<in> set stored. offs = offsets_of (fst (onPartitionsRevoked ?ps (dv_pipeline d)))"
    using onRebalance_sent [of _ PartitionsRevoked partitions accepted "dv_pipeline d"] assms(2,3) by auto
  then have "inv ?d" by (intro delivery_inv_commit [OF assms(1), of _ ?ps]) blast
  then have "inv (?d\<lparr>dv_pipeline := pl\<rparr>)"
    by (rule quiet_inv) (use items_revoked in \<open>auto simp: pl intro: pipeline_step.Revoked [OF prod.collapse [symmetric]]\<close>)
  then show ?thesis by simp
qed

lemma committed_inv:
  assumes "inv d" "commitReady force now accepted (dv_pipeline d) lastCommit = (sent, pl, lastCommit')" "set stored \<subseteq> set sent"
  shows "inv (d\<lparr>dv_committed := apply_commits stored (dv_committed d), dv_pipeline := pl\<rparr>)"
proof -
  let ?d = "d\<lparr>dv_committed := apply_commits stored (dv_committed d)\<rparr>"
  have "\<forall>offs \<in> set stored. offs = offsets_of (pipeline_commitCandidates (dv_pipeline d))"
    using commitReady_sent [of _ force now accepted "dv_pipeline d" lastCommit] assms(2,3) by auto
  then have "inv ?d" by (intro delivery_inv_commit [OF assms(1), of _ "[]"]) blast
  moreover have "pipeline_history pl (dv_trace d)"
    using commitReady_pipeline [OF delivery_invD(4) [OF assms(1)], of force now accepted lastCommit] assms(2) by simp
  ultimately have "inv (?d\<lparr>dv_pipeline := pl\<rparr>)"
    using items_ready [OF assms(2)] by (intro quiet_inv) simp_all
  then show ?thesis by simp
qed

lemma restarted_inv:
  assumes "inv d"
  shows "inv (d\<lparr>dv_pipeline := ConsumerPipeline_create config, dv_trace := []\<rparr>)"
proof -
  have "\<not> isCurrent t (cl_registry (ConsumerPipeline_create config))" for t
    by (simp add: isCurrent_def ConsumerPipeline_create_def PartitionRegistry_init_def kv_find_def)
  with assms show ?thesis
    by (simp add: delivery_inv_def items_create pipeline_history.hist_init settled_def dealt_simps)
qed

lemma thrown_inv:
  assumes "inv d" "task_throws i (dv_pipeline d) = Some (evs, pl)"
  shows "inv (d\<lparr>dv_pipeline := pl, dv_trace := dv_trace d @ evs\<rparr>)"
proof -
  obtain item pc where throws: "i < length (wp_threads (cl_pool (dv_pipeline d)))"
    "activity (wp_threads (cl_pool (dv_pipeline d)) ! i) = Executing (item, pc)"
    "evs = [EvThrew (wi_ticket item)]" "pl = dv_pipeline d\<lparr>cl_pool := worker_run i None (cl_pool (dv_pipeline d))\<rparr>"
    using assms(2) by (auto simp: task_throws_def split: if_splits worker.splits)
  have "pipeline_items pl \<subseteq> pipeline_items (dv_pipeline d)"
    by (rule items_run(1) [OF throws(1,2), where r = "cl_registry (dv_pipeline d)" and nxt = None]) (simp_all add: throws(4))
  then show ?thesis
    using pipeline_step.Thrown [OF assms(2)] by (intro moved_inv [OF assms(1)]) (simp_all add: throws(3,4) settled_def)
qed

lemma step_inv:
  assumes "delivery_step handle env_ok others acceptable d d'" "inv d"
  shows "inv d'"
  using assms(1)
proof cases
  case (appended rec)
  then show ?thesis using appended_inv [OF assms(2)] by simp
next
  case (assigned partitions accepted sent pl)
  then show ?thesis using assigned_inv [OF assms(2) assigned(3)] by (simp add: onRebalance_def)
next
  case (revoked partitions accepted sent pl stored)
  then show ?thesis using revoked_inv [OF assms(2) revoked(2), of stored] by auto
next
  case (polled rec outcome pl)
  then show ?thesis using polled_inv [OF assms(2)] by simp
next
  case (pumped res pl)
  then show ?thesis
    using quiet_inv [OF assms(2), of pl] pipeline_step.Pumped items_pumped by (metis order_refl)
next
  case (committed force now accepted lastCommit sent pl lastCommit' stored)
  then show ?thesis using committed_inv [OF assms(2) committed(2), of stored] by auto
next
  case (taken i pool)
  then show ?thesis
    using quiet_inv [OF assms(2) _ items_taken [OF taken(2)]] pipeline_step.Taken [OF taken(2)] by simp
next
  case (executed i item pc env res db obs evs pl)
  then show ?thesis using executed_inv [OF assms(2) executed(2-6)] by simp
next
  case (thrown i evs pl)
  then show ?thesis using thrown_inv [OF assms(2)] by simp
next
  case (stopping pl i)
  then show ?thesis using stopping_inv [OF assms(2) stopping(2)] by simp
next
  case (restarted config)
  then show ?thesis using restarted_inv [OF assms(2)] by simp
next
  case (other db)
  then show ?thesis using others_inv [OF assms(2)] by simp
qed

lemma reachable_inv:
  assumes "(delivery_step handle env_ok others acceptable)\<^sup>*\<^sup>* (delivery_init config db) d" "db_ok db"
  shows "inv d"
  using assms(1) by (induction rule: rtranclp_induct) (auto intro: step_inv delivery_inv_init assms(2))

lemma committed_dealt:
  assumes "(delivery_step handle env_ok others acceptable)\<^sup>*\<^sup>* (delivery_init config db) d" "db_ok db"
    and "rec \<in> set (dv_log d)" "ir_offset rec < dv_committed d (ir_partition rec)"
  shows "db_ok (dv_db d) \<and> acceptable rec (dv_db d) \<and> dealt effect d rec"
  using delivery_invD(1,3,9) [OF reachable_inv [OF assms(1,2)]] assms(3,4) by blast

end

section \<open>Redelivery\<close>

text \<open>A restarted consumer with one partition and at most one record on its way: the tracker of the partition, what is in the backlog
  and in the queue, and what the first of its four workers does.\<close>

definition onePipeline :: "PartitionKey \<Rightarrow> OffsetTracker \<Rightarrow> WorkItem list \<Rightarrow> WorkItem list \<Rightarrow> (WorkItem \<times> exec_pc) worker \<Rightarrow> ConsumerPipeline" where
  "onePipeline p tracker backlog queue act =
     \<lparr>cl_registry = \<lparr>r_partitions = [(p, \<lparr>ps_generation = 1, ps_tracker = tracker\<rparr>)], r_lastGeneration = 1\<rparr>,
      cl_policy = RetryPolicy_default, cl_backlog = backlog,
      cl_pool = \<lparr>wp_queue = queue, wp_capacity = 64, wp_stopped = False,
                  wp_threads = Thread False act # replicate 3 (Thread False Waiting)\<rparr>\<rparr>"

definition oneTracker :: "int \<Rightarrow> bool \<Rightarrow> OffsetTracker" where
  "oneTracker off completed =
     \<lparr>t_entries = [\<lparr>e_offset = off, e_done = completed\<rparr>], t_prefixDone = of_bool completed, t_inFlight = of_bool (\<not> completed),
      t_lastRegistered = Some off, t_committed = None\<rparr>"

definition oneTicket :: "IncomingRecord \<Rightarrow> RecordTicket" where
  "oneTicket rec = \<lparr>rt_partition = ir_partition rec, rt_offset = ir_offset rec, rt_generation = 1\<rparr>"

definition oneItem :: "IncomingRecord \<Rightarrow> WorkItem" where
  "oneItem rec = workItem_of rec (oneTicket rec) (the (eventIdOf rec))"

lemmas one_defs = onePipeline_def oneTracker_def oneTicket_def oneItem_def workItem_of_def kv_find_def

lemma one_assigned:
  "onPartitionsAssigned [p] (ConsumerPipeline_create PipelineConfiguration_default) = onePipeline p OffsetTracker_init [] [] Waiting"
  by (simp add: onPartitionsAssigned_def ConsumerPipeline_create_def PipelineConfiguration_default_def PartitionRegistry_init_def
      WorkerPool_create_def one_defs numeral_eq_Suc)

lemma one_ingested:
  assumes "eventIdOf rec = Some i"
  shows "ingest rec (onePipeline (ir_partition rec) OffsetTracker_init [] [] Waiting) =
    (Backlogged (oneTicket rec), onePipeline (ir_partition rec) (oneTracker (ir_offset rec) False) [oneItem rec] [] Waiting)"
proof -
  have "OutboxEventId_create (case ir_eventId rec of None \<Rightarrow> [] | Some v \<Rightarrow> v) = Inr i"
    using assms by (auto simp: eventIdOf_def split: sum.splits)
  then show ?thesis
    using assms by (simp add: ingest_def registry_registerRecord_def registerRecord_def put_tracker_def transform_def OffsetTracker_init_def
        opt_holds_def one_defs)
qed

lemma one_pumped: "pump_turn (onePipeline p tracker [item] [] act) = (None, onePipeline p tracker [] [item] act)"
  by (simp add: pump_turn_def trySubmit_def one_defs)

lemma one_taken:
  "worker_take start_task 0 (cl_pool (onePipeline p tracker [] [item] Waiting)) =
     Some (cl_pool (onePipeline p tracker [] [] (Executing (item, AttemptTop 1))))"
  by (simp add: worker_take_def start_task_def one_defs)

text \<open>The three steps of an execution in which the handler answers \<open>true\<close>.\<close>

lemma one_completed:
  "registry_complete (oneTicket rec)
     \<lparr>r_partitions = [(ir_partition rec, \<lparr>ps_generation = 1, ps_tracker = oneTracker (ir_offset rec) False\<rparr>)], r_lastGeneration = 1\<rparr> =
   (Inr Applied,
     \<lparr>r_partitions = [(ir_partition rec, \<lparr>ps_generation = 1, ps_tracker = oneTracker (ir_offset rec) True\<rparr>)], r_lastGeneration = 1\<rparr>)"
  by (simp add: registry_complete_def OffsetTracker.complete_def put_tracker_def transform_def opt_holds_def size_dec_def lower_bound.simps
      advancePrefix.simps one_defs)

lemma one_executed:
  fixes rec :: IncomingRecord
  defines "pl \<equiv> \<lambda>completed act. onePipeline (ir_partition rec) (oneTracker (ir_offset rec) completed) [] [] act"
  shows "task_step 0 obs (pl False (Executing (oneItem rec, AttemptTop 1))) = Some ([], pl False (Executing (oneItem rec, Invoking 1)))"
    and "obs_handler obs = Returned True \<Longrightarrow>
      task_step 0 obs (pl False (Executing (oneItem rec, Invoking 1))) =
        Some ([EvHandled (oneTicket rec)], pl False (Executing (oneItem rec, Finishing Succeeded)))"
    and "task_step 0 obs (pl False (Executing (oneItem rec, Finishing Succeeded))) = Some ([EvCompleted (oneTicket rec)], pl True Waiting)"
proof -
  have ticket: "wi_ticket (oneItem rec) = oneTicket rec" by (simp add: oneItem_def workItem_of_def)
  have current: "isCurrent (oneTicket rec) (cl_registry (pl False act))" for act by (simp add: pl_def isCurrent_def one_defs)
  show "task_step 0 obs (pl False (Executing (oneItem rec, AttemptTop 1))) = Some ([], pl False (Executing (oneItem rec, Invoking 1)))"
    using current [of "Executing (oneItem rec, AttemptTop 1)"] ticket
    by (simp add: task_step_def pl_def onePipeline_def worker_run_def shouldAbandon_def effectiveMaxAttempts_def)
  show "obs_handler obs = Returned True \<Longrightarrow>
      task_step 0 obs (pl False (Executing (oneItem rec, Invoking 1))) =
        Some ([EvHandled (oneTicket rec)], pl False (Executing (oneItem rec, Finishing Succeeded)))"
    using ticket by (simp add: task_step_def pl_def onePipeline_def worker_run_def invokeHandler_def action_events_def)
  show "task_step 0 obs (pl False (Executing (oneItem rec, Finishing Succeeded))) = Some ([EvCompleted (oneTicket rec)], pl True Waiting)"
    using ticket one_completed
    by (simp add: task_step_def pl_def onePipeline_def worker_run_def finish_def action_events_def completion_events_def)
qed

lemma one_ready:
  assumes "legalOffset off"
  shows "fst (commitReady True now True (onePipeline p (oneTracker off True) [] [] Waiting) lastCommit) = [[(p, off + 1)]]"
proof -
  have "wrap_i64 (off + 1) = off + 1" using assms by (intro wrap_i64_id) (simp add: legalOffset_def in_i64_def)
  then show ?thesis
    by (simp add: commitReady_def pipeline_commitCandidates_def commitCandidates_def List.map_filter_def position_of_def commitCandidate_def
        commitOffsets_def offsets_of_def one_defs)
qed

text \<open>One step of the worker, as a step of the consumer.\<close>

lemma one_step:
  assumes "dv_pipeline d = onePipeline p tracker [] [] (Executing (item, pc))"
    and "(\<exists>attempt. pc = Invoking attempt) \<longrightarrow> env_ok (wi_payload item) env (dv_db d)"
    and "handler_call handle item pc env (dv_db d) = (res, db)"
    and "task_step 0 \<lparr>obs_stop = False, obs_handler = res, obs_sent = Inr ()\<rparr> (dv_pipeline d) = Some (evs, pl)"
    and "EvDeadLettered (wi_ticket item) \<notin> set evs"
  shows "delivery_step handle env_ok others acceptable d (d\<lparr>dv_pipeline := pl, dv_trace := dv_trace d @ evs, dv_db := db\<rparr>)"
proof -
  have "0 < length (wp_threads (cl_pool (dv_pipeline d)))" "activity (wp_threads (cl_pool (dv_pipeline d)) ! 0) = Executing (item, pc)"
    by (simp_all add: assms(1) onePipeline_def)
  from delivery_step.executed [where handle = handle and env_ok = env_ok and env = env and others = others and acceptable = acceptable
      and obs = "\<lparr>obs_stop = False, obs_handler = res, obs_sent = Inr ()\<rparr>", OF this assms(2,3)] assms(4,5)
  show ?thesis by (simp add: stored_letters_def)
qed

lemma one_execution:
  assumes "dv_pipeline d = onePipeline (ir_partition rec) (oneTracker (ir_offset rec) False) [] [] (Executing (oneItem rec, AttemptTop 1))"
    and "env_ok (ir_payload rec) env (dv_db d)" "eventIdOf rec = Some i"
    and "handle (ir_payload rec) \<lparr>mm_eventId = i, mm_eventType = ir_eventType rec\<rparr> env (dv_db d) = (Returned True, db)"
  shows "\<exists>d'. (delivery_step handle env_ok others acceptable)\<^sup>*\<^sup>* d d' \<and> dv_log d' = dv_log d \<and> dv_committed d' = dv_committed d \<and>
    dv_deadLetters d' = dv_deadLetters d \<and> dv_db d' = db \<and>
    dv_pipeline d' = onePipeline (ir_partition rec) (oneTracker (ir_offset rec) True) [] [] Waiting"
proof -
  let ?step = "delivery_step handle env_ok others acceptable"
  let ?pl = "\<lambda>completed act. onePipeline (ir_partition rec) (oneTracker (ir_offset rec) completed) [] [] act"
  let ?p = "ir_partition rec" and ?tracker = "oneTracker (ir_offset rec) False"
  let ?obs = "\<lambda>res. \<lparr>obs_stop = False, obs_handler = res, obs_sent = Inr ()\<rparr>"
  have item: "wi_payload (oneItem rec) = ir_payload rec" "wi_metadata (oneItem rec) = \<lparr>mm_eventId = i, mm_eventType = ir_eventType rec\<rparr>"
    using assms(3) by (simp_all add: oneItem_def workItem_of_def)
  let ?d1 = "d\<lparr>dv_pipeline := ?pl False (Executing (oneItem rec, Invoking 1)), dv_trace := dv_trace d @ [], dv_db := dv_db d\<rparr>"
  let ?d2 = "?d1\<lparr>dv_pipeline := ?pl False (Executing (oneItem rec, Finishing Succeeded)),
      dv_trace := dv_trace ?d1 @ [EvHandled (oneTicket rec)], dv_db := db\<rparr>"
  let ?d3 = "?d2\<lparr>dv_pipeline := ?pl True Waiting, dv_trace := dv_trace ?d2 @ [EvCompleted (oneTicket rec)], dv_db := db\<rparr>"
  have "?step d ?d1"
    by (rule one_step [where env = env, OF assms(1)]) (simp_all add: handler_call_def assms(1) one_executed(1))
  moreover have "?step ?d1 ?d2"
    by (rule one_step [where env = env and pc = "Invoking 1" and res = "Returned True" and item = "oneItem rec"])
      (simp_all add: handler_call_def assms(2,4) item one_executed(2))
  moreover have "?step ?d2 ?d3"
    by (rule one_step [where env = env and pc = "Finishing Succeeded" and res = Threw and item = "oneItem rec"])
      (simp_all add: handler_call_def one_executed(3))
  ultimately have "?step\<^sup>*\<^sup>* d ?d3" by (meson rtranclp.rtrancl_into_rtrancl rtranclp.rtrancl_refl)
  then show ?thesis by (intro exI [of _ ?d3]) simp
qed

text \<open>The first record of a partition that is not committed. A restarted consumer reads it again, the handler is called with it, and when it
  answers \<open>true\<close> the next commit passes it: whatever happened before, and without anybody else doing anything.\<close>

definition first_uncommitted :: "IncomingRecord \<Rightarrow> 'db consumer_state \<Rightarrow> bool" where
  "first_uncommitted rec d \<longleftrightarrow>
     rec \<in> set (dv_log d) \<and> dv_committed d (ir_partition rec) \<le> ir_offset rec \<and>
     list_all (\<lambda>r. ir_partition r = ir_partition rec \<and> dv_committed d (ir_partition rec) \<le> ir_offset r \<longrightarrow> ir_offset rec \<le> ir_offset r)
       (dv_log d)"

lemma restarted_reads:
  assumes "first_uncommitted rec d" "eventIdOf rec = Some i"
  shows "\<exists>d'. (delivery_step handle env_ok others acceptable)\<^sup>*\<^sup>* d d' \<and> dv_log d' = dv_log d \<and> dv_committed d' = dv_committed d \<and>
    dv_deadLetters d' = dv_deadLetters d \<and> dv_db d' = dv_db d \<and>
    dv_pipeline d' = onePipeline (ir_partition rec) (oneTracker (ir_offset rec) False) [] [] (Executing (oneItem rec, AttemptTop 1))"
proof -
  let ?step = "delivery_step handle env_ok others acceptable"
  let ?p = "ir_partition rec" and ?tracker = "oneTracker (ir_offset rec) False"
  let ?tp = "[(topic ?p, partition ?p)]"
  have keys: "toKeys ?tp = [?p]" by (simp add: toKeys_def)
  let ?d1 = "d\<lparr>dv_pipeline := ConsumerPipeline_create PipelineConfiguration_default, dv_trace := []\<rparr>"
  let ?d2 = "?d1\<lparr>dv_pipeline := onePipeline ?p OffsetTracker_init [] [] Waiting,
      dv_position := (\<lambda>p. if p \<in> set (toKeys ?tp) then dv_committed ?d1 p else dv_position ?d1 p)\<rparr>"
  let ?d3 = "?d2\<lparr>dv_pipeline := onePipeline ?p ?tracker [oneItem rec] [] Waiting,
      dv_trace := dv_trace ?d2 @ ingest_events (Backlogged (oneTicket rec)),
      dv_position := (dv_position ?d2)(?p := ir_offset rec + 1)\<rparr>"
  let ?d4 = "?d3\<lparr>dv_pipeline := onePipeline ?p ?tracker [] [oneItem rec] Waiting\<rparr>"
  let ?d5 = "?d4\<lparr>dv_pipeline := onePipeline ?p ?tracker [] [] (Executing (oneItem rec, AttemptTop 1))\<rparr>"
  have "?step d ?d1" by (rule delivery_step.restarted)
  moreover have "?step ?d1 ?d2"
    using delivery_step.assigned [of ?tp True ?d1 "[]" "onePipeline ?p OffsetTracker_init [] [] Waiting"] one_assigned [of ?p]
    by (simp add: onRebalance_def keys no_generation_wrap_def ConsumerPipeline_create_def PartitionRegistry_init_def)
  moreover have "?step ?d2 ?d3"
  proof (rule delivery_step.polled)
    show "isAssigned (ir_partition rec) (cl_registry (dv_pipeline ?d2))" by (simp add: isAssigned_def onePipeline_def kv_find_def)
    show "next_record rec ?d2" using assms(1) by (simp add: next_record_def first_uncommitted_def keys)
  qed (simp add: one_ingested [OF assms(2)])
  moreover have "?step ?d3 ?d4" by (rule delivery_step.pumped [where res = None]) (simp add: one_pumped)
  moreover have "?step ?d4 ?d5"
  proof -
    let ?pool = "cl_pool (onePipeline ?p ?tracker [] [] (Executing (oneItem rec, AttemptTop 1)))"
    have "?step ?d4 (?d4\<lparr>dv_pipeline := dv_pipeline ?d4\<lparr>cl_pool := ?pool\<rparr>\<rparr>)"
      by (rule delivery_step.taken [where i = 0]) (simp add: one_taken)
    moreover have "dv_pipeline ?d4\<lparr>cl_pool := ?pool\<rparr> = dv_pipeline ?d5" by (simp add: onePipeline_def)
    ultimately show ?thesis by simp
  qed
  ultimately have "?step\<^sup>*\<^sup>* d ?d5" by (meson rtranclp.rtrancl_into_rtrancl rtranclp.rtrancl_refl)
  then show ?thesis by (intro exI [of _ ?d5]) simp
qed

lemma redelivers:
  assumes "first_uncommitted rec d" "eventIdOf rec = Some i" "legalOffset (ir_offset rec)" "env_ok (ir_payload rec) env (dv_db d)"
    and "handle (ir_payload rec) \<lparr>mm_eventId = i, mm_eventType = ir_eventType rec\<rparr> env (dv_db d) = (Returned True, db)"
  shows "\<exists>d'. (delivery_step handle env_ok others acceptable)\<^sup>*\<^sup>* d d' \<and> dv_log d' = dv_log d \<and> dv_deadLetters d' = dv_deadLetters d \<and>
    dv_db d' = db \<and> dv_committed d' (ir_partition rec) = ir_offset rec + 1"
proof -
  let ?step = "delivery_step handle env_ok others acceptable"
  let ?p = "ir_partition rec"
  obtain d1 where d1: "?step\<^sup>*\<^sup>* d d1" "dv_log d1 = dv_log d" "dv_deadLetters d1 = dv_deadLetters d" "dv_db d1 = dv_db d"
      "dv_pipeline d1 = onePipeline ?p (oneTracker (ir_offset rec) False) [] [] (Executing (oneItem rec, AttemptTop 1))"
    using restarted_reads [where handle = handle and env_ok = env_ok and others = others and acceptable = acceptable, OF assms(1,2)] by blast
  obtain d2 where d2: "?step\<^sup>*\<^sup>* d1 d2" "dv_log d2 = dv_log d1" "dv_deadLetters d2 = dv_deadLetters d1" "dv_db d2 = db"
      "dv_pipeline d2 = onePipeline ?p (oneTracker (ir_offset rec) True) [] [] Waiting"
    using one_execution [where handle = handle and env_ok = env_ok and others = others and acceptable = acceptable, OF d1(5) _ assms(2)]
      assms(4,5) d1(4) by metis
  obtain pl now where ready: "commitReady True 0 True (dv_pipeline d2) 0 = ([[(?p, ir_offset rec + 1)]], pl, now)"
    using one_ready [OF assms(3), of 0 ?p 0] d2(5) by (metis prod.collapse)
  let ?d3 = "d2\<lparr>dv_committed := apply_commits [[(?p, ir_offset rec + 1)]] (dv_committed d2), dv_pipeline := pl\<rparr>"
  have "?step d2 ?d3" using delivery_step.committed [OF ready, of "[[(?p, ir_offset rec + 1)]]"] by simp
  with d1(1) d2(1) have "?step\<^sup>*\<^sup>* d ?d3" by (meson rtranclp.rtrancl_into_rtrancl rtranclp_trans)
  then show ?thesis using d1 d2 by (intro exI [of _ ?d3]) (simp add: apply_commits_def kv_find_def)
qed

section \<open>A run\<close>

text \<open>A record is stored, read, handled and committed.\<close>

definition sampleIncoming :: "string \<Rightarrow> string \<Rightarrow> string \<Rightarrow> IncomingRecord" where
  "sampleIncoming t payload eventType =
     \<lparr>ir_partition = PartitionKey t 0, ir_offset = 7, ir_payload = payload,
      ir_eventId = Some ''00000000-0000-4000-8000-000000000001'', ir_eventType = eventType\<rparr>"

definition deliveredMetadata :: "string \<Rightarrow> MessageMetadata" where
  "deliveredMetadata eventType = \<lparr>mm_eventId = OutboxEventId ''00000000-0000-4000-8000-000000000001'', mm_eventType = eventType\<rparr>"

lemma sampleIncoming_id: "eventIdOf (sampleIncoming t payload eventType) = Some (OutboxEventId ''00000000-0000-4000-8000-000000000001'')"
proof -
  have "isValidUuid ''00000000-0000-4000-8000-000000000001''" by code_simp
  then show ?thesis by (simp add: eventIdOf_def sampleIncoming_def OutboxEventId_create_def StrongID_create_valid)
qed

lemma sample_appended:
  fixes config :: PipelineConfiguration
  assumes "others db0 db" "acceptable (sampleIncoming t payload eventType) db"
  defines "d \<equiv> (delivery_init config db0)\<lparr>dv_db := db, dv_log := [sampleIncoming t payload eventType]\<rparr>"
  shows "(delivery_step handle env_ok others acceptable)\<^sup>*\<^sup>* (delivery_init config db0) d"
    and "first_uncommitted (sampleIncoming t payload eventType) d"
proof -
  let ?step = "delivery_step handle env_ok others acceptable"
  let ?d1 = "(delivery_init config db0)\<lparr>dv_db := db\<rparr>"
  have "?step (delivery_init config db0) ?d1" by (rule delivery_step.other) (simp add: delivery_init_def assms(1))
  moreover have "?step ?d1 d"
    using delivery_step.appended [of acceptable "sampleIncoming t payload eventType" ?d1] assms(2)
    by (simp add: d_def delivery_init_def sampleIncoming_def legalOffset_def int_limits)
  ultimately show "?step\<^sup>*\<^sup>* (delivery_init config db0) d" by (meson rtranclp.rtrancl_into_rtrancl rtranclp.rtrancl_refl)
  show "first_uncommitted (sampleIncoming t payload eventType) d"
    by (simp add: first_uncommitted_def d_def delivery_init_def sampleIncoming_def)
qed

lemma sample_delivery:
  assumes "others db0 db" "acceptable (sampleIncoming t payload eventType) db" "env_ok payload env db"
    and "handle payload (deliveredMetadata eventType) env db = (Returned True, db')"
  shows "\<exists>d. (delivery_step handle env_ok others acceptable)\<^sup>*\<^sup>* (delivery_init config db0) d \<and>
    sampleIncoming t payload eventType \<in> set (dv_log d) \<and> dv_committed d (PartitionKey t 0) = 8 \<and> dv_db d = db' \<and> dv_deadLetters d = []"
proof -
  let ?rec = "sampleIncoming t payload eventType"
  let ?d = "(delivery_init config db0)\<lparr>dv_db := db, dv_log := [?rec]\<rparr>"
  have appended: "(delivery_step handle env_ok others acceptable)\<^sup>*\<^sup>* (delivery_init config db0) ?d" "first_uncommitted ?rec ?d"
    using sample_appended [where others = others and acceptable = acceptable and config = config, OF assms(1,2)] by blast+
  have "legalOffset (ir_offset ?rec)" by (simp add: sampleIncoming_def legalOffset_def int_limits)
  from redelivers [where handle = handle and env_ok = env_ok and others = others and acceptable = acceptable and env = env and db = db',
      OF appended(2) sampleIncoming_id this] assms(3,4)
  obtain d where d: "(delivery_step handle env_ok others acceptable)\<^sup>*\<^sup>* ?d d" "dv_log d = [?rec]" "dv_deadLetters d = []" "dv_db d = db'"
      "dv_committed d (PartitionKey t 0) = 8"
    by (auto simp: sampleIncoming_def deliveredMetadata_def delivery_init_def)
  from rtranclp_trans [OF appended(1) d(1)] d(2-5) show ?thesis by (intro exI [of _ d]) simp
qed

end
