(* ===== verification/Decimal.thy ===== *)
theory Decimal
  imports Prelude
begin

text \<open>Decimal notation, as \<open>std::to_string\<close> writes it and \<open>std::stoi\<close> reads it.\<close>

definition isDigit :: "char \<Rightarrow> bool" where
  "isDigit c \<longleftrightarrow> CHR ''0'' \<le> c \<and> c \<le> CHR ''9''"

definition digitChar :: "nat \<Rightarrow> char" where
  "digitChar d = char_of (48 + d)"

definition digitValue :: "char \<Rightarrow> nat" where
  "digitValue c = of_char c - 48"

fun digits :: "nat \<Rightarrow> string" where
  "digits n = (if n < 10 then [digitChar n] else digits (n div 10) @ [digitChar (n mod 10)])"

declare digits.simps [simp del]

definition decimalValue :: "string \<Rightarrow> nat" where
  "decimalValue s = foldl (\<lambda>a c. 10 * a + digitValue c) 0 s"

definition to_string :: "int \<Rightarrow> string" where
  "to_string n = (if n < 0 then CHR ''-'' # digits (nat (- n)) else digits (nat n))"

lemma digitChar_simps [simp]:
  assumes "d < 10"
  shows "digitValue (digitChar d) = d" and "isDigit (digitChar d)"
  using assms by (auto simp: digitValue_def digitChar_def isDigit_def less_eq_char_def)

lemma digits_ne [simp]: "digits n \<noteq> []"
  by (subst digits.simps) simp

lemma digits_all: "list_all isDigit (digits n)"
  by (induction n rule: digits.induct) (subst digits.simps, simp)

lemma decimalValue_snoc: "decimalValue (s @ [c]) = 10 * decimalValue s + digitValue c"
  by (simp add: decimalValue_def)

lemma decimalValue_digits [simp]: "decimalValue (digits n) = n"
proof (induction n rule: digits.induct)
  case (1 n)
  show ?case
  proof (cases "n < 10")
    case True
    then show ?thesis by (subst digits.simps) (simp add: decimalValue_def)
  next
    case False
    with 1 show ?thesis by (subst digits.simps) (simp add: decimalValue_snoc)
  qed
qed

lemma takeWhile_digits:
  assumes "rest = [] \<or> \<not> isDigit (hd rest)"
  shows "takeWhile isDigit (digits n @ rest) = digits n" and "dropWhile isDigit (digits n @ rest) = rest"
proof -
  have all: "\<And>c. c \<in> set (digits n) \<Longrightarrow> isDigit c" using digits_all [of n] by (simp add: list_all_iff)
  have "takeWhile isDigit rest = [] \<and> dropWhile isDigit rest = rest" using assms by (cases rest) auto
  then show "takeWhile isDigit (digits n @ rest) = digits n" "dropWhile isDigit (digits n @ rest) = rest"
    using all by (simp_all add: takeWhile_append2 dropWhile_append2)
qed

lemma hd_digits: "isDigit (hd (digits n))"
  using digits_all [of n] by (cases "digits n") auto

end
