(* ===== verification/Sql.thy ===== *)
theory Sql
  imports ErrorCodes Decimal
begin

text \<open>
  Transactions of libpqxx as the repositories use them, and
  \<open>shared/repository/postgres/PqxxExceptionMapper.h\<close>. The database server is not part of the sources;
  its prepared statements are, and each is a function on the tables of the migrations. What the server
  and the connection do besides is the environment \<open>tx_env\<close>: which statement fails with which
  exception, the UUIDs that \<open>gen_random_uuid\<close> makes, the outcome of the commit. A transaction works
  on its own copy of the tables, which replaces them at the commit: transactions are atomic and
  serialised.
\<close>

datatype pqxx_exception =
    broken_connection
  | unique_violation
  | foreign_key_violation
  | check_violation
  | in_doubt_error
  | other_exception

definition mapPqxxException :: "pqxx_exception \<Rightarrow> error_code" where
  "mapPqxxException e =
     (if e = broken_connection then make_RepositoryError RepositoryError.ConnectionFailure
      else if e = unique_violation \<or> e = foreign_key_violation \<or> e = check_violation
      then make_RepositoryError RepositoryError.ConstraintViolation
      else if e = in_doubt_error then make_RepositoryError RepositoryError.Timeout
      else make_RepositoryError RepositoryError.SerializationFailure)"

section \<open>Transactions\<close>

text \<open>
  A commit succeeds, fails and leaves the tables as they were, or fails while it is not known whether
  the server applied it (\<open>in_doubt_error\<close>): then both are possible.
\<close>

datatype commit_result = Committed | CommitFailed pqxx_exception | CommitInDoubt bool

text \<open>Statement \<open>k\<close> of a transaction (0 opens it) throws \<open>tx_fault k\<close>, if that is an exception; \<open>tx_uuid n\<close> is
  the \<open>n\<close>-th UUID that the transaction makes the server generate.\<close>

record tx_env =
  tx_fault :: "nat \<Rightarrow> pqxx_exception option"
  tx_uuid :: "nat \<Rightarrow> string"
  tx_commit :: commit_result

definition no_faults :: "(nat \<Rightarrow> string) \<Rightarrow> tx_env" where
  "no_faults uuid = \<lparr>tx_fault = (\<lambda>_. None), tx_uuid = uuid, tx_commit = Committed\<rparr>"

type_synonym ('d, 'a) tx = "tx_env \<Rightarrow> nat \<times> 'd \<Rightarrow> pqxx_exception + 'a \<times> nat \<times> 'd"

definition tx_return :: "'a \<Rightarrow> ('d, 'a) tx" where
  "tx_return a env s = Inr (a, s)"

definition tx_bind :: "('d, 'a) tx \<Rightarrow> ('a \<Rightarrow> ('d, 'b) tx) \<Rightarrow> ('d, 'b) tx" where
  "tx_bind m f env s = (case m env s of Inl e \<Rightarrow> Inl e | Inr (a, s') \<Rightarrow> f a env s')"

text \<open>\<open>work.exec\<close> of a prepared statement.\<close>

definition tx_exec :: "(tx_env \<Rightarrow> 'd \<Rightarrow> pqxx_exception + 'a \<times> 'd) \<Rightarrow> ('d, 'a) tx" where
  "tx_exec stmt env s =
     (case s of (k, d) \<Rightarrow>
        case tx_fault env k of
          Some e \<Rightarrow> Inl e
        | None \<Rightarrow> (case stmt env d of Inl e \<Rightarrow> Inl e | Inr (a, d') \<Rightarrow> Inr (a, k + 1, d')))"

fun tx_for_each :: "('x \<Rightarrow> ('d, 'a) tx) \<Rightarrow> 'x list \<Rightarrow> ('d, unit) tx" where
  "tx_for_each f [] = tx_return ()"
| "tx_for_each f (x # xs) = tx_bind (f x) (\<lambda>_. tx_for_each f xs)"

text \<open>How the body of a transaction ends: with a commit, or without one (\<open>abort\<close>, or the destructor of
  the transaction at an early return).\<close>

datatype 'a tx_end = Commit 'a | Rollback 'a

definition run_tx :: "('d, 'a expected tx_end) tx \<Rightarrow> tx_env \<Rightarrow> 'd \<Rightarrow> 'a expected \<times> 'd" where
  "run_tx body env d =
     (case tx_fault env 0 of
        Some e \<Rightarrow> (Inl (mapPqxxException e), d)
      | None \<Rightarrow>
          (case body env (1, d) of
             Inl e \<Rightarrow> (Inl (mapPqxxException e), d)
           | Inr (Rollback a, _, _) \<Rightarrow> (a, d)
           | Inr (Commit a, _, d') \<Rightarrow>
               (case tx_commit env of
                  Committed \<Rightarrow> (a, d')
                | CommitFailed e \<Rightarrow> (Inl (mapPqxxException e), d)
                | CommitInDoubt applied \<Rightarrow> (Inl (mapPqxxException in_doubt_error), if applied then d' else d))))"

section \<open>Lemmas\<close>

lemma tx_bind_Inr:
  "tx_bind m f env s = Inr r \<longleftrightarrow> (\<exists>a s'. m env s = Inr (a, s') \<and> f a env s' = Inr r)"
  by (auto simp: tx_bind_def split: sum.splits)

lemma tx_return_Inr [simp]: "tx_return a env s = Inr r \<longleftrightarrow> r = (a, s)"
  by (auto simp: tx_return_def)

lemma tx_exec_Inr:
  "tx_exec stmt env (k, d) = Inr (a, k', d') \<longleftrightarrow>
     tx_fault env k = None \<and> stmt env d = Inr (a, d') \<and> k' = k + 1"
  by (auto simp: tx_exec_def split: option.splits sum.splits)

text \<open>What a transaction leaves: the tables as they were, or those of a body that ran to its commit.\<close>

lemma run_tx_cases:
  assumes "run_tx body env d = (res, d')"
  obtains (unchanged) "d' = d"
  | (committed) a k where "body env (1, d) = Inr (Commit a, k, d')" "res = a" "tx_commit env = Committed"
  | (in_doubt) a k where "body env (1, d) = Inr (Commit a, k, d')"
      "res = Inl (make_RepositoryError RepositoryError.Timeout)" "tx_commit env = CommitInDoubt True"
  using assms
  by (auto simp: run_tx_def mapPqxxException_def split: option.splits sum.splits tx_end.splits commit_result.splits if_splits)

text \<open>A failure is reported as such: a result without error comes from a commit or a rollback of the
  body's own choice.\<close>

lemma run_tx_Inr:
  assumes "run_tx body env d = (Inr r, d')"
  shows "(\<exists>k. body env (1, d) = Inr (Commit (Inr r), k, d') \<and> tx_commit env = Committed) \<or>
    (\<exists>k d''. body env (1, d) = Inr (Rollback (Inr r), k, d'') \<and> d' = d)"
  using assms by (auto simp: run_tx_def split: option.splits sum.splits tx_end.splits commit_result.splits)

lemma run_tx_ok:
  assumes "tx_fault env 0 = None" "body env (1, d) = Inr (Commit a, k, d')" "tx_commit env = Committed"
  shows "run_tx body env d = (a, d')"
  using assms by (simp add: run_tx_def)

section \<open>Columns\<close>

text \<open>The server prints a UUID in lower case, whatever case it was given in.\<close>

definition lower_char :: "char \<Rightarrow> char" where
  "lower_char c = (if CHR ''A'' \<le> c \<and> c \<le> CHR ''Z'' then char_of (of_char c + 32 :: nat) else c)"

definition pg_uuid :: "string \<Rightarrow> string" where
  "pg_uuid v = map lower_char v"

text \<open>A number passed as text.\<close>

definition pg_int :: "string \<Rightarrow> int" where
  "pg_int s = (case s of c # t \<Rightarrow> if c = CHR ''-'' then - int (decimalValue t) else int (decimalValue s) | [] \<Rightarrow> 0)"

lemma pg_int_to_string [simp]: "pg_int (to_string n) = n"
proof (cases "n < 0")
  case False
  obtain c s where cs: "digits (nat n) = c # s" by (cases "digits (nat n)") auto
  then have "c \<noteq> CHR ''-''" using hd_digits [of "nat n"] by (auto simp: isDigit_def)
  with False cs decimalValue_digits [of "nat n"] show ?thesis by (simp add: pg_int_def to_string_def)
qed (simp add: pg_int_def to_string_def)

lemma lower_char_idem [simp]: "lower_char (lower_char c) = lower_char c"
  by (auto simp: lower_char_def less_eq_char_def)

lemma pg_uuid_idem [simp]: "pg_uuid (pg_uuid v) = pg_uuid v"
  by (simp add: pg_uuid_def)

end
