(* ===== verification/OutboxTable.thy ===== *)
theory OutboxTable
  imports Sql Ids
begin

text \<open>
  The table \<open>outbox\<close> of the migrations, the same in the databases of the order service and of the
  worker: rows in the order they were created in. \<open>jsonb\<close> is what the server makes of a JSON text that
  it stores in a column of that type and prints again.
\<close>

record outbox_row =
  ob_id :: string
  ob_aggregate_id :: string
  ob_event_type :: string
  ob_payload :: string
  ob_published :: bool

text \<open>\<open>INSERT INTO outbox (aggregate_id, event_type, payload) VALUES ($1, $2, $3::jsonb)\<close>: the id is a
  new UUID, the row is not published.\<close>

definition INSERT_OUTBOX_EVENT ::
  "(string \<Rightarrow> string) \<Rightarrow> string \<Rightarrow> string \<Rightarrow> string \<Rightarrow> string \<Rightarrow> outbox_row list \<Rightarrow> pqxx_exception + outbox_row list" where
  "INSERT_OUTBOX_EVENT jsonb uuid aggregateId eventType payload rows =
     (if pg_uuid uuid \<in> ob_id ` set rows then Inl unique_violation
      else Inr (rows @ [\<lparr>ob_id = pg_uuid uuid, ob_aggregate_id = pg_uuid aggregateId, ob_event_type = eventType,
                         ob_payload = jsonb payload, ob_published = False\<rparr>]))"

text \<open>
  \<open>SELECT ... WHERE published = FALSE ORDER BY created_at LIMIT $1 FOR UPDATE SKIP LOCKED\<close>: rows that
  another transaction holds a lock on (\<open>locked\<close>) are passed over. A negative limit is an error.
\<close>

definition SELECT_UNPUBLISHED_OUTBOX ::
  "(string \<Rightarrow> bool) \<Rightarrow> int \<Rightarrow> outbox_row list \<Rightarrow> pqxx_exception + outbox_row list" where
  "SELECT_UNPUBLISHED_OUTBOX locked limit rows =
     (if limit < 0 then Inl other_exception
      else Inr (take (nat limit) (filter (\<lambda>row. \<not> ob_published row \<and> \<not> locked (ob_id row)) rows)))"

text \<open>\<open>UPDATE outbox SET published = TRUE ... WHERE id = $1\<close>: the number of rows changed, and the rows.\<close>

definition MARK_OUTBOX_PUBLISHED :: "string \<Rightarrow> outbox_row list \<Rightarrow> nat \<times> outbox_row list" where
  "MARK_OUTBOX_PUBLISHED i rows =
     (length (filter (\<lambda>row. ob_id row = pg_uuid i) rows),
      map (\<lambda>row. if ob_id row = pg_uuid i then row\<lparr>ob_published := True\<rparr> else row) rows)"

text \<open>What holds of every table: different ids, printed by the server.\<close>

definition outbox_ok :: "outbox_row list \<Rightarrow> bool" where
  "outbox_ok rows \<longleftrightarrow>
     distinct (map ob_id rows) \<and> list_all (\<lambda>i. isValidUuid i \<and> pg_uuid i = i) (map ob_id rows)"

lemma lower_hex: "isHexDigit c \<Longrightarrow> isHexDigit (lower_char c)"
proof (cases "CHR ''A'' \<le> c \<and> c \<le> CHR ''Z''")
  case True
  assume "isHexDigit c"
  then have "65 \<le> (of_char c :: nat)" "(of_char c :: nat) \<le> 70"
    using True by (auto simp: isHexDigit_def less_eq_char_def)
  then have "97 \<le> (of_char (lower_char c) :: nat)" "(of_char (lower_char c) :: nat) \<le> 102"
    using True by (simp_all add: lower_char_def)
  then show ?thesis by (simp add: isHexDigit_def less_eq_char_def)
next
  case False
  assume hex: "isHexDigit c"
  have "lower_char c = c" using False unfolding lower_char_def by (rule if_not_P)
  with hex show ?thesis by simp
qed

lemma isValidUuid_pg: "isValidUuid v \<Longrightarrow> isValidUuid (pg_uuid v)"
proof -
  have dash: "lower_char (CHR ''-'') = CHR ''-''" by (simp add: lower_char_def less_eq_char_def)
  have "list_all2 uuidFits t v \<Longrightarrow> list_all2 uuidFits t (pg_uuid v)" for t
    unfolding pg_uuid_def
    by (induction rule: list_all2_induct) (auto simp: uuidFits_if lower_hex dash)
  then show "isValidUuid v \<Longrightarrow> ?thesis" unfolding isValidUuid_def matchHexRuns_template by blast
qed

lemma INSERT_OUTBOX_ok:
  "outbox_ok rows \<Longrightarrow> isValidUuid uuid \<Longrightarrow> INSERT_OUTBOX_EVENT jsonb uuid a t p rows = Inr rows' \<Longrightarrow> outbox_ok rows'"
  by (auto simp: outbox_ok_def INSERT_OUTBOX_EVENT_def isValidUuid_pg split: if_splits)

lemma MARK_OUTBOX_ok: "outbox_ok rows \<Longrightarrow> outbox_ok (snd (MARK_OUTBOX_PUBLISHED i rows))"
proof -
  have "map ob_id (snd (MARK_OUTBOX_PUBLISHED i rows)) = map ob_id rows"
    by (simp add: MARK_OUTBOX_PUBLISHED_def)
  then show "outbox_ok rows \<Longrightarrow> ?thesis"
    unfolding outbox_ok_def by (simp only:)
qed

end
