(* ===== verification/Json.thy ===== *)
theory Json
  imports ErrorCodes
begin

text \<open>
  \<open>shared/json/Json.h\<close> and \<open>Json.cpp\<close>, over the library nlohmann::json. The library is not part of the
  sources: it is a record of its operations, a parameter of everything that reads or writes JSON, and
  the locale \<open>json_laws\<close> states what the documentation of the library promises of them.
\<close>

text \<open>The exceptions that the sources tell apart.\<close>

datatype json_exception = OutOfRange | TypeError | ParseError | OtherException

text \<open>
  \<open>at\<close>, \<open>get<T>\<close> for the types used, \<open>is_array\<close> and iteration; the null value of a default-constructed
  \<open>json\<close>, \<open>json[key] = value\<close>, the conversions to JSON; \<open>parse\<close> and \<open>dump\<close>.
\<close>

record 'j json_lib =
  jl_at :: "'j \<Rightarrow> string \<Rightarrow> json_exception + 'j"
  jl_get_string :: "'j \<Rightarrow> json_exception + string"
  jl_get_i8 :: "'j \<Rightarrow> json_exception + int"
  jl_get_i32 :: "'j \<Rightarrow> json_exception + int"
  jl_get_i64 :: "'j \<Rightarrow> json_exception + int"
  jl_get_u16 :: "'j \<Rightarrow> json_exception + int"
  jl_get_bool :: "'j \<Rightarrow> json_exception + bool"
  jl_is_array :: "'j \<Rightarrow> bool"
  jl_elements :: "'j \<Rightarrow> 'j list"
  jl_null :: "'j"
  jl_set :: "string \<Rightarrow> 'j \<Rightarrow> 'j \<Rightarrow> 'j"
  jl_of_string :: "string \<Rightarrow> 'j"
  jl_of_int :: "int \<Rightarrow> 'j"
  jl_of_bool :: "bool \<Rightarrow> 'j"
  jl_of_array :: "'j list \<Rightarrow> 'j"
  jl_parse :: "string \<Rightarrow> json_exception + 'j"
  jl_dump :: "'j \<Rightarrow> string"

section \<open>JsonHelper\<close>

definition getValue_error :: "json_exception \<Rightarrow> error_code" where
  "getValue_error e =
     (case e of
        OutOfRange \<Rightarrow> make_JsonParseError JsonParseError.KeyNotFound
      | TypeError \<Rightarrow> make_JsonParseError JsonParseError.InvalidFormat
      | _ \<Rightarrow> make_JsonParseError JsonParseError.UnknownError)"

text \<open>\<open>getValue<T>\<close>; \<open>get\<close> is the library's \<open>get<T>\<close>.\<close>

definition getValue :: "'j json_lib \<Rightarrow> ('j \<Rightarrow> json_exception + 'a) \<Rightarrow> 'j \<Rightarrow> string \<Rightarrow> 'a expected" where
  "getValue J get object key =
     (case jl_at J object key of
        Inl e \<Rightarrow> Inl (getValue_error e)
      | Inr v \<Rightarrow> (case get v of Inl e \<Rightarrow> Inl (getValue_error e) | Inr x \<Rightarrow> Inr x))"

text \<open>\<open>get<nlohmann::json>\<close> copies the value.\<close>

definition get_json :: "'j \<Rightarrow> json_exception + 'j" where
  "get_json v = Inr v"

text \<open>\<open>loadSection\<close>; \<open>file\<close> is the content of the file at the path, \<open>None\<close> when it cannot be opened.\<close>

definition loadSection :: "'j json_lib \<Rightarrow> string option \<Rightarrow> string \<Rightarrow> 'j expected" where
  "loadSection J file section_name =
     (case file of
        None \<Rightarrow> Inl (make_JsonParseError JsonParseError.InvalidPath)
      | Some text \<Rightarrow>
          (case and_then (jl_parse J text) (\<lambda>data. jl_at J data section_name) of
             Inr sect \<Rightarrow> Inr sect
           | Inl ParseError \<Rightarrow> Inl (make_JsonParseError JsonParseError.InvalidFormat)
           | Inl OutOfRange \<Rightarrow> Inl (make_JsonParseError JsonParseError.SectionNotFound)
           | Inl _ \<Rightarrow> Inl (make_JsonParseError JsonParseError.UnknownError)))"

section \<open>What the library promises\<close>

definition is_ascii :: "string \<Rightarrow> bool" where
  "is_ascii s = list_all (\<lambda>c. (of_char c :: nat) < 128) s"

text \<open>
  Of the values that null, assignment to keys and the conversions build from UTF-8 text (\<open>ok\<close>; \<open>obj\<close>
  for null and objects; \<open>utf8\<close> for valid UTF-8, to which ASCII belongs): reading a key gives what was last assigned to it and assigning leaves other keys alone;
  a converted value is read back, integers where they fit the type; an array iterates over its
  elements; and parsing the dump of a value gives the value.
\<close>

locale json_laws =
  fixes J :: "'j json_lib"
    and ok :: "'j \<Rightarrow> bool"
    and obj :: "'j \<Rightarrow> bool"
    and utf8 :: "string \<Rightarrow> bool"
  assumes obj_null: "obj (jl_null J)" and ok_null: "ok (jl_null J)"
    and obj_set: "obj j \<Longrightarrow> obj (jl_set J k v j)"
    and ascii_utf8: "is_ascii s \<Longrightarrow> utf8 s"
    and ok_set: "obj j \<Longrightarrow> ok j \<Longrightarrow> utf8 k \<Longrightarrow> ok v \<Longrightarrow> ok (jl_set J k v j)"
    and ok_string: "utf8 s \<Longrightarrow> ok (jl_of_string J s)"
    and ok_int: "in_i64 n \<Longrightarrow> ok (jl_of_int J n)" and ok_bool: "ok (jl_of_bool J b)"
    and ok_array: "list_all ok xs \<Longrightarrow> ok (jl_of_array J xs)"
    and at_set: "obj j \<Longrightarrow> jl_at J (jl_set J k v j) k = Inr v"
    and at_set_other: "obj j \<Longrightarrow> k' \<noteq> k \<Longrightarrow> jl_at J j k' = Inr w \<Longrightarrow> jl_at J (jl_set J k v j) k' = Inr w"
    and get_string: "jl_get_string J (jl_of_string J s) = Inr s"
    and get_i8: "in_i8 n \<Longrightarrow> jl_get_i8 J (jl_of_int J n) = Inr n"
    and get_i32: "in_i32 n \<Longrightarrow> jl_get_i32 J (jl_of_int J n) = Inr n"
    and get_i64: "in_i64 n \<Longrightarrow> jl_get_i64 J (jl_of_int J n) = Inr n"
    and get_u16: "in_u16 n \<Longrightarrow> jl_get_u16 J (jl_of_int J n) = Inr n"
    and get_bool: "jl_get_bool J (jl_of_bool J b) = Inr b"
    and is_array: "jl_is_array J (jl_of_array J xs)"
    and elements: "jl_elements J (jl_of_array J xs) = xs"
    and parse_dump: "ok j \<Longrightarrow> jl_parse J (jl_dump J j) = Inr j"
begin

lemma getValue_set: "obj j \<Longrightarrow> get v = Inr x \<Longrightarrow> getValue J get (jl_set J k v j) k = Inr x"
  by (simp add: getValue_def at_set)

lemma getValue_set_other:
  "obj j \<Longrightarrow> k' \<noteq> k \<Longrightarrow> getValue J get j k' = Inr x \<Longrightarrow> getValue J get (jl_set J k v j) k' = Inr x"
  by (auto simp: getValue_def at_set_other split: sum.splits)

lemmas objects = obj_null obj_set ok_null ok_set ok_string ok_int ok_bool ok_array
lemmas reads = getValue_set getValue_set_other get_string get_i8 get_i32 get_i64 get_u16 get_bool is_array elements

end

text \<open>\<open>get<T>\<close> of an integer type gives a value of that type, whatever it was asked to read.\<close>

locale json_ranges =
  fixes J :: "'j json_lib"
  assumes range_i8: "jl_get_i8 J j = Inr n \<Longrightarrow> in_i8 n"
    and range_i32: "jl_get_i32 J j = Inr n \<Longrightarrow> in_i32 n"
    and range_i64: "jl_get_i64 J j = Inr n \<Longrightarrow> in_i64 n"
begin

lemma getValue_range:
  "getValue J (jl_get_i8 J) j k = Inr n \<Longrightarrow> in_i8 n"
  "getValue J (jl_get_i32 J) j k = Inr n \<Longrightarrow> in_i32 n"
  "getValue J (jl_get_i64 J) j k = Inr n \<Longrightarrow> in_i64 n"
  by (auto simp: getValue_def dest: range_i8 range_i32 range_i64 split: sum.splits)

end

end
