(* ===== verification/Money.thy ===== *)
theory Money
  imports ErrorCodes
begin

text \<open>
  \<open>order-service/models/Currency.h\<close> and \<open>order-service/models/Money.h\<close>: currencies and amounts in
  minor units, with the checked addition, subtraction and multiplication. An amount is a signed
  64-bit integer; the arithmetic is written with \<open>wrap_i64\<close>, and the bounds theorems show that
  behind the code's guards no operation leaves the 64-bit range.
\<close>

section \<open>Currency\<close>

record Currency =
  code :: string
  minorDigits :: int

definition Currency_create :: "string \<Rightarrow> int \<Rightarrow> Currency expected" where
  "Currency_create c digits =
     (if digits < 0 then Inl (make_CurrencyError CurrencyError.NegativeAmount)
      else if c = [] then Inl (make_CurrencyError CurrencyError.EmptyCurrency)
      else Inr \<lparr>code = c, minorDigits = digits\<rparr>)"

text \<open>\<open>operator==\<close> compares the codes only.\<close>

definition Currency_eq :: "Currency \<Rightarrow> Currency \<Rightarrow> bool" where
  "Currency_eq a b \<longleftrightarrow> code a = code b"

section \<open>Money\<close>

record Money =
  minorUnits :: int
  currency :: Currency

definition Money_create :: "int \<Rightarrow> Currency \<Rightarrow> Money expected" where
  "Money_create units c =
     (if units < 0 then Inl (make_MoneyError MoneyError.NegativeAmount)
      else Inr \<lparr>minorUnits = units, currency = c\<rparr>)"

definition Money_eq :: "Money \<Rightarrow> Money \<Rightarrow> bool" where
  "Money_eq a b \<longleftrightarrow> Currency_eq (currency a) (currency b) \<and> minorUnits a = minorUnits b"

definition Money_add :: "Money \<Rightarrow> Money \<Rightarrow> Money expected" where
  "Money_add a b =
     (if code (currency a) \<noteq> code (currency b)
      then Inl (make_MoneyError MoneyError.DifferentCurrencies)
      else if minorUnits a > wrap_i64 (INT64_MAX - minorUnits b)
      then Inl (make_MoneyError MoneyError.Overflow)
      else Inr \<lparr>minorUnits = wrap_i64 (minorUnits a + minorUnits b), currency = currency a\<rparr>)"

definition Money_sub :: "Money \<Rightarrow> Money \<Rightarrow> Money expected" where
  "Money_sub a b =
     (if code (currency a) \<noteq> code (currency b)
      then Inl (make_MoneyError MoneyError.DifferentCurrencies)
      else if minorUnits a < minorUnits b
      then Inl (make_MoneyError MoneyError.Underflow)
      else Inr \<lparr>minorUnits = wrap_i64 (minorUnits a - minorUnits b), currency = currency a\<rparr>)"

text \<open>The divisor of the guard is positive there, so C++'s truncating division is \<open>div\<close>.\<close>

definition Money_mul :: "Money \<Rightarrow> int \<Rightarrow> Money expected" where
  "Money_mul a quantity =
     (if quantity = 0 then Inr \<lparr>minorUnits = 0, currency = currency a\<rparr>
      else if quantity < 0 then Inl (make_MoneyError MoneyError.NegativeAmount)
      else if minorUnits a > INT64_MAX div quantity
      then Inl (make_MoneyError MoneyError.Overflow)
      else Inr \<lparr>minorUnits = wrap_i64 (minorUnits a * quantity), currency = currency a\<rparr>)"

lemmas money_ops [op_defs] =
  Currency_create_def Money_create_def Money_add_def Money_sub_def Money_mul_def

section \<open>Well-formed values\<close>

text \<open>What the private constructors and \<open>create\<close> guarantee of every value.\<close>

definition wf_Currency :: "Currency \<Rightarrow> bool" where
  "wf_Currency c \<longleftrightarrow> code c \<noteq> [] \<and> 0 \<le> minorDigits c \<and> minorDigits c \<le> 127"

definition wf_Money :: "Money \<Rightarrow> bool" where
  "wf_Money m \<longleftrightarrow> wf_Currency (currency m) \<and> 0 \<le> minorUnits m \<and> minorUnits m \<le> INT64_MAX"

lemma Currency_create_wf:
  "in_i8 digits \<Longrightarrow> Currency_create c digits = Inr cur \<Longrightarrow> wf_Currency cur"
  by (auto simp: Currency_create_def wf_Currency_def in_i8_def split: if_splits)

lemma Currency_create_of_wf:
  "wf_Currency c \<Longrightarrow> Currency_create (code c) (minorDigits c) = Inr c"
  by (simp add: Currency_create_def wf_Currency_def)

lemma Money_create_wf:
  "in_i64 units \<Longrightarrow> wf_Currency c \<Longrightarrow> Money_create units c = Inr m \<Longrightarrow> wf_Money m"
  by (auto simp: Money_create_def wf_Money_def in_i64_def split: if_splits)

lemma Money_create_of_wf: "wf_Money m \<Longrightarrow> Money_create (minorUnits m) (currency m) = Inr m"
  by (simp add: Money_create_def wf_Money_def)

lemma wf_Money_in_i64: "wf_Money m \<Longrightarrow> in_i64 (minorUnits m)"
  by (simp add: wf_Money_def in_i64_def int_limits)

text \<open>The guard's own subtraction stays in range, because amounts are not negative.\<close>

lemma Money_add_guard:
  "wf_Money b \<Longrightarrow> wrap_i64 (INT64_MAX - minorUnits b) = INT64_MAX - minorUnits b"
  by (rule wrap_i64_id) (auto simp: wf_Money_def in_i64_def int_limits)

lemma le_div_iff_mult_le: "0 < (q::int) \<Longrightarrow> a \<le> m div q \<longleftrightarrow> a * q \<le> m"
proof
  assume "0 < q" "a \<le> m div q"
  then have "a * q \<le> m div q * q" by simp
  also have "\<dots> \<le> m" using \<open>0 < q\<close> by (simp add: minus_mod_eq_div_mult [symmetric])
  finally show "a * q \<le> m" .
next
  assume "0 < q" "a * q \<le> m"
  then show "a \<le> m div q" using zdiv_mono1 [of "a * q" m q] by simp
qed

lemma Money_add_simp:
  assumes "wf_Money a" "wf_Money b"
  shows "Money_add a b =
     (if code (currency a) \<noteq> code (currency b) then Inl (make_MoneyError MoneyError.DifferentCurrencies)
      else if INT64_MAX < minorUnits a + minorUnits b then Inl (make_MoneyError MoneyError.Overflow)
      else Inr \<lparr>minorUnits = minorUnits a + minorUnits b, currency = currency a\<rparr>)"
proof -
  have "in_i64 (minorUnits a + minorUnits b)" if "minorUnits a + minorUnits b \<le> INT64_MAX"
    using assms that by (auto simp: wf_Money_def in_i64_def int_limits)
  with Money_add_guard [OF assms(2)] show ?thesis
    by (auto simp: Money_add_def not_less)
qed

lemma Money_mul_simp:
  assumes "wf_Money a" "0 < quantity"
  shows "Money_mul a quantity =
     (if INT64_MAX < minorUnits a * quantity then Inl (make_MoneyError MoneyError.Overflow)
      else Inr \<lparr>minorUnits = minorUnits a * quantity, currency = currency a\<rparr>)"
proof -
  have "in_i64 (minorUnits a * quantity)" if "minorUnits a * quantity \<le> INT64_MAX"
    using assms that by (auto simp: wf_Money_def in_i64_def INT64_MIN_def intro: order_trans [of _ 0])
  moreover have "minorUnits a > INT64_MAX div quantity \<longleftrightarrow> INT64_MAX < minorUnits a * quantity"
    using le_div_iff_mult_le [OF assms(2), of "minorUnits a" INT64_MAX] by linarith
  ultimately show ?thesis
    using assms(2) by (auto simp: Money_mul_def not_less)
qed

lemma Money_add_wf [inv_pres]:
  "wf_Money a \<Longrightarrow> wf_Money b \<Longrightarrow> Money_add a b = Inr m \<Longrightarrow> wf_Money m"
  by (auto simp: Money_add_simp wf_Money_def split: if_splits)

lemma Money_sub_wf [inv_pres]:
  "wf_Money a \<Longrightarrow> wf_Money b \<Longrightarrow> Money_sub a b = Inr m \<Longrightarrow> wf_Money m"
  by (auto simp: Money_sub_def wf_Money_def in_i64_def int_limits split: if_splits)

lemma Money_mul_wf [inv_pres]:
  "wf_Money a \<Longrightarrow> Money_mul a quantity = Inr m \<Longrightarrow> wf_Money m"
proof (cases "0 < quantity")
  case True
  assume "wf_Money a" "Money_mul a quantity = Inr m"
  with True show ?thesis
    by (auto simp: Money_mul_simp wf_Money_def split: if_splits)
next
  case False
  assume "wf_Money a" "Money_mul a quantity = Inr m"
  with False show ?thesis
    by (auto simp: Money_mul_def wf_Money_def INT64_MAX_def split: if_splits)
qed

section \<open>Properties\<close>

lemma Money_mul_cases:
  assumes "wf_Money a"
  shows "Money_mul a quantity =
      (if quantity < 0 then Inl (make_MoneyError MoneyError.NegativeAmount)
       else if minorUnits a * quantity \<le> INT64_MAX
       then Inr \<lparr>minorUnits = minorUnits a * quantity, currency = currency a\<rparr>
       else Inl (make_MoneyError MoneyError.Overflow))"
proof (cases quantity "0 :: int" rule: linorder_cases)
  case less
  then show ?thesis by (simp add: Money_mul_def)
next
  case equal
  then show ?thesis by (simp add: Money_mul_def INT64_MAX_def)
next
  case greater
  then show ?thesis using Money_mul_simp [OF assms, of quantity] by auto
qed

text \<open>C40. Addition and multiplication of valid amounts are exact. The guard of the addition does not itself overflow;
  the sum is returned exactly when the codes agree and the mathematical sum fits in 64 bits, in the left operand's
  currency, and the two errors tell the two reasons apart. The product with a non-negative quantity is returned exactly
  when it fits in 64 bits, otherwise the overflow error; a negative quantity is always rejected.\<close>

theorem Money_arithmetic_exact:
  assumes "wf_Money a" "wf_Money b"
  shows "in_i64 (INT64_MAX - minorUnits b) \<and>
    (Money_add a b = Inr m \<longleftrightarrow>
      code (currency a) = code (currency b) \<and> minorUnits a + minorUnits b \<le> INT64_MAX \<and>
      m = \<lparr>minorUnits = minorUnits a + minorUnits b, currency = currency a\<rparr>) \<and>
    (Money_add a b = Inl (make_MoneyError MoneyError.Overflow) \<longleftrightarrow>
      code (currency a) = code (currency b) \<and> INT64_MAX < minorUnits a + minorUnits b) \<and>
    (Money_add a b = Inl (make_MoneyError MoneyError.DifferentCurrencies) \<longleftrightarrow>
      code (currency a) \<noteq> code (currency b)) \<and>
    Money_mul a quantity =
      (if quantity < 0 then Inl (make_MoneyError MoneyError.NegativeAmount)
       else if minorUnits a * quantity \<le> INT64_MAX
       then Inr \<lparr>minorUnits = minorUnits a * quantity, currency = currency a\<rparr>
       else Inl (make_MoneyError MoneyError.Overflow))"
proof (intro conjI)
  show "in_i64 (INT64_MAX - minorUnits b)"
    using assms(2) by (auto simp: wf_Money_def in_i64_def int_limits)
qed (auto simp: Money_add_simp [OF assms] Money_mul_cases [OF assms(1)])

theorem Money_arithmetic_exact_witness:
  "Money_add \<lparr>minorUnits = 4611686018427387904, currency = \<lparr>code = ''EUR'', minorDigits = 2\<rparr>\<rparr>
     \<lparr>minorUnits = 250, currency = \<lparr>code = ''EUR'', minorDigits = 2\<rparr>\<rparr> =
   Inr \<lparr>minorUnits = 4611686018427388154, currency = \<lparr>code = ''EUR'', minorDigits = 2\<rparr>\<rparr> \<and>
   Money_mul \<lparr>minorUnits = 4611686018427387904, currency = \<lparr>code = ''EUR'', minorDigits = 2\<rparr>\<rparr> 2 =
   Inl (make_MoneyError MoneyError.Overflow)"
proof -
  let ?a = "\<lparr>minorUnits = 4611686018427387904, currency = \<lparr>code = ''EUR'', minorDigits = 2\<rparr>\<rparr>"
  let ?b = "\<lparr>minorUnits = 250, currency = \<lparr>code = ''EUR'', minorDigits = 2\<rparr>\<rparr>"
  have "wf_Money ?a" "wf_Money ?b"
    by (simp_all add: wf_Money_def wf_Currency_def INT64_MAX_def)
  from Money_arithmetic_exact [OF this, of _ 2] show ?thesis
    by (simp add: INT64_MAX_def)
qed

text \<open>Subtracting an amount that was added gives the first amount back: a sum of two valid
  amounts never makes the subtraction underflow.\<close>

lemma Money_sub_add:
  assumes "wf_Money a" "wf_Money b" "Money_add a b = Inr c"
  shows "Money_sub c b = Inr a"
proof -
  from assms have "c = \<lparr>minorUnits = minorUnits a + minorUnits b, currency = currency a\<rparr>"
    and "code (currency a) = code (currency b)"
    by (auto simp: Money_add_simp split: if_splits)
  with assms(1) wf_Money_in_i64 [OF assms(1)] show ?thesis
    by (simp add: Money_sub_def wf_Money_def)
qed

end
