(* ===== verification/Order.thy ===== *)
theory Order
  imports Ids Money
begin

text \<open>
  \<open>order-service/models/Order.h\<close>: order items, orders with their status, the total amount, and the
  mapping of a status to and from its name. The constructors of the classes are private, so every
  order comes from \<open>create\<close> or \<open>restore\<close>, which is the invariant \<open>wf_Order\<close>.
\<close>

section \<open>Order items\<close>

record OrderItem =
  oi_productId :: ProductId
  oi_quantity :: int
  oi_priceAtOrderTime :: Money

definition OrderItem_create :: "ProductId \<Rightarrow> int \<Rightarrow> Money \<Rightarrow> OrderItem expected" where
  "OrderItem_create productId quantity priceAtOrderTime =
     (if quantity \<le> 0 then Inl (make_OrderItemError OrderItemError.InvalidQuantity)
      else Inr \<lparr>oi_productId = productId, oi_quantity = quantity,
                oi_priceAtOrderTime = priceAtOrderTime\<rparr>)"

definition lineTotal :: "OrderItem \<Rightarrow> Money expected" where
  "lineTotal item =
     (case Money_mul (oi_priceAtOrderTime item) (oi_quantity item) of
        Inl _ \<Rightarrow> Inl (make_OrderItemError OrderItemError.PriceOverflow)
      | Inr totalPrice \<Rightarrow> Inr totalPrice)"

section \<open>Orders\<close>

datatype OrderStatus = Created | Reserved | Shipped | Cancelled

record Order =
  o_userId :: UserId
  o_orderId :: "OrderId option"
  o_items :: "OrderItem list"
  o_status :: OrderStatus

definition Order_create :: "UserId \<Rightarrow> OrderItem list \<Rightarrow> Order expected" where
  "Order_create userId items =
     (if items = [] then Inl (make_OrderError OrderError.EmptyItems)
      else Inr \<lparr>o_userId = userId, o_orderId = None, o_items = items, o_status = Created\<rparr>)"

definition Order_restore ::
  "UserId \<Rightarrow> OrderId \<Rightarrow> OrderItem list \<Rightarrow> OrderStatus \<Rightarrow> Order expected" where
  "Order_restore userId orderId items status =
     (if items = [] then Inl (make_OrderError OrderError.EmptyItems)
      else Inr \<lparr>o_userId = userId, o_orderId = Some orderId, o_items = items, o_status = status\<rparr>)"

text \<open>The loop of \<open>totalAmount\<close>: \<open>acc\<close> (\<open>total\<close> in the code) is the running \<open>std::expected\<close>.\<close>

fun totalAmount_loop :: "Money expected \<Rightarrow> OrderItem list \<Rightarrow> Money expected" where
  "totalAmount_loop acc [] = acc"
| "totalAmount_loop acc (item # rest) =
     (case acc of
        Inl e \<Rightarrow> Inl e
      | Inr t \<Rightarrow>
          (case lineTotal item of
             Inl e \<Rightarrow> Inl e
           | Inr line \<Rightarrow> totalAmount_loop (Money_add t line) rest))"

text \<open>\<open>_items.front()\<close> on an empty vector is undefined: \<open>None\<close>.\<close>

definition totalAmount :: "Order \<Rightarrow> Money expected option" where
  "totalAmount order =
     (case o_items order of
        [] \<Rightarrow> None
      | first # _ \<Rightarrow>
          Some (totalAmount_loop (Money_create 0 (currency (oi_priceAtOrderTime first)))
                  (o_items order)))"

definition assignId :: "OrderId \<Rightarrow> Order \<Rightarrow> Order" where
  "assignId i order = order\<lparr>o_orderId := Some i\<rparr>"

text \<open>The result and the order afterwards.\<close>

definition markReserved :: "Order \<Rightarrow> unit expected \<times> Order" where
  "markReserved order =
     (if o_status order \<noteq> Created
      then (Inl (make_OrderError OrderError.InvalidStatusTransition), order)
      else (Inr (), order\<lparr>o_status := Reserved\<rparr>))"

fun OrderStatus_toString :: "OrderStatus \<Rightarrow> string" where
  "OrderStatus_toString Created = ''Created''"
| "OrderStatus_toString Reserved = ''Reserved''"
| "OrderStatus_toString Shipped = ''Shipped''"
| "OrderStatus_toString Cancelled = ''Cancelled''"

definition OrderStatus_fromString :: "string \<Rightarrow> OrderStatus expected" where
  "OrderStatus_fromString v =
     (if v = ''Created'' then Inr Created
      else if v = ''Reserved'' then Inr Reserved
      else if v = ''Shipped'' then Inr Shipped
      else if v = ''Cancelled'' then Inr Cancelled
      else Inl (make_OrderError OrderError.UnknownStatus))"

section \<open>Well-formed orders\<close>

definition wf_OrderItem :: "OrderItem \<Rightarrow> bool" where
  "wf_OrderItem item \<longleftrightarrow>
     isValidUuid (productId_value (oi_productId item)) \<and>
     0 < oi_quantity item \<and> oi_quantity item \<le> INT32_MAX \<and> wf_Money (oi_priceAtOrderTime item)"

definition wf_Order :: "Order \<Rightarrow> bool" where
  "wf_Order order \<longleftrightarrow>
     isValidUuid (userId_value (o_userId order)) \<and>
     (\<forall>i. o_orderId order = Some i \<longrightarrow> isValidUuid (orderId_value i)) \<and>
     o_items order \<noteq> [] \<and> list_all wf_OrderItem (o_items order)"

text \<open>The exact, unbounded price of an item and of a list of items.\<close>

definition linePrice :: "OrderItem \<Rightarrow> int" where
  "linePrice item = minorUnits (oi_priceAtOrderTime item) * oi_quantity item"

definition itemCode :: "OrderItem \<Rightarrow> string" where
  "itemCode item = code (currency (oi_priceAtOrderTime item))"

lemma wf_OrderItem_price: "wf_OrderItem item \<Longrightarrow> wf_Money (oi_priceAtOrderTime item)"
  by (simp add: wf_OrderItem_def)

lemma linePrice_nonneg: "wf_OrderItem item \<Longrightarrow> 0 \<le> linePrice item"
  by (simp add: wf_OrderItem_def wf_Money_def linePrice_def)

lemma sum_linePrice_nonneg: "list_all wf_OrderItem items \<Longrightarrow> 0 \<le> sum_list (map linePrice items)"
  by (induction items) (auto simp: linePrice_nonneg)

lemma lineTotal_simp:
  "wf_OrderItem item \<Longrightarrow> lineTotal item =
     (if linePrice item \<le> INT64_MAX
      then Inr \<lparr>minorUnits = linePrice item, currency = currency (oi_priceAtOrderTime item)\<rparr>
      else Inl (make_OrderItemError OrderItemError.PriceOverflow))"
  by (auto simp: lineTotal_def linePrice_def wf_OrderItem_def Money_mul_simp)

lemma lineTotal_wf: "wf_OrderItem item \<Longrightarrow> lineTotal item = Inr m \<Longrightarrow> wf_Money m"
  by (auto simp: lineTotal_def wf_OrderItem_def split: sum.splits intro: Money_mul_wf)

lemma totalAmount_loop_Inl [simp]: "totalAmount_loop (Inl e) items = Inl e"
  by (cases items) simp_all

text \<open>The loop from a valid running total: it succeeds exactly when every item has the currency
  code of the total and the exact sum fits.\<close>

lemma totalAmount_loop_Inr:
  assumes "wf_Money t" "list_all wf_OrderItem items"
  shows "totalAmount_loop (Inr t) items = Inr m \<longleftrightarrow>
     (\<forall>item \<in> set items. itemCode item = code (currency t)) \<and>
     minorUnits t + sum_list (map linePrice items) \<le> INT64_MAX \<and>
     m = t\<lparr>minorUnits := minorUnits t + sum_list (map linePrice items)\<rparr>"
  using assms
proof (induction items arbitrary: t)
  case Nil
  then show ?case by (auto simp: wf_Money_def)
next
  case (Cons item items)
  then have item: "wf_OrderItem item" and items: "list_all wf_OrderItem items" by simp_all
  note nonneg = sum_linePrice_nonneg [OF items] linePrice_nonneg [OF item]
  show ?case
  proof (cases "linePrice item \<le> INT64_MAX")
    case False
    then have "totalAmount_loop (Inr t) (item # items) \<noteq> Inr m"
      using item by (simp add: lineTotal_simp)
    then show ?thesis
      using False nonneg Cons.prems(1) by (auto simp: wf_Money_def)
  next
    case True
    define line where "line = \<lparr>minorUnits = linePrice item, currency = currency (oi_priceAtOrderTime item)\<rparr>"
    have line: "lineTotal item = Inr line"
      using item True by (simp add: lineTotal_simp line_def)
    then have wf_line: "wf_Money line" using item by (blast intro: lineTotal_wf)
    show ?thesis
    proof (cases "Money_add t line")
      case (Inl e)
      then have "code (currency t) \<noteq> itemCode item \<or> INT64_MAX < minorUnits t + linePrice item"
        using Cons.prems(1) wf_line by (auto simp: Money_add_simp line_def itemCode_def split: if_splits)
      with Inl line nonneg show ?thesis by auto
    next
      case (Inr t')
      then have t': "t' = t\<lparr>minorUnits := minorUnits t + linePrice item\<rparr>"
        and same: "code (currency t) = itemCode item"
        using Cons.prems(1) wf_line by (auto simp: Money_add_simp line_def itemCode_def split: if_splits)
      have "wf_Money t'" using Cons.prems(1) wf_line Inr by (blast intro: Money_add_wf)
      from Cons.IH [OF this items] Inr line t' same show ?thesis
        by (auto simp: algebra_simps)
    qed
  qed
qed

lemma Order_create_wf:
  "isValidUuid (userId_value u) \<Longrightarrow> list_all wf_OrderItem items \<Longrightarrow>
   Order_create u items = Inr order \<Longrightarrow> wf_Order order"
  by (auto simp: Order_create_def wf_Order_def split: if_splits)

lemma Order_restore_wf:
  "isValidUuid (userId_value u) \<Longrightarrow> isValidUuid (orderId_value i) \<Longrightarrow> list_all wf_OrderItem items \<Longrightarrow>
   Order_restore u i items st = Inr order \<Longrightarrow> wf_Order order"
  by (auto simp: Order_restore_def wf_Order_def split: if_splits)

lemma OrderItem_create_wf:
  "isValidUuid (productId_value p) \<Longrightarrow> in_i32 q \<Longrightarrow> wf_Money m \<Longrightarrow>
   OrderItem_create p q m = Inr item \<Longrightarrow> wf_OrderItem item"
  by (auto simp: OrderItem_create_def wf_OrderItem_def in_i32_def split: if_splits)

lemma OrderItem_create_of_wf:
  "wf_OrderItem item \<Longrightarrow>
   OrderItem_create (oi_productId item) (oi_quantity item) (oi_priceAtOrderTime item) = Inr item"
  by (simp add: OrderItem_create_def wf_OrderItem_def)

lemma markReserved_wf [inv_pres]: "wf_Order order \<Longrightarrow> wf_Order (snd (markReserved order))"
  by (simp add: markReserved_def wf_Order_def)

lemma assignId_wf [inv_pres]:
  "wf_Order order \<Longrightarrow> isValidUuid (orderId_value i) \<Longrightarrow> wf_Order (assignId i order)"
  by (simp add: assignId_def wf_Order_def)

lemma OrderStatus_roundtrip [simp]: "OrderStatus_fromString (OrderStatus_toString st) = Inr st"
  by (cases st) (simp_all add: OrderStatus_fromString_def)

lemma OrderStatus_fromString_Inr:
  "OrderStatus_fromString v = Inr st \<longleftrightarrow> v = OrderStatus_toString st"
  by (cases st) (auto simp: OrderStatus_fromString_def split: if_splits)

lemma OrderStatus_toString_inj [simp]:
  "OrderStatus_toString a = OrderStatus_toString b \<longleftrightarrow> a = b"
  by (cases a; cases b) simp_all

section \<open>Properties\<close>

text \<open>C20. The total of a valid order never reads past an empty vector, and it is a sum exactly when
  all items share one currency code and the exact, unbounded total fits in 64 bits; it is then
  that exact total in the currency of the first item. Otherwise an error is returned, never a
  wrapped or partial sum.\<close>

theorem totalAmount_exact:
  assumes "wf_Order order"
  shows "(totalAmount order = Some (Inr m) \<longleftrightarrow>
     (\<forall>item \<in> set (o_items order). itemCode item = itemCode (hd (o_items order))) \<and>
     sum_list (map linePrice (o_items order)) \<le> INT64_MAX \<and>
     m = \<lparr>minorUnits = sum_list (map linePrice (o_items order)),
          currency = currency (oi_priceAtOrderTime (hd (o_items order)))\<rparr>) \<and>
    totalAmount order \<noteq> None"
proof (rule conjI)
  obtain first rest where items: "o_items order = first # rest"
    using assms by (auto simp: wf_Order_def neq_Nil_conv)
  have wf: "list_all wf_OrderItem (first # rest)"
    using assms items by (simp add: wf_Order_def)
  let ?cur = "currency (oi_priceAtOrderTime first)"
  have zero: "Money_create 0 ?cur = Inr \<lparr>minorUnits = 0, currency = ?cur\<rparr>"
    by (simp add: Money_create_def)
  have "wf_Money \<lparr>minorUnits = 0, currency = ?cur\<rparr>"
    using wf by (simp add: wf_OrderItem_def wf_Money_def INT64_MAX_def)
  from totalAmount_loop_Inr [OF this wf, of m]
  show "totalAmount order = Some (Inr m) \<longleftrightarrow>
     (\<forall>item \<in> set (o_items order). itemCode item = itemCode (hd (o_items order))) \<and>
     sum_list (map linePrice (o_items order)) \<le> INT64_MAX \<and>
     m = \<lparr>minorUnits = sum_list (map linePrice (o_items order)),
          currency = currency (oi_priceAtOrderTime (hd (o_items order)))\<rparr>"
    unfolding totalAmount_def items list.case zero option.inject
    by (simp add: itemCode_def [of first])
  show "totalAmount order \<noteq> None" by (simp add: totalAmount_def items)
qed

definition sampleUuid :: string where
  "sampleUuid = ''123e4567-e89b-12d3-a456-426614174000''"

definition sampleMoney :: "int \<Rightarrow> Money" where
  "sampleMoney units = \<lparr>minorUnits = units, currency = \<lparr>code = ''USD'', minorDigits = 2\<rparr>\<rparr>"

definition sampleOrder :: Order where
  "sampleOrder =
     \<lparr>o_userId = UserId sampleUuid, o_orderId = None,
      o_items = [\<lparr>oi_productId = ProductId sampleUuid, oi_quantity = 2,
                  oi_priceAtOrderTime = sampleMoney 300\<rparr>,
                 \<lparr>oi_productId = ProductId sampleUuid, oi_quantity = 3,
                  oi_priceAtOrderTime = sampleMoney 50\<rparr>],
      o_status = Created\<rparr>"

lemma isValidUuid_sample [simp]: "isValidUuid sampleUuid"
  by code_simp

lemma wf_sampleMoney: "0 \<le> units \<Longrightarrow> units \<le> INT64_MAX \<Longrightarrow> wf_Money (sampleMoney units)"
  by (simp add: sampleMoney_def wf_Money_def wf_Currency_def)

lemma wf_sampleOrder: "wf_Order sampleOrder"
  by (simp add: sampleOrder_def wf_Order_def wf_OrderItem_def wf_sampleMoney int_limits)

theorem totalAmount_exact_witness: "totalAmount sampleOrder = Some (Inr (sampleMoney 750))"
  using totalAmount_exact [OF wf_sampleOrder, of "sampleMoney 750"]
  by (simp add: sampleOrder_def itemCode_def linePrice_def sampleMoney_def INT64_MAX_def)

text \<open>The name of a status determines it: reading a written status gives it back, a name is
  accepted only if it is the name of the status returned, and every other string is reported as
  \<open>UnknownStatus\<close>.\<close>

lemma OrderStatus_mapper_exact:
  "OrderStatus_fromString (OrderStatus_toString st) = Inr st \<and>
   (OrderStatus_fromString v = Inr st \<longleftrightarrow> v = OrderStatus_toString st) \<and>
   (OrderStatus_fromString v = Inl e \<longleftrightarrow>
     v \<notin> range OrderStatus_toString \<and> e = make_OrderError OrderError.UnknownStatus)"
proof (intro conjI)
  show "OrderStatus_fromString v = Inl e \<longleftrightarrow>
      v \<notin> range OrderStatus_toString \<and> e = make_OrderError OrderError.UnknownStatus"
  proof (cases "OrderStatus_fromString v")
    case (Inl e')
    then have "e' = make_OrderError OrderError.UnknownStatus"
      by (auto simp: OrderStatus_fromString_def split: if_splits)
    with Inl show ?thesis by auto
  next
    case (Inr st)
    then show ?thesis by (auto simp: OrderStatus_fromString_Inr)
  qed
qed (simp_all add: OrderStatus_fromString_Inr)

end
