(* ===== verification/OrderJson.thy ===== *)
theory OrderJson
  imports Json Order
begin

text \<open>
  \<open>order-service/models2json-mapper\<close>: currencies, amounts, order items and orders to and from JSON.
\<close>

definition CURRENCY_CODE :: string where "CURRENCY_CODE = ''code''"
definition CURRENCY_MINOR_DIGITS :: string where "CURRENCY_MINOR_DIGITS = ''minorDigits''"
definition MONEY_MINOR_UNITS :: string where "MONEY_MINOR_UNITS = ''minorUnits''"
definition MONEY_CURRENCY :: string where "MONEY_CURRENCY = ''currency''"
definition ORDER_ID :: string where "ORDER_ID = ''orderId''"
definition ORDER_USER_ID :: string where "ORDER_USER_ID = ''userId''"
definition ORDER_ITEMS :: string where "ORDER_ITEMS = ''items''"
definition ORDER_STATUS :: string where "ORDER_STATUS = ''status''"
definition ORDER_ITEM_PRODUCT_ID :: string where "ORDER_ITEM_PRODUCT_ID = ''productId''"
definition ORDER_ITEM_QUANTITY :: string where "ORDER_ITEM_QUANTITY = ''quantity''"
definition ORDER_ITEM_PRICE_AT_ORDER_TIME :: string where
  "ORDER_ITEM_PRICE_AT_ORDER_TIME = ''priceAtOrderTime''"

lemmas order_keys [simp] =
  CURRENCY_CODE_def CURRENCY_MINOR_DIGITS_def MONEY_MINOR_UNITS_def MONEY_CURRENCY_def
  ORDER_ID_def ORDER_USER_ID_def ORDER_ITEMS_def ORDER_STATUS_def
  ORDER_ITEM_PRODUCT_ID_def ORDER_ITEM_QUANTITY_def ORDER_ITEM_PRICE_AT_ORDER_TIME_def

section \<open>Mappers\<close>

definition Currency_fromJson :: "'j json_lib \<Rightarrow> 'j \<Rightarrow> Currency expected" where
  "Currency_fromJson J json =
     and_then (getValue J (jl_get_string J) json CURRENCY_CODE) (\<lambda>code.
       and_then (getValue J (jl_get_i8 J) json CURRENCY_MINOR_DIGITS) (\<lambda>digits.
         Currency_create code digits))"

definition Currency_toJson :: "'j json_lib \<Rightarrow> Currency \<Rightarrow> 'j" where
  "Currency_toJson J c =
     jl_set J CURRENCY_MINOR_DIGITS (jl_of_int J (minorDigits c))
       (jl_set J CURRENCY_CODE (jl_of_string J (code c)) (jl_null J))"

definition Money_fromJson :: "'j json_lib \<Rightarrow> 'j \<Rightarrow> Money expected" where
  "Money_fromJson J json =
     and_then (getValue J (jl_get_i64 J) json MONEY_MINOR_UNITS) (\<lambda>units.
       and_then (getValue J get_json json MONEY_CURRENCY) (\<lambda>currencyJson.
         and_then (Currency_fromJson J currencyJson) (\<lambda>c. Money_create units c)))"

definition Money_toJson :: "'j json_lib \<Rightarrow> Money \<Rightarrow> 'j" where
  "Money_toJson J m =
     jl_set J MONEY_CURRENCY (Currency_toJson J (currency m))
       (jl_set J MONEY_MINOR_UNITS (jl_of_int J (minorUnits m)) (jl_null J))"

definition OrderItem_fromJson :: "'j json_lib \<Rightarrow> 'j \<Rightarrow> OrderItem expected" where
  "OrderItem_fromJson J json =
     and_then
       (and_then
         (and_then (getValue J (jl_get_string J) json ORDER_ITEM_PRODUCT_ID) (\<lambda>v. ProductId_create v))
         (\<lambda>productId. and_then (getValue J get_json json ORDER_ITEM_PRICE_AT_ORDER_TIME) (\<lambda>priceJson.
            transform (Money_fromJson J priceJson) (\<lambda>price. (productId, price)))))
       (\<lambda>(productId, price). and_then (getValue J (jl_get_i32 J) json ORDER_ITEM_QUANTITY) (\<lambda>quantity.
          OrderItem_create productId quantity price))"

definition OrderItem_toJson :: "'j json_lib \<Rightarrow> OrderItem \<Rightarrow> 'j" where
  "OrderItem_toJson J item =
     jl_set J ORDER_ITEM_PRICE_AT_ORDER_TIME (Money_toJson J (oi_priceAtOrderTime item))
       (jl_set J ORDER_ITEM_QUANTITY (jl_of_int J (oi_quantity item))
         (jl_set J ORDER_ITEM_PRODUCT_ID (jl_of_string J (productId_value (oi_productId item))) (jl_null J)))"

definition parseItems :: "'j json_lib \<Rightarrow> 'j \<Rightarrow> OrderItem list expected" where
  "parseItems J json =
     and_then (getValue J get_json json ORDER_ITEMS) (\<lambda>itemsJson.
       if \<not> jl_is_array J itemsJson then Inl (make_OrderError OrderError.InvalidItems)
       else traverse (OrderItem_fromJson J) (jl_elements J itemsJson))"

definition Order_fromJson :: "'j json_lib \<Rightarrow> 'j \<Rightarrow> Order expected" where
  "Order_fromJson J json =
     and_then
       (and_then (getValue J (jl_get_string J) json ORDER_USER_ID) (\<lambda>v. UserId_create v))
       (\<lambda>userId. and_then (parseItems J json) (\<lambda>items. Order_create userId items))"

definition Order_toJson :: "'j json_lib \<Rightarrow> Order \<Rightarrow> 'j" where
  "Order_toJson J order =
     (let json1 = jl_set J ORDER_USER_ID (jl_of_string J (userId_value (o_userId order))) (jl_null J);
          json2 = (case o_orderId order of
                     None \<Rightarrow> json1
                   | Some i \<Rightarrow> jl_set J ORDER_ID (jl_of_string J (orderId_value i)) json1);
          itemsJson = jl_of_array J (map (OrderItem_toJson J) (o_items order)) in
      jl_set J ORDER_STATUS (jl_of_string J (OrderStatus_toString (o_status order)))
        (jl_set J ORDER_ITEMS itemsJson json2))"

section \<open>Round trips\<close>

lemma wf_ranges:
  "wf_Currency c \<Longrightarrow> in_i8 (minorDigits c)"
  "wf_Money m \<Longrightarrow> in_i64 (minorUnits m)"
  "wf_OrderItem item \<Longrightarrow> in_i32 (oi_quantity item)"
  by (auto simp: wf_Currency_def wf_Money_def wf_OrderItem_def in_i8_def in_i64_def in_i32_def int_limits)

context json_laws
begin

lemma Currency_roundtrip: "wf_Currency c \<Longrightarrow> Currency_fromJson J (Currency_toJson J c) = Inr c"
  by (simp add: Currency_fromJson_def Currency_toJson_def objects reads wf_ranges Currency_create_of_wf)

lemma Money_roundtrip: "wf_Money m \<Longrightarrow> Money_fromJson J (Money_toJson J m) = Inr m"
  by (simp add: Money_fromJson_def Money_toJson_def objects reads wf_ranges get_json_def Money_create_of_wf
      Currency_roundtrip wf_Money_def [THEN iffD1, THEN conjunct1])

lemma OrderItem_roundtrip:
  assumes "wf_OrderItem item"
  shows "OrderItem_fromJson J (OrderItem_toJson J item) = Inr item"
proof -
  have "isValidUuid (productId_value (oi_productId item))" "wf_Money (oi_priceAtOrderTime item)"
    using assms by (simp_all add: wf_OrderItem_def)
  then show ?thesis
    using OrderItem_create_of_wf [OF assms] wf_ranges(3) [OF assms]
    by (simp add: OrderItem_fromJson_def OrderItem_toJson_def objects reads get_json_def Money_roundtrip id_create_defs StrongID_create_valid)
qed

lemma parseItems_roundtrip:
  assumes "list_all wf_OrderItem (o_items order)"
  shows "parseItems J (Order_toJson J order) = Inr (o_items order)"
proof -
  have "traverse (OrderItem_fromJson J) (map (OrderItem_toJson J) (o_items order)) = Inr (o_items order)"
    using assms by (intro traverse_map OrderItem_roundtrip) (simp add: list_all_iff)
  then show ?thesis
    by (simp add: parseItems_def Order_toJson_def objects reads get_json_def Let_def split: option.split)
qed

lemma Order_roundtrip:
  assumes "wf_Order order"
  shows "Order_fromJson J (Order_toJson J order) = Inr (order\<lparr>o_orderId := None, o_status := Created\<rparr>)"
proof -
  have wf: "isValidUuid (userId_value (o_userId order))" "o_items order \<noteq> []" "list_all wf_OrderItem (o_items order)"
    using assms by (simp_all add: wf_Order_def)
  have "getValue J (jl_get_string J) (Order_toJson J order) ORDER_USER_ID = Inr (userId_value (o_userId order))"
    by (simp add: Order_toJson_def objects reads Let_def split: option.split)
  then show ?thesis
    using wf by (simp add: Order_fromJson_def parseItems_roundtrip Order_create_def id_create_defs StrongID_create_valid)
qed

end

section \<open>Orders that can be dumped\<close>

lemma is_ascii_simps [simp]:
  "is_ascii []" "is_ascii (c # s) \<longleftrightarrow> (of_char c :: nat) < 128 \<and> is_ascii s"
  by (simp_all add: is_ascii_def)

lemma isValidUuid_ascii: "isValidUuid v \<Longrightarrow> is_ascii v"
proof -
  have hex: "isHexDigit c \<Longrightarrow> (of_char c :: nat) < 128" for c
    by (auto simp: isHexDigit_def less_eq_char_def)
  have fits: "list_all2 uuidFits t v \<Longrightarrow> is_ascii v" for t
    by (induction rule: list_all2_induct) (auto simp: uuidFits_if hex split: if_splits)
  show "isValidUuid v \<Longrightarrow> is_ascii v"
    unfolding isValidUuid_def matchHexRuns_template by (rule fits)
qed

context json_laws
begin

lemma OrderItem_ok:
  assumes "wf_OrderItem item" "utf8 (code (currency (oi_priceAtOrderTime item)))"
  shows "ok (OrderItem_toJson J item)"
proof -
  let ?m = "oi_priceAtOrderTime item"
  have wf: "wf_Money ?m" "wf_Currency (currency ?m)" "is_ascii (productId_value (oi_productId item))"
    using assms(1) by (auto simp: wf_OrderItem_def wf_Money_def isValidUuid_ascii)
  have "in_i64 (minorUnits ?m)" "in_i64 (minorDigits (currency ?m))" "in_i64 (oi_quantity item)"
    using wf_ranges(1) [OF wf(2)] wf_ranges(2) [OF wf(1)] wf_ranges(3) [OF assms(1)]
    by (auto simp: in_i64_def in_i8_def in_i32_def int_limits)
  then show ?thesis
    using assms wf by (simp add: OrderItem_toJson_def Money_toJson_def Currency_toJson_def objects ascii_utf8)
qed

lemma Order_ok:
  assumes "wf_Order order" "\<forall>item \<in> set (o_items order). utf8 (itemCode item)"
  shows "ok (Order_toJson J order)"
proof -
  have ids: "is_ascii (userId_value (o_userId order))" "\<And>i. o_orderId order = Some i \<Longrightarrow> is_ascii (orderId_value i)"
    using assms(1) by (auto simp: wf_Order_def isValidUuid_ascii)
  have items: "list_all ok (map (OrderItem_toJson J) (o_items order))"
    using assms by (auto simp: list_all_iff wf_Order_def itemCode_def intro: OrderItem_ok)
  have status: "is_ascii (OrderStatus_toString (o_status order))"
    by (cases "o_status order") simp_all
  show ?thesis
    using ids items status
    by (auto simp: Order_toJson_def Let_def objects ascii_utf8 split: option.split)
qed

end

section \<open>What is read is well formed\<close>

context json_ranges
begin

lemma Currency_fromJson_wf: "Currency_fromJson J json = Inr c \<Longrightarrow> wf_Currency c"
  by (auto simp: Currency_fromJson_def and_then_Inr_iff dest!: getValue_range intro: Currency_create_wf)

lemma Money_fromJson_wf: "Money_fromJson J json = Inr m \<Longrightarrow> wf_Money m"
  by (auto simp: Money_fromJson_def and_then_Inr_iff dest!: getValue_range Currency_fromJson_wf intro: Money_create_wf)

lemma OrderItem_fromJson_wf: "OrderItem_fromJson J json = Inr item \<Longrightarrow> wf_OrderItem item"
  by (auto simp: OrderItem_fromJson_def and_then_Inr_iff transform_Inr_iff id_create_defs StrongID_create_Inr_iff
      dest!: getValue_range Money_fromJson_wf intro!: OrderItem_create_wf [where p = "ProductId _"])

lemma Order_fromJson_wf:
  assumes "Order_fromJson J json = Inr order"
  shows "wf_Order order"
proof -
  obtain v items where parts: "isValidUuid v" "parseItems J json = Inr items" "Order_create (UserId v) items = Inr order"
    using assms by (auto simp: Order_fromJson_def and_then_Inr_iff id_create_defs)
  then have "list_all wf_OrderItem items"
    by (auto simp: parseItems_def and_then_Inr_iff traverse_Inr_iff list_all2_conv_all_nth list_all_length
        intro: OrderItem_fromJson_wf split: if_splits)
  with parts show ?thesis using Order_create_wf [of "UserId v" items order] by simp
qed

end

end
