(* ===== verification/EventJson.thy ===== *)
theory EventJson
  imports OrderJson
begin

text \<open>
  The events the services exchange and their JSON: \<open>worker-service/events\<close>,
  \<open>worker-service/events2json-mapper\<close>, and the order service's reading side
  \<open>order-service/event-handlers/OrderReservedEvent*\<close>. The worker reads as \<open>OrderCreatedEvent\<close> what the
  order service wrote as an order.
\<close>

section \<open>The worker's events\<close>

datatype OrderCreatedEventParseError = MalformedJson | MissingField | InvalidId

record OrderCreatedItem =
  ci_productId :: ProductId
  ci_quantity :: int

record OrderCreatedEvent =
  ce_orderId :: OrderId
  ce_userId :: UserId
  ce_items :: "OrderCreatedItem list"

record OrderReservedEvent =
  re_orderId :: OrderId

definition KEY_ORDER_ID :: string where "KEY_ORDER_ID = ''orderId''"
definition KEY_USER_ID :: string where "KEY_USER_ID = ''userId''"
definition KEY_ITEMS :: string where "KEY_ITEMS = ''items''"
definition KEY_PRODUCT_ID :: string where "KEY_PRODUCT_ID = ''productId''"
definition KEY_QUANTITY :: string where "KEY_QUANTITY = ''quantity''"

lemmas event_keys [simp] =
  KEY_ORDER_ID_def KEY_USER_ID_def KEY_ITEMS_def KEY_PRODUCT_ID_def KEY_QUANTITY_def

definition parseItem :: "'j json_lib \<Rightarrow> 'j \<Rightarrow> OrderCreatedItem expected" where
  "parseItem J json =
     (case getValue J (jl_get_string J) json KEY_PRODUCT_ID of
        Inl e \<Rightarrow> Inl e
      | Inr productIdString \<Rightarrow>
          (case ProductId_create productIdString of
             Inl e \<Rightarrow> Inl e
           | Inr productId \<Rightarrow>
               (case getValue J (jl_get_i32 J) json KEY_QUANTITY of
                  Inl e \<Rightarrow> Inl e
                | Inr quantity \<Rightarrow>
                    if quantity \<le> 0 then Inl errc_invalid_argument
                    else Inr \<lparr>ci_productId = productId, ci_quantity = quantity\<rparr>)))"

definition event_parseItems :: "'j json_lib \<Rightarrow> 'j \<Rightarrow> OrderCreatedItem list expected" where
  "event_parseItems J json =
     (case getValue J get_json json KEY_ITEMS of
        Inl e \<Rightarrow> Inl e
      | Inr itemsJson \<Rightarrow>
          if \<not> jl_is_array J itemsJson then Inl errc_invalid_argument
          else traverse (parseItem J) (jl_elements J itemsJson))"

definition OrderCreatedEvent_fromJson :: "'j json_lib \<Rightarrow> 'j \<Rightarrow> OrderCreatedEvent expected" where
  "OrderCreatedEvent_fromJson J json =
     (case getValue J (jl_get_string J) json KEY_ORDER_ID of
        Inl e \<Rightarrow> Inl e
      | Inr orderIdString \<Rightarrow>
     (case OrderId_create orderIdString of
        Inl e \<Rightarrow> Inl e
      | Inr orderId \<Rightarrow>
     (case getValue J (jl_get_string J) json KEY_USER_ID of
        Inl e \<Rightarrow> Inl e
      | Inr userIdString \<Rightarrow>
     (case UserId_create userIdString of
        Inl e \<Rightarrow> Inl e
      | Inr userId \<Rightarrow>
     (case event_parseItems J json of
        Inl e \<Rightarrow> Inl e
      | Inr items \<Rightarrow> Inr \<lparr>ce_orderId = orderId, ce_userId = userId, ce_items = items\<rparr>)))))"

definition OrderCreatedEvent_toJson :: "'j json_lib \<Rightarrow> OrderCreatedEvent \<Rightarrow> 'j" where
  "OrderCreatedEvent_toJson J event =
     (let itemJson = (\<lambda>item.
            jl_set J KEY_QUANTITY (jl_of_int J (ci_quantity item))
              (jl_set J KEY_PRODUCT_ID (jl_of_string J (productId_value (ci_productId item))) (jl_null J))) in
      jl_set J KEY_ITEMS (jl_of_array J (map itemJson (ce_items event)))
        (jl_set J KEY_USER_ID (jl_of_string J (userId_value (ce_userId event)))
          (jl_set J KEY_ORDER_ID (jl_of_string J (orderId_value (ce_orderId event))) (jl_null J))))"

definition OrderReservedEvent_toJson :: "'j json_lib \<Rightarrow> OrderReservedEvent \<Rightarrow> 'j" where
  "OrderReservedEvent_toJson J event =
     jl_set J KEY_ORDER_ID (jl_of_string J (orderId_value (re_orderId event))) (jl_null J)"

section \<open>The order service's event\<close>

record order_OrderReservedEvent =
  ore_orderId :: OrderId

definition order_OrderReservedEvent_fromJson :: "'j json_lib \<Rightarrow> 'j \<Rightarrow> order_OrderReservedEvent expected" where
  "order_OrderReservedEvent_fromJson J json =
     transform
       (and_then (getValue J (jl_get_string J) json KEY_ORDER_ID) (\<lambda>v. OrderId_create v))
       (\<lambda>orderId. \<lparr>ore_orderId = orderId\<rparr>)"

section \<open>Round trips\<close>

definition wf_OrderCreatedEvent :: "OrderCreatedEvent \<Rightarrow> bool" where
  "wf_OrderCreatedEvent event \<longleftrightarrow>
     isValidUuid (orderId_value (ce_orderId event)) \<and> isValidUuid (userId_value (ce_userId event)) \<and>
     list_all (\<lambda>item. isValidUuid (productId_value (ci_productId item)) \<and>
       0 < ci_quantity item \<and> ci_quantity item \<le> INT32_MAX) (ce_items event)"

text \<open>The event a worker should see for an order.\<close>

definition createdItem :: "OrderItem \<Rightarrow> OrderCreatedItem" where
  "createdItem item = \<lparr>ci_productId = oi_productId item, ci_quantity = oi_quantity item\<rparr>"

context json_laws
begin

lemma parseItem_of_order: "wf_OrderItem item \<Longrightarrow> parseItem J (OrderItem_toJson J item) = Inr (createdItem item)"
  using wf_ranges(3) [of item]
  by (simp add: parseItem_def OrderItem_toJson_def objects reads id_create_defs StrongID_create_valid
      createdItem_def wf_OrderItem_def)

lemma OrderCreatedEvent_of_order:
  assumes "wf_Order order" "o_orderId order = Some i"
  shows "OrderCreatedEvent_fromJson J (Order_toJson J order) =
    Inr \<lparr>ce_orderId = i, ce_userId = o_userId order, ce_items = map createdItem (o_items order)\<rparr>"
proof -
  have wf: "isValidUuid (userId_value (o_userId order))" "isValidUuid (orderId_value i)"
    using assms by (auto simp: wf_Order_def)
  have "traverse (parseItem J) (map (OrderItem_toJson J) (o_items order)) = Inr (map createdItem (o_items order))"
    using assms(1) by (intro traverse_map_to parseItem_of_order) (simp add: wf_Order_def list_all_iff)
  then have "event_parseItems J (Order_toJson J order) = Inr (map createdItem (o_items order))"
    by (simp add: event_parseItems_def Order_toJson_def objects reads get_json_def Let_def assms(2))
  moreover have "getValue J (jl_get_string J) (Order_toJson J order) ''orderId'' = Inr (orderId_value i)"
    "getValue J (jl_get_string J) (Order_toJson J order) ''userId'' = Inr (userId_value (o_userId order))"
    by (simp_all add: Order_toJson_def objects reads Let_def assms(2))
  ultimately show ?thesis
    using wf by (simp add: OrderCreatedEvent_fromJson_def id_create_defs StrongID_create_valid)
qed

lemma OrderCreatedEvent_roundtrip:
  assumes "wf_OrderCreatedEvent event"
  shows "OrderCreatedEvent_fromJson J (OrderCreatedEvent_toJson J event) = Inr event"
proof -
  define g where "g item = jl_set J ''quantity'' (jl_of_int J (ci_quantity item))
      (jl_set J ''productId'' (jl_of_string J (productId_value (ci_productId item))) (jl_null J))" for item :: OrderCreatedItem
  have "traverse (parseItem J) (map g (ce_items event)) = Inr (ce_items event)"
    using assms
    by (intro traverse_map)
      (auto simp: parseItem_def g_def objects reads id_create_defs StrongID_create_valid wf_OrderCreatedEvent_def
        list_all_iff in_i32_def int_limits)
  then have "event_parseItems J (OrderCreatedEvent_toJson J event) = Inr (ce_items event)"
    by (simp add: event_parseItems_def OrderCreatedEvent_toJson_def objects reads get_json_def g_def [abs_def])
  then show ?thesis
    using assms
    by (simp add: OrderCreatedEvent_fromJson_def OrderCreatedEvent_toJson_def objects reads id_create_defs
        StrongID_create_valid wf_OrderCreatedEvent_def)
qed

lemma OrderReservedEvent_handover:
  "isValidUuid (orderId_value (re_orderId event)) \<Longrightarrow>
   order_OrderReservedEvent_fromJson J (OrderReservedEvent_toJson J event) = Inr \<lparr>ore_orderId = re_orderId event\<rparr>"
  by (simp add: order_OrderReservedEvent_fromJson_def OrderReservedEvent_toJson_def objects reads id_create_defs
      StrongID_create_valid)

lemma OrderReservedEvent_ok:
  "isValidUuid (orderId_value (re_orderId event)) \<Longrightarrow> ok (OrderReservedEvent_toJson J event)"
  by (simp add: OrderReservedEvent_toJson_def objects ascii_utf8 isValidUuid_ascii)

end

end
