(* ===== verification/JsonValue.thy ===== *)
theory JsonValue
  imports EventJson StdMap Decimal
begin

text \<open>
  JSON values with the operations of nlohmann::json, and their text: a concrete instance of the laws
  of \<open>json_laws\<close>. Objects are ordered maps, integers are converted to a narrower type modulo its
  width, and text is written without white space and read with it. Floating-point numbers are left
  out, and strings are bytes.
\<close>

datatype jvalue =
    JNull
  | JBool bool
  | JInt int
  | JStr string
  | JArr "jvalue list"
  | JObj "(string \<times> jvalue) list"

section \<open>Access and construction\<close>

definition v_at :: "jvalue \<Rightarrow> string \<Rightarrow> json_exception + jvalue" where
  "v_at j k =
     (case j of
        JObj kvs \<Rightarrow> (case kv_find k kvs of None \<Rightarrow> Inl OutOfRange | Some v \<Rightarrow> Inr v)
      | _ \<Rightarrow> Inl TypeError)"

definition v_set :: "string \<Rightarrow> jvalue \<Rightarrow> jvalue \<Rightarrow> jvalue" where
  "v_set k v j =
     (case j of
        JObj kvs \<Rightarrow> JObj (kv_insert_or_assign k v kvs)
      | _ \<Rightarrow> JObj (kv_insert_or_assign k v []))"

definition v_get_string :: "jvalue \<Rightarrow> json_exception + string" where
  "v_get_string j = (case j of JStr s \<Rightarrow> Inr s | _ \<Rightarrow> Inl TypeError)"

definition v_get_int :: "(int \<Rightarrow> int) \<Rightarrow> jvalue \<Rightarrow> json_exception + int" where
  "v_get_int narrow j = (case j of JInt n \<Rightarrow> Inr (narrow n) | JBool b \<Rightarrow> Inr (of_bool b) | _ \<Rightarrow> Inl TypeError)"

definition v_get_i64 :: "jvalue \<Rightarrow> json_exception + int" where
  "v_get_i64 j = (case j of JInt n \<Rightarrow> Inr (wrap_i64 n) | _ \<Rightarrow> Inl TypeError)"

definition wrap_i32 :: "int \<Rightarrow> int" where
  "wrap_i32 x = (x + 2147483648) mod 4294967296 - 2147483648"

definition v_get_bool :: "jvalue \<Rightarrow> json_exception + bool" where
  "v_get_bool j = (case j of JBool b \<Rightarrow> Inr b | _ \<Rightarrow> Inl TypeError)"

definition v_is_array :: "jvalue \<Rightarrow> bool" where
  "v_is_array j = (case j of JArr _ \<Rightarrow> True | _ \<Rightarrow> False)"

definition v_elements :: "jvalue \<Rightarrow> jvalue list" where
  "v_elements j = (case j of JArr xs \<Rightarrow> xs | JObj kvs \<Rightarrow> map snd kvs | JNull \<Rightarrow> [] | _ \<Rightarrow> [j])"

section \<open>Text\<close>

definition isControl :: "char \<Rightarrow> bool" where
  "isControl c \<longleftrightarrow> (of_char c :: nat) < 32"

definition hexChar :: "nat \<Rightarrow> char" where
  "hexChar d = (if d < 10 then char_of (48 + d) else char_of (87 + d))"

definition hexValue :: "char \<Rightarrow> nat option" where
  "hexValue c = find (\<lambda>d. hexChar d = c) [0..<16]"

definition escape :: "char \<Rightarrow> string" where
  "escape c =
     (if c = CHR 0x22 then [CHR 0x5C, CHR 0x22]
      else if c = CHR 0x5C then [CHR 0x5C, CHR 0x5C]
      else if isControl c then
        [CHR 0x5C, CHR ''u'', CHR ''0'', CHR ''0'', hexChar (of_char c div 16), hexChar (of_char c mod 16)]
      else [c])"

fun join :: "string list \<Rightarrow> string" where
  "join [] = []"
| "join [s] = s"
| "join (s # ss) = s @ CHR '','' # join ss"

definition dump_string :: "string \<Rightarrow> string" where
  "dump_string s = CHR 0x22 # concat (map escape s) @ [CHR 0x22]"

primrec dump :: "jvalue \<Rightarrow> string" where
  "dump JNull = ''null''"
| "dump (JBool b) = (if b then ''true'' else ''false'')"
| "dump (JInt n) = to_string n"
| "dump (JStr s) = dump_string s"
| "dump (JArr xs) = CHR ''['' # join (map dump xs) @ [CHR '']'']"
| "dump (JObj kvs) =
     CHR ''{'' # join (map (\<lambda>(k, text). dump_string k @ CHR '':'' # text) (map (map_prod id dump) kvs)) @ [CHR ''}'']"

definition isSpace :: "char \<Rightarrow> bool" where
  "isSpace c \<longleftrightarrow> c \<in> {CHR '' '', CHR 0x09, CHR 0x0A, CHR 0x0D}"

definition skip :: "string \<Rightarrow> string" where
  "skip s = dropWhile isSpace s"

text \<open>A string after its opening quote, and what follows it.\<close>

fun parse_string :: "string \<Rightarrow> (string \<times> string) option" where
  "parse_string [] = None"
| "parse_string (c # s) =
     (if c = CHR 0x22 then Some ([], s)
      else if isControl c then None
      else if c \<noteq> CHR 0x5C then map_option (map_prod ((#) c) id) (parse_string s)
      else
        (case s of
           e # t \<Rightarrow>
             if e \<in> {CHR 0x22, CHR 0x5C, CHR ''/''} then map_option (map_prod ((#) e) id) (parse_string t)
             else if e = CHR ''u'' then
               (case t of
                  z # z' # a # b # u \<Rightarrow>
                    (case (hexValue a, hexValue b) of
                       (Some m, Some n) \<Rightarrow>
                         if z = CHR ''0'' \<and> z' = CHR ''0''
                         then map_option (map_prod ((#) (char_of (16 * m + n))) id) (parse_string u) else None
                     | _ \<Rightarrow> None)
                | _ \<Rightarrow> None)
             else None
         | [] \<Rightarrow> None))"

definition parse_int :: "string \<Rightarrow> (jvalue \<times> string) option" where
  "parse_int s =
     (let (sign, t) = (case s of c # t \<Rightarrow> if c = CHR ''-'' then (- 1, t) else (1, s) | [] \<Rightarrow> (1, s));
          ds = takeWhile isDigit t in
      if ds = [] then None else Some (JInt (sign * int (decimalValue ds)), dropWhile isDigit t))"

definition parse_word :: "string \<Rightarrow> jvalue \<Rightarrow> string \<Rightarrow> (jvalue \<times> string) option" where
  "parse_word w v s = (if take (length w) s = w then Some (v, drop (length w) s) else None)"

definition object_of :: "(string \<times> jvalue) list \<Rightarrow> jvalue" where
  "object_of kvs = JObj (foldl (\<lambda>m (k, v). kv_insert_or_assign k v m) [] kvs)"

fun parse_value :: "nat \<Rightarrow> string \<Rightarrow> (jvalue \<times> string) option"
  and parse_items :: "nat \<Rightarrow> string \<Rightarrow> (jvalue list \<times> string) option"
  and parse_members :: "nat \<Rightarrow> string \<Rightarrow> ((string \<times> jvalue) list \<times> string) option" where
  "parse_value 0 s = None"
| "parse_value (Suc n) s =
     (case skip s of
        [] \<Rightarrow> None
      | c # t \<Rightarrow>
          if c = CHR ''['' then
            if take 1 (skip t) = [CHR '']''] then Some (JArr [], drop 1 (skip t))
            else map_option (map_prod JArr id) (parse_items n t)
          else if c = CHR ''{'' then
            if take 1 (skip t) = [CHR ''}''] then Some (JObj [], drop 1 (skip t))
            else map_option (map_prod object_of id) (parse_members n t)
          else if c = CHR 0x22 then map_option (map_prod JStr id) (parse_string t)
          else if c = CHR ''n'' then parse_word ''null'' JNull (c # t)
          else if c = CHR ''t'' then parse_word ''true'' (JBool True) (c # t)
          else if c = CHR ''f'' then parse_word ''false'' (JBool False) (c # t)
          else parse_int (c # t))"
| "parse_items 0 s = None"
| "parse_items (Suc n) s =
     (case parse_value n s of
        None \<Rightarrow> None
      | Some (v, r) \<Rightarrow>
          (case skip r of
             [] \<Rightarrow> None
           | c # t \<Rightarrow>
               if c = CHR '','' then map_option (map_prod ((#) v) id) (parse_items n t)
               else if c = CHR '']'' then Some ([v], t)
               else None))"
| "parse_members 0 s = None"
| "parse_members (Suc n) s =
     (case skip s of
        [] \<Rightarrow> None
      | q # s' \<Rightarrow>
          if q \<noteq> CHR 0x22 then None
          else
            (case parse_string s' of
               None \<Rightarrow> None
             | Some (k, r) \<Rightarrow>
                 if take 1 (skip r) \<noteq> [CHR '':''] then None
                 else
                   (case parse_value n (drop 1 (skip r)) of
                      None \<Rightarrow> None
                    | Some (v, r') \<Rightarrow>
                        (case skip r' of
                           [] \<Rightarrow> None
                         | c # t \<Rightarrow>
                             if c = CHR '','' then map_option (map_prod ((#) (k, v)) id) (parse_members n t)
                             else if c = CHR ''}'' then Some ([(k, v)], t)
                             else None))))"

definition parse :: "string \<Rightarrow> json_exception + jvalue" where
  "parse s =
     (case parse_value (Suc (length s)) s of
        Some (v, r) \<Rightarrow> if skip r = [] then Inr v else Inl ParseError
      | None \<Rightarrow> Inl ParseError)"

definition value_lib :: "jvalue json_lib" where
  "value_lib =
     \<lparr>jl_at = v_at, jl_get_string = v_get_string, jl_get_i8 = v_get_int wrap_i8, jl_get_i32 = v_get_int wrap_i32,
      jl_get_i64 = v_get_i64, jl_get_u16 = v_get_int wrap_u16, jl_get_bool = v_get_bool,
      jl_is_array = v_is_array, jl_elements = v_elements, jl_null = JNull, jl_set = v_set,
      jl_of_string = JStr, jl_of_int = JInt, jl_of_bool = JBool, jl_of_array = JArr,
      jl_parse = parse, jl_dump = dump\<rparr>"

section \<open>Reading back what was written\<close>

primrec v_ok :: "jvalue \<Rightarrow> bool" where
  "v_ok JNull = True"
| "v_ok (JBool b) = True"
| "v_ok (JInt n) = True"
| "v_ok (JStr s) = True"
| "v_ok (JArr xs) = list_all id (map v_ok xs)"
| "v_ok (JObj kvs) = (kv_sorted kvs \<and> list_all snd (map (map_prod id v_ok) kvs))"

definition v_obj :: "jvalue \<Rightarrow> bool" where
  "v_obj j = (case j of JNull \<Rightarrow> True | JObj _ \<Rightarrow> True | _ \<Rightarrow> False)"

lemma hexValue_hexChar: "d < 16 \<Longrightarrow> hexValue (hexChar d) = Some d"
proof -
  have "\<forall>d \<in> set [0..<16]. hexValue (hexChar d) = Some d" by code_simp
  then show "d < 16 \<Longrightarrow> ?thesis" by simp
qed

lemma parse_string_escape:
  "parse_string (escape c @ t) = map_option (map_prod ((#) c) id) (parse_string t)"
proof (cases "c = CHR 0x22 \<or> c = CHR 0x5C \<or> \<not> isControl c")
  case True
  have "\<not> isControl CHR 0x5C" by (simp add: isControl_def)
  with True show ?thesis by (auto simp: escape_def)
next
  case False
  let ?n = "of_char c :: nat"
  have n: "?n div 16 < 16" "?n mod 16 < 16" "16 * (?n div 16) + ?n mod 16 = ?n"
    using False by (auto simp: isControl_def)
  have "\<not> isControl CHR 0x5C" by (simp add: isControl_def)
  with False n show ?thesis
    by (simp add: escape_def hexValue_hexChar)
qed

lemma parse_string_dump: "parse_string (concat (map escape s) @ CHR 0x22 # rest) = Some (s, rest)"
  by (induction s) (simp_all add: parse_string_escape del: parse_string.simps(2), simp)

lemma parse_int_to_string:
  assumes "rest = [] \<or> \<not> isDigit (hd rest)"
  shows "parse_int (to_string n @ rest) = Some (JInt n, rest)"
proof (cases "n < 0")
  case True
  then show ?thesis
    using takeWhile_digits [OF assms, of "nat (- n)"] by (simp add: parse_int_def to_string_def)
next
  case False
  obtain c s where cs: "digits (nat n) = c # s" by (cases "digits (nat n)") auto
  then have "c \<noteq> CHR ''-''" using hd_digits [of "nat n"] by (auto simp: isDigit_def)
  with False cs takeWhile_digits [OF assms, of "nat n"] decimalValue_digits [of "nat n"] show ?thesis
    by (auto simp: parse_int_def to_string_def Let_def)
qed

text \<open>The first character of a value's text: it tells what the value is.\<close>

lemma dump_first:
  "\<exists>c s. dump j = c # s \<and> \<not> isSpace c \<and> c \<noteq> CHR '']'' \<and> c \<noteq> CHR ''}''"
proof (cases j)
  case (JInt n)
  obtain c s where cs: "digits (nat \<bar>n\<bar>) = c # s" by (cases "digits (nat \<bar>n\<bar>)") auto
  then have "isDigit c" using hd_digits [of "nat \<bar>n\<bar>"] by simp
  then have "\<not> isSpace c \<and> c \<noteq> CHR '']'' \<and> c \<noteq> CHR ''}''" by (auto simp: isSpace_def isDigit_def)
  with JInt cs show ?thesis by (auto simp: to_string_def isSpace_def)
qed (auto simp: isSpace_def dump_string_def)

lemma skip_first: "\<not> isSpace c \<Longrightarrow> skip (c # s) = c # s"
  by (simp add: skip_def)

definition closed :: "string \<Rightarrow> bool" where
  "closed rest \<longleftrightarrow> rest = [] \<or> hd rest \<in> {CHR '','', CHR '']'', CHR ''}''}"

definition reads_back :: "jvalue \<Rightarrow> bool" where
  "reads_back j \<longleftrightarrow>
     (\<forall>n rest. closed rest \<longrightarrow> length (dump j) < n \<longrightarrow> parse_value n (dump j @ rest) = Some (j, rest))"

lemma reads_backD: "reads_back j \<Longrightarrow> closed rest \<Longrightarrow> length (dump j) < n \<Longrightarrow> parse_value n (dump j @ rest) = Some (j, rest)"
  by (simp add: reads_back_def)

lemma closed_delims [simp]:
  "closed []" "closed (CHR '','' # s)" "closed (CHR '']'' # s)" "closed (CHR ''}'' # s)"
  by (simp_all add: closed_def)

lemma skip_delims [simp]:
  "skip (CHR '','' # s) = CHR '','' # s" "skip (CHR '']'' # s) = CHR '']'' # s"
  "skip (CHR ''}'' # s) = CHR ''}'' # s" "skip (CHR '':'' # s) = CHR '':'' # s"
  "skip (CHR 0x22 # s) = CHR 0x22 # s" "skip (CHR ''['' # s) = CHR ''['' # s" "skip (CHR ''{'' # s) = CHR ''{'' # s"
  by (simp_all add: skip_def isSpace_def)

lemma parse_items_join:
  "xs \<noteq> [] \<Longrightarrow> \<forall>x \<in> set xs. reads_back x \<Longrightarrow> Suc (length (join (map dump xs))) < n \<Longrightarrow>
   parse_items n (join (map dump xs) @ CHR '']'' # rest) = Some (xs, rest)"
proof (induction xs arbitrary: n)
  case (Cons x xs)
  obtain m where n: "n = Suc m" using Cons.prems(3) by (cases n) auto
  show ?case
  proof (cases xs)
    case Nil
    then show ?thesis using Cons.prems reads_backD [of x "CHR '']'' # rest" m] by (simp add: n)
  next
    case (Cons y ys)
    then have "Suc (length (join (map dump xs))) < m" using Cons.prems(3) dump_first [of x] by (auto simp: n)
    with Cons.IH [of m] Cons.prems reads_backD [of x "CHR '','' # join (map dump xs) @ CHR '']'' # rest" m] Cons n
    show ?thesis by simp
  qed
qed simp

definition member_text :: "string \<times> jvalue \<Rightarrow> string" where
  "member_text kv = dump_string (fst kv) @ CHR '':'' # dump (snd kv)"

lemma dump_JObj: "dump (JObj kvs) = CHR ''{'' # join (map member_text kvs) @ [CHR ''}'']"
  by (simp add: member_text_def [abs_def] comp_def case_prod_beta)

lemma parse_member:
  assumes "reads_back v" "closed (c # rest)" "length (dump v) < n"
  shows "parse_members (Suc n) (member_text (k, v) @ c # rest) =
    (case skip (c # rest) of
       [] \<Rightarrow> None
     | c # t \<Rightarrow>
         if c = CHR '','' then map_option (map_prod ((#) (k, v)) id) (parse_members n t)
         else if c = CHR ''}'' then Some ([(k, v)], t) else None)"
  using parse_string_dump [of k "CHR '':'' # dump v @ c # rest"] reads_backD [OF assms]
  by (simp add: member_text_def dump_string_def del: parse_string.simps)

lemma parse_members_join:
  "kvs \<noteq> [] \<Longrightarrow> \<forall>kv \<in> set kvs. reads_back (snd kv) \<Longrightarrow> Suc (length (join (map member_text kvs))) < n \<Longrightarrow>
   parse_members n (join (map member_text kvs) @ CHR ''}'' # rest) = Some (kvs, rest)"
proof (induction kvs arbitrary: n)
  case (Cons kv kvs)
  obtain m where n: "n = Suc m" using Cons.prems(3) by (cases n) auto
  obtain k v where kv: "kv = (k, v)" by (cases kv)
  have rb: "reads_back v" using Cons.prems(2) kv by simp
  have len: "length (dump v) < length (member_text kv)" by (simp add: member_text_def kv)
  show ?case
  proof (cases kvs)
    case Nil
    then have "length (dump v) < m" using Cons.prems(3) len n by simp
    from parse_member [OF rb closed_delims(4) [of rest] this, of k] Nil show ?thesis by (simp add: n kv)
  next
    case (Cons kv' kvs')
    then have fuel: "length (dump v) < m" "Suc (length (join (map member_text kvs))) < m"
      using Cons.prems(3) len n by auto
    from parse_member [OF rb closed_delims(2) [of "join (map member_text kvs) @ CHR ''}'' # rest"] fuel(1), of k]
      Cons.IH [OF _ _ fuel(2)] Cons.prems(2) Cons
    show ?thesis by (simp add: n kv)
  qed
qed simp

lemma kv_insert_last: "\<forall>x \<in> set (map fst m). x < k \<Longrightarrow> kv_insert_or_assign k v m = m @ [(k, v)]"
  by (induction m) auto

lemma object_of_sorted: "kv_sorted kvs \<Longrightarrow> object_of kvs = JObj kvs"
proof (induction kvs rule: rev_induct)
  case (snoc kv kvs)
  obtain k v where kv: "kv = (k, v)" by (cases kv)
  with snoc show ?case by (simp add: object_of_def sorted_wrt_append kv_insert_last)
qed (simp add: object_of_def)

lemma join_first:
  assumes "xs \<noteq> []"
  shows "take 1 (skip (join (map dump xs) @ CHR '']'' # rest)) \<noteq> [CHR '']'']"
proof -
  obtain x ys where xs: "xs = x # ys" using assms by (cases xs) auto
  obtain c s where "dump x = c # s" "\<not> isSpace c" "c \<noteq> CHR '']''" using dump_first [of x] by blast
  then show ?thesis by (cases ys) (simp_all add: xs skip_first)
qed

lemma members_first:
  assumes "kvs \<noteq> []"
  shows "take 1 (skip (join (map member_text kvs) @ CHR ''}'' # rest)) \<noteq> [CHR ''}'']"
proof -
  obtain kv kvs' where "kvs = kv # kvs'" using assms by (cases kvs) auto
  then show ?thesis by (cases kvs') (simp_all add: member_text_def dump_string_def)
qed

lemma reads_back_int: "reads_back (JInt m)"
  unfolding reads_back_def
proof (intro allI impI)
  fix n and rest :: string
  assume closed: "closed rest" and fuel: "length (dump (JInt m)) < n"
  obtain n' where n: "n = Suc n'" using fuel by (cases n) auto
  have end': "rest = [] \<or> \<not> isDigit (hd rest)" using closed by (auto simp: closed_def isDigit_def)
  obtain c s where cs: "to_string m = c # s" "isDigit c \<or> c = CHR ''-''"
    using hd_digits by (cases "m < 0"; cases "digits (nat \<bar>m\<bar>)") (auto simp: to_string_def, metis hd_digits list.sel(1))
  then have "\<not> isSpace c" "c \<notin> {CHR ''['', CHR ''{'', CHR 0x22, CHR ''n'', CHR ''t'', CHR ''f''}"
    by (auto simp: isSpace_def isDigit_def)
  with cs(1) parse_int_to_string [OF end', of m] show "parse_value n (dump (JInt m) @ rest) = Some (JInt m, rest)"
    by (simp add: n skip_first)
qed

lemma reads_back_arr:
  assumes "\<forall>x \<in> set xs. reads_back x"
  shows "reads_back (JArr xs)"
  unfolding reads_back_def
proof (intro allI impI)
  fix n and rest :: string
  assume fuel: "length (dump (JArr xs)) < n"
  obtain n' where n: "n = Suc n'" using fuel by (cases n) auto
  show "parse_value n (dump (JArr xs) @ rest) = Some (JArr xs, rest)"
  proof (cases "xs = []")
    case False
    then show ?thesis
      using parse_items_join [OF False assms, of n' rest] join_first [OF False, of rest] fuel n by simp
  qed (simp add: n)
qed

lemma reads_back_obj:
  assumes "\<forall>kv \<in> set kvs. reads_back (snd kv)" "kv_sorted kvs"
  shows "reads_back (JObj kvs)"
  unfolding reads_back_def
proof (intro allI impI)
  fix n and rest :: string
  assume fuel: "length (dump (JObj kvs)) < n"
  obtain n' where n: "n = Suc n'" using fuel by (cases n) auto
  show "parse_value n (dump (JObj kvs) @ rest) = Some (JObj kvs, rest)"
  proof (cases "kvs = []")
    case False
    then show ?thesis
      using parse_members_join [OF False assms(1), of n' rest] members_first [OF False, of rest] fuel n
        object_of_sorted [OF assms(2)] by (simp add: dump_JObj del: dump.simps)
  qed (simp add: n)
qed

lemma v_ok_reads_back: "v_ok j \<Longrightarrow> reads_back j"
proof (induction j)
  case (JInt n)
  then show ?case by (simp add: reads_back_int)
next
  case (JArr xs)
  then show ?case by (intro reads_back_arr) (auto simp: list_all_iff)
next
  case (JObj kvs)
  then show ?case by (intro reads_back_obj) (auto simp: list_all_iff)
next
  case (JStr s)
  show ?case
    unfolding reads_back_def
  proof (intro allI impI)
    fix n and rest :: string
    assume "length (dump (JStr s)) < n"
    then obtain n' where "n = Suc n'" by (cases n) auto
    then show "parse_value n (dump (JStr s) @ rest) = Some (JStr s, rest)"
      using parse_string_dump [of s rest] by (simp add: dump_string_def del: parse_string.simps)
  qed
next
  case JNull
  then show ?case unfolding reads_back_def
    by (auto simp: gr0_conv_Suc skip_def isSpace_def parse_word_def dest!: less_imp_Suc_add)
next
  case (JBool b)
  then show ?case unfolding reads_back_def
    by (cases b) (auto simp: skip_def isSpace_def parse_word_def dest!: less_imp_Suc_add)
qed

lemma parse_dump: "v_ok j \<Longrightarrow> parse (dump j) = Inr j"
  using reads_backD [OF v_ok_reads_back, of j "[]" "Suc (length (dump j))"] by (simp add: parse_def skip_def)

lemma wrap_i32_id: "in_i32 n \<Longrightarrow> wrap_i32 n = n"
  by (simp add: wrap_i32_def in_i32_def int_limits)

lemma set_kv_insert: "set (kv_insert_or_assign k v m) \<subseteq> insert (k, v) (set m)"
  by (induction k v m rule: kv_insert_or_assign.induct) auto

lemma kv_find_single: "kv_find k [(k, v)] = Some v"
  by (simp add: kv_find_def)

interpretation vj: json_laws value_lib v_ok v_obj "\<lambda>_. True"
  by (unfold_locales, unfold value_lib_def json_lib.simps)
    (auto simp: v_obj_def v_set_def v_at_def v_get_string_def v_get_int_def v_get_i64_def v_get_bool_def
    v_is_array_def v_elements_def wrap_i32_id parse_dump list_all_iff kv_find_single kv.invar_insert
      dest!: set_kv_insert [THEN subsetD] split: jvalue.splits)

interpretation vr: json_ranges value_lib
  by (unfold_locales, unfold value_lib_def json_lib.simps)
    (auto simp: v_get_int_def v_get_i64_def wrap_i32_def wrap_i8_def in_i8_def in_i32_def int_limits wrap_i64_range
      split: jvalue.splits)

section \<open>Properties\<close>

text \<open>An order that is written as JSON text and read back, as a client does with the service's
  answers, is the order with its user, its items, quantities and prices; the reader makes a new
  order of it, without id and with the status \<open>Created\<close>.\<close>

lemma order_json_roundtrip:
  assumes "json_laws J ok obj utf8" "wf_Order order" "\<forall>item \<in> set (o_items order). utf8 (itemCode item)"
  shows "\<exists>json. jl_parse J (jl_dump J (Order_toJson J order)) = Inr json \<and>
    Order_fromJson J json = Inr (order\<lparr>o_orderId := None, o_status := Created\<rparr>)"
  using json_laws.parse_dump [OF assms(1) json_laws.Order_ok [OF assms(1) assms(2,3)]]
    json_laws.Order_roundtrip [OF assms(1,2)] by blast

text \<open>C32. The events between the services: what the order service writes for a stored order the worker
  reads as the event with that order's id, user, products and quantities, and what the worker writes
  for a reservation the order service reads as a reservation of the same order.\<close>

theorem events_handover:
  assumes "json_laws J ok obj utf8" "wf_Order order" "\<forall>item \<in> set (o_items order). utf8 (itemCode item)"
    and "o_orderId order = Some i"
  shows "(\<exists>json. jl_parse J (jl_dump J (Order_toJson J order)) = Inr json \<and>
      OrderCreatedEvent_fromJson J json =
        Inr \<lparr>ce_orderId = i, ce_userId = o_userId order, ce_items = map createdItem (o_items order)\<rparr>) \<and>
    (\<exists>json. jl_parse J (jl_dump J (OrderReservedEvent_toJson J \<lparr>re_orderId = i\<rparr>)) = Inr json \<and>
      order_OrderReservedEvent_fromJson J json = Inr \<lparr>ore_orderId = i\<rparr>)"
proof -
  have "isValidUuid (orderId_value i)" using assms(2,4) by (simp add: wf_Order_def)
  then show ?thesis
    using json_laws.parse_dump [OF assms(1) json_laws.Order_ok [OF assms(1) assms(2,3)]]
      json_laws.parse_dump [OF assms(1) json_laws.OrderReservedEvent_ok [OF assms(1), of "\<lparr>re_orderId = i\<rparr>"]]
      json_laws.OrderCreatedEvent_of_order [OF assms(1,2,4)]
      json_laws.OrderReservedEvent_handover [OF assms(1), of "\<lparr>re_orderId = i\<rparr>"] by simp
qed

theorem events_handover_witness:
  "\<exists>json. parse (dump (OrderReservedEvent_toJson value_lib \<lparr>re_orderId = OrderId sampleUuid\<rparr>)) = Inr json \<and>
     order_OrderReservedEvent_fromJson value_lib json = Inr \<lparr>ore_orderId = OrderId sampleUuid\<rparr>"
proof -
  have "isValidUuid sampleUuid" by code_simp
  then have "wf_Order (sampleOrder\<lparr>o_orderId := Some (OrderId sampleUuid)\<rparr>)"
    using wf_sampleOrder by (simp add: wf_Order_def)
  from events_handover [OF vj.json_laws_axioms this] show ?thesis by (simp add: value_lib_def)
qed

end
