(* ===== verification/OrderRepository.thy ===== *)
theory OrderRepository
  imports OutboxTable JsonValue
begin

text \<open>
  \<open>order-service/repository/PostgresOrderRepository.cpp\<close>, its queries and the row mappers of
  \<open>order-service/models2row-mappers\<close>, on the tables of \<open>order-service/db/migrations\<close>.
\<close>

section \<open>Tables\<close>

record order_row =
  ord_order_id :: string
  ord_user_id :: string
  ord_status :: string

record item_row =
  itm_order_id :: string
  itm_product_id :: string
  itm_quantity :: int
  itm_price_minor_units :: int
  itm_price_currency_code :: string
  itm_price_currency_minor_digits :: int

record order_db =
  db_orders :: "order_row list"
  db_order_items :: "item_row list"
  db_outbox :: "outbox_row list"

definition order_db_init :: order_db where
  "order_db_init = \<lparr>db_orders = [], db_order_items = [], db_outbox = []\<rparr>"

section \<open>Statements\<close>

text \<open>The check of the column \<open>status\<close>.\<close>

definition status_check :: "string \<Rightarrow> bool" where
  "status_check status \<longleftrightarrow> status \<in> {''Created'', ''Reserved'', ''Shipped'', ''Cancelled''}"

definition INSERT_ORDER :: "string \<Rightarrow> string \<Rightarrow> tx_env \<Rightarrow> order_db \<Rightarrow> pqxx_exception + string \<times> order_db" where
  "INSERT_ORDER userId status env db =
     (let orderId = pg_uuid (tx_uuid env 0) in
      if \<not> status_check status then Inl check_violation
      else if orderId \<in> ord_order_id ` set (db_orders db) then Inl unique_violation
      else Inr (orderId, db\<lparr>db_orders := db_orders db @
             [\<lparr>ord_order_id = orderId, ord_user_id = pg_uuid userId, ord_status = status\<rparr>]\<rparr>))"

definition INSERT_ORDER_ITEM ::
  "string \<Rightarrow> string \<Rightarrow> string \<Rightarrow> string \<Rightarrow> string \<Rightarrow> string \<Rightarrow> tx_env \<Rightarrow> order_db \<Rightarrow> pqxx_exception + unit \<times> order_db" where
  "INSERT_ORDER_ITEM orderId productId quantity units currencyCode currencyDigits env db =
     (if pg_int quantity \<le> 0 \<or> pg_int units < 0 then Inl check_violation
      else if pg_uuid orderId \<notin> ord_order_id ` set (db_orders db) then Inl foreign_key_violation
      else Inr ((), db\<lparr>db_order_items := db_order_items db @
             [\<lparr>itm_order_id = pg_uuid orderId, itm_product_id = pg_uuid productId, itm_quantity = pg_int quantity,
               itm_price_minor_units = pg_int units, itm_price_currency_code = currencyCode,
               itm_price_currency_minor_digits = pg_int currencyDigits\<rparr>]\<rparr>))"

definition order_INSERT_OUTBOX_EVENT ::
  "(string \<Rightarrow> string) \<Rightarrow> string \<Rightarrow> string \<Rightarrow> string \<Rightarrow> tx_env \<Rightarrow> order_db \<Rightarrow> pqxx_exception + unit \<times> order_db" where
  "order_INSERT_OUTBOX_EVENT jsonb aggregateId eventType payload env db =
     transform (INSERT_OUTBOX_EVENT jsonb (tx_uuid env 1) aggregateId eventType payload (db_outbox db))
       (\<lambda>rows. ((), db\<lparr>db_outbox := rows\<rparr>))"

definition SELECT_ORDER :: "string \<Rightarrow> tx_env \<Rightarrow> order_db \<Rightarrow> pqxx_exception + order_row list \<times> order_db" where
  "SELECT_ORDER i env db = Inr (filter (\<lambda>row. ord_order_id row = pg_uuid i) (db_orders db), db)"

text \<open>The query has no \<open>ORDER BY\<close>: \<open>scan\<close> is the order in which the server returns the rows.\<close>

definition SELECT_ORDER_ITEMS ::
  "(item_row list \<Rightarrow> item_row list) \<Rightarrow> string \<Rightarrow> tx_env \<Rightarrow> order_db \<Rightarrow> pqxx_exception + item_row list \<times> order_db" where
  "SELECT_ORDER_ITEMS scan i env db =
     Inr (scan (filter (\<lambda>row. itm_order_id row = pg_uuid i) (db_order_items db)), db)"

text \<open>The number of rows changed.\<close>

definition UPDATE_ORDER_STATUS ::
  "string \<Rightarrow> string \<Rightarrow> string \<Rightarrow> tx_env \<Rightarrow> order_db \<Rightarrow> pqxx_exception + nat \<times> order_db" where
  "UPDATE_ORDER_STATUS newStatus i oldStatus env db =
     (let hit = (\<lambda>row. ord_order_id row = pg_uuid i \<and> ord_status row = oldStatus) in
      if filter hit (db_orders db) \<noteq> [] \<and> \<not> status_check newStatus then Inl check_violation
      else Inr (length (filter hit (db_orders db)),
                db\<lparr>db_orders := map (\<lambda>row. if hit row then row\<lparr>ord_status := newStatus\<rparr> else row) (db_orders db)\<rparr>))"

section \<open>Row mappers\<close>

definition OrderItem_fromRow :: "item_row \<Rightarrow> OrderItem expected" where
  "OrderItem_fromRow row =
     and_then
       (and_then
         (and_then (ProductId_create (itm_product_id row)) (\<lambda>productId.
            transform (Currency_create (itm_price_currency_code row) (wrap_i8 (itm_price_currency_minor_digits row)))
              (\<lambda>c. (productId, c))))
         (\<lambda>(productId, c). transform (Money_create (itm_price_minor_units row) c) (\<lambda>price. (productId, price))))
       (\<lambda>(productId, price). OrderItem_create productId (itm_quantity row) price)"

definition Order_fromRows :: "order_row \<Rightarrow> item_row list \<Rightarrow> Order expected" where
  "Order_fromRows row itemRows =
     (case UserId_create (ord_user_id row) of
        Inl e \<Rightarrow> Inl e
      | Inr userId \<Rightarrow>
     (case OrderId_create (ord_order_id row) of
        Inl e \<Rightarrow> Inl e
      | Inr orderId \<Rightarrow>
     (case OrderStatus_fromString (ord_status row) of
        Inl e \<Rightarrow> Inl e
      | Inr status \<Rightarrow>
     (case traverse OrderItem_fromRow itemRows of
        Inl e \<Rightarrow> Inl e
      | Inr items \<Rightarrow> Order_restore userId orderId items status))))"

section \<open>Operations\<close>

definition insert_item :: "string \<Rightarrow> OrderItem \<Rightarrow> (order_db, unit) tx" where
  "insert_item orderIdValue item =
     tx_exec (INSERT_ORDER_ITEM orderIdValue (productId_value (oi_productId item)) (to_string (oi_quantity item))
       (to_string (minorUnits (oi_priceAtOrderTime item))) (code (currency (oi_priceAtOrderTime item)))
       (to_string (minorDigits (currency (oi_priceAtOrderTime item)))))"

definition save_body :: "'j json_lib \<Rightarrow> (string \<Rightarrow> string) \<Rightarrow> Order \<Rightarrow> (order_db, OrderId expected tx_end) tx" where
  "save_body J jsonb order =
     tx_bind (tx_exec (INSERT_ORDER (userId_value (o_userId order)) (OrderStatus_toString (o_status order)))) (\<lambda>orderIdValue.
     tx_bind (tx_for_each (insert_item orderIdValue) (o_items order)) (\<lambda>_.
     case OrderId_create orderIdValue of
       Inl e \<Rightarrow> tx_return (Rollback (Inl e))
     | Inr orderId \<Rightarrow>
         tx_bind (tx_exec (order_INSERT_OUTBOX_EVENT jsonb orderIdValue ''OrderCreated''
             (jl_dump J (Order_toJson J (assignId orderId order))))) (\<lambda>_.
         tx_return (Commit (Inr orderId)))))"

definition save :: "'j json_lib \<Rightarrow> (string \<Rightarrow> string) \<Rightarrow> Order \<Rightarrow> tx_env \<Rightarrow> order_db \<Rightarrow> OrderId expected \<times> order_db" where
  "save J jsonb order = run_tx (save_body J jsonb order)"

text \<open>\<open>one_row\<close>, which throws unless there is exactly one row, and \<open>fromRows\<close> run after the commit, inside the
  \<open>try\<close>.\<close>

definition findById_body ::
  "(item_row list \<Rightarrow> item_row list) \<Rightarrow> OrderId \<Rightarrow> (order_db, Order expected tx_end) tx" where
  "findById_body scan i =
     tx_bind (tx_exec (SELECT_ORDER (orderId_value i))) (\<lambda>orderRows.
     case orderRows of
       [] \<Rightarrow> tx_return (Rollback (Inl (make_RepositoryError RepositoryError.NotFound)))
     | orderRow # others \<Rightarrow>
         tx_bind (tx_exec (SELECT_ORDER_ITEMS scan (orderId_value i))) (\<lambda>itemRows.
         tx_return (Commit (if others = [] then Order_fromRows orderRow itemRows
                            else Inl (mapPqxxException other_exception)))))"

definition findById ::
  "(item_row list \<Rightarrow> item_row list) \<Rightarrow> OrderId \<Rightarrow> tx_env \<Rightarrow> order_db \<Rightarrow> Order expected \<times> order_db" where
  "findById scan i = run_tx (findById_body scan i)"

definition changeStatus ::
  "OrderId \<Rightarrow> OrderStatus \<Rightarrow> OrderStatus \<Rightarrow> tx_env \<Rightarrow> order_db \<Rightarrow> bool expected \<times> order_db" where
  "changeStatus i fromStatus toStatus =
     run_tx
       (tx_bind (tx_exec (UPDATE_ORDER_STATUS (OrderStatus_toString toStatus) (orderId_value i)
            (OrderStatus_toString fromStatus))) (\<lambda>affected_rows.
        tx_return (Commit (Inr (0 < affected_rows)))))"

section \<open>The rows of an order\<close>

definition item_row_of :: "string \<Rightarrow> OrderItem \<Rightarrow> item_row" where
  "item_row_of orderId item =
     \<lparr>itm_order_id = orderId, itm_product_id = pg_uuid (productId_value (oi_productId item)),
      itm_quantity = oi_quantity item, itm_price_minor_units = minorUnits (oi_priceAtOrderTime item),
      itm_price_currency_code = code (currency (oi_priceAtOrderTime item)),
      itm_price_currency_minor_digits = minorDigits (currency (oi_priceAtOrderTime item))\<rparr>"

text \<open>What a successful \<open>save\<close> adds: the order, its items in order, and one unpublished outbox row with
  the JSON of the order under its new id.\<close>

definition saved ::
  "'j json_lib \<Rightarrow> (string \<Rightarrow> string) \<Rightarrow> Order \<Rightarrow> string \<Rightarrow> string \<Rightarrow> order_db \<Rightarrow> order_db" where
  "saved J jsonb order orderId outboxId db =
     \<lparr>db_orders = db_orders db @
        [\<lparr>ord_order_id = orderId, ord_user_id = pg_uuid (userId_value (o_userId order)),
          ord_status = OrderStatus_toString (o_status order)\<rparr>],
      db_order_items = db_order_items db @ map (item_row_of orderId) (o_items order),
      db_outbox = db_outbox db @
        [\<lparr>ob_id = outboxId, ob_aggregate_id = orderId, ob_event_type = ''OrderCreated'',
          ob_payload = jsonb (jl_dump J (Order_toJson J (assignId (OrderId orderId) order))),
          ob_published = False\<rparr>]\<rparr>"

lemma for_each_insert_item:
  assumes "tx_for_each (insert_item oid) items env (k, db) = Inr (u, k', db')" "pg_uuid oid = oid"
  shows "db' = db\<lparr>db_order_items := db_order_items db @ map (item_row_of oid) items\<rparr>"
  using assms(1)
proof (induction items arbitrary: k db)
  case (Cons item items)
  then obtain k1 db1 where step: "insert_item oid item env (k, db) = Inr ((), k1, db1)"
    and rest: "tx_for_each (insert_item oid) items env (k1, db1) = Inr (u, k', db')"
    by (auto simp: tx_bind_Inr)
  from step have "db1 = db\<lparr>db_order_items := db_order_items db @ [item_row_of oid item]\<rparr>"
    by (auto simp: insert_item_def tx_exec_Inr INSERT_ORDER_ITEM_def item_row_of_def assms(2) split: if_splits)
  with Cons.IH [OF rest] show ?case by simp
qed simp

lemma save_body_Commit:
  assumes "save_body J jsonb order env (1, db) = Inr (Commit res, k, db')"
  shows "let oid = pg_uuid (tx_uuid env 0); bid = pg_uuid (tx_uuid env 1) in
    res = Inr (OrderId oid) \<and> isValidUuid oid \<and> db' = saved J jsonb order oid bid db \<and>
    oid \<notin> ord_order_id ` set (db_orders db) \<and> bid \<notin> ob_id ` set (db_outbox db)"
proof -
  let ?oid = "pg_uuid (tx_uuid env 0)"
  obtain k1 db1 where ins: "INSERT_ORDER (userId_value (o_userId order)) (OrderStatus_toString (o_status order)) env db =
      Inr (?oid, db1)"
    and rest: "tx_bind (tx_for_each (insert_item ?oid) (o_items order)) (\<lambda>_.
       case OrderId_create ?oid of
         Inl e \<Rightarrow> tx_return (Rollback (Inl e))
       | Inr orderId \<Rightarrow>
           tx_bind (tx_exec (order_INSERT_OUTBOX_EVENT jsonb ?oid ''OrderCreated''
               (jl_dump J (Order_toJson J (assignId orderId order))))) (\<lambda>_.
           tx_return (Commit (Inr orderId)))) env (k1, db1) = Inr (Commit res, k, db')"
    using assms by (auto simp: save_body_def tx_bind_Inr tx_exec_Inr INSERT_ORDER_def Let_def split: if_splits)
  obtain k2 db2 where items: "tx_for_each (insert_item ?oid) (o_items order) env (k1, db1) = Inr ((), k2, db2)"
    and outbox: "isValidUuid ?oid" "res = Inr (OrderId ?oid)"
      "order_INSERT_OUTBOX_EVENT jsonb ?oid ''OrderCreated''
         (jl_dump J (Order_toJson J (assignId (OrderId ?oid) order))) env db2 = Inr ((), db')"
    using rest by (auto simp: tx_bind_Inr tx_exec_Inr id_create_defs split: sum.splits)
  have db2: "db2 = db1\<lparr>db_order_items := db_order_items db1 @ map (item_row_of ?oid) (o_items order)\<rparr>"
    using for_each_insert_item [OF items] by simp
  show ?thesis
    using ins outbox unfolding db2
    by (auto simp: Let_def INSERT_ORDER_def order_INSERT_OUTBOX_EVENT_def INSERT_OUTBOX_EVENT_def saved_def
        transform_Inr_iff split: if_splits)
qed

lemma save_body_Rollback:
  "save_body J jsonb order env (1, db) = Inr (Rollback res, k, db') \<Longrightarrow> \<exists>e. res = Inl e"
  by (auto simp: save_body_def tx_bind_Inr split: sum.splits) (metis sum.exhaust)

section \<open>Invariant of the database\<close>

text \<open>Primary keys are different and printed by the server, and every item belongs to an order.\<close>

definition order_db_ok :: "order_db \<Rightarrow> bool" where
  "order_db_ok db \<longleftrightarrow>
     distinct (map ord_order_id (db_orders db)) \<and>
     list_all (\<lambda>i. pg_uuid i = i) (map ord_order_id (db_orders db)) \<and>
     itm_order_id ` set (db_order_items db) \<subseteq> ord_order_id ` set (db_orders db) \<and>
     outbox_ok (db_outbox db)"

lemma saved_ok:
  assumes "order_db_ok db" "pg_uuid oid = oid" "oid \<notin> ord_order_id ` set (db_orders db)"
    and "isValidUuid bid" "pg_uuid bid = bid" "bid \<notin> ob_id ` set (db_outbox db)"
  shows "order_db_ok (saved J jsonb order oid bid db)"
  using assms by (auto simp: order_db_ok_def saved_def outbox_ok_def item_row_of_def)

lemma changeStatus_rows:
  "map ord_order_id (map (\<lambda>row. if hit row then row\<lparr>ord_status := s\<rparr> else row) rows) = map ord_order_id rows"
  by simp

lemma save_body_ok:
  assumes "order_db_ok db" "isValidUuid (tx_uuid env 1)" "save_body J jsonb order env (1, db) = Inr (Commit a, k, db')"
  shows "order_db_ok db'"
  using save_body_Commit [OF assms(3)] assms(2)
    saved_ok [OF assms(1), of "pg_uuid (tx_uuid env 0)" "pg_uuid (tx_uuid env 1)" J jsonb order]
  by (simp add: Let_def isValidUuid_pg)

lemma save_keeps_ok:
  assumes "order_db_ok db" "isValidUuid (tx_uuid env 1)" "save J jsonb order env db = (res, db')"
  shows "order_db_ok db'"
  using assms(3) unfolding save_def
  by (cases rule: run_tx_cases) (use assms(1) save_body_ok [OF assms(1,2)] in auto)

lemma changeStatus_keeps_ok:
  assumes "order_db_ok db" "changeStatus i fromStatus toStatus env db = (res, db')"
  shows "order_db_ok db'"
proof -
  have "order_db_ok d" if "UPDATE_ORDER_STATUS s i f env db = Inr (n, d)" for s i f n d
  proof -
    have "map ord_order_id (db_orders d) = map ord_order_id (db_orders db)" "db_order_items d = db_order_items db"
      "db_outbox d = db_outbox db"
      using that by (auto simp: UPDATE_ORDER_STATUS_def Let_def split: if_splits)
    then show ?thesis using assms(1) unfolding order_db_ok_def by (metis list.set_map)
  qed
  with assms show ?thesis
    unfolding changeStatus_def
    by (auto elim!: run_tx_cases simp: tx_bind_Inr tx_exec_Inr)
qed

section \<open>Reading an order back\<close>

definition found :: "(item_row list \<Rightarrow> item_row list) \<Rightarrow> OrderId \<Rightarrow> order_db \<Rightarrow> Order expected" where
  "found scan i db =
     (case filter (\<lambda>row. ord_order_id row = pg_uuid (orderId_value i)) (db_orders db) of
        [] \<Rightarrow> Inl (make_RepositoryError RepositoryError.NotFound)
      | row # others \<Rightarrow>
          if others = []
          then Order_fromRows row (scan (filter (\<lambda>row. itm_order_id row = pg_uuid (orderId_value i)) (db_order_items db)))
          else Inl (make_RepositoryError RepositoryError.SerializationFailure))"

text \<open>Reading an order changes nothing, and gives what the tables hold or an error of the transaction, which
  is never \<open>NotFound\<close>.\<close>

lemma findById_cases:
  assumes "findById scan i env db = (res, db')"
  shows "db' = db \<and> (res = found scan i db \<or> (\<exists>e. res = Inl (mapPqxxException e)))"
  using assms
  by (auto simp: findById_def run_tx_def findById_body_def tx_bind_def tx_exec_def tx_return_def SELECT_ORDER_def
      SELECT_ORDER_ITEMS_def found_def mapPqxxException_def
      split: option.splits sum.splits tx_end.splits commit_result.splits prod.splits list.splits if_splits)

lemma findById_no_faults: "findById scan i (no_faults uuids) db = (found scan i db, db)"
  by (auto simp: findById_def run_tx_def findById_body_def tx_bind_def tx_exec_def tx_return_def SELECT_ORDER_def
      SELECT_ORDER_ITEMS_def found_def mapPqxxException_def no_faults_def split: list.splits)

lemma mapPqxxException_not_NotFound: "mapPqxxException e \<noteq> make_RepositoryError RepositoryError.NotFound"
  by (simp add: mapPqxxException_def)

definition canonicalItem :: "OrderItem \<Rightarrow> OrderItem" where
  "canonicalItem item = item\<lparr>oi_productId := ProductId (pg_uuid (productId_value (oi_productId item)))\<rparr>"

lemma OrderItem_fromRow_of:
  assumes "wf_OrderItem item"
  shows "OrderItem_fromRow (item_row_of oid item) = Inr (canonicalItem item)"
proof -
  let ?m = "oi_priceAtOrderTime item"
  have wf: "wf_Money ?m" "wf_Currency (currency ?m)" "isValidUuid (productId_value (oi_productId item))" "0 < oi_quantity item"
    using assms by (auto simp: wf_OrderItem_def wf_Money_def)
  have "wrap_i8 (minorDigits (currency ?m)) = minorDigits (currency ?m)"
    using wf_ranges(1) [OF wf(2)] by simp
  then show ?thesis
    using wf Currency_create_of_wf [OF wf(2)] Money_create_of_wf [OF wf(1)]
    by (simp add: OrderItem_fromRow_def item_row_of_def id_create_defs StrongID_create_valid isValidUuid_pg
        OrderItem_create_def canonicalItem_def)
qed

lemma traverse_fromRow:
  assumes "list_all wf_OrderItem items" "mset rows = mset (map (item_row_of oid) items)"
  shows "\<exists>items'. traverse OrderItem_fromRow rows = Inr items' \<and> mset items' = mset (map canonicalItem items)"
proof -
  define f where "f row = (case OrderItem_fromRow row of Inr item \<Rightarrow> item | Inl _ \<Rightarrow> undefined)" for row
  have ok: "OrderItem_fromRow (item_row_of oid item) = Inr (canonicalItem item)" if "item \<in> set items" for item
    using assms(1) that by (auto simp: list_all_iff intro: OrderItem_fromRow_of)
  have f: "f (item_row_of oid item) = canonicalItem item" if "item \<in> set items" for item
    using ok [OF that] by (simp add: f_def)
  have rows: "set rows = item_row_of oid ` set items"
    using assms(2) by (metis mset_eq_setD set_map)
  have "OrderItem_fromRow row = Inr (f row)" if "row \<in> set rows" for row
    using that ok f unfolding rows by auto
  then have "traverse OrderItem_fromRow (map (\<lambda>r. r) rows) = Inr (map f rows)"
    by (intro traverse_map_to) simp
  moreover have "mset (map f rows) = mset (map canonicalItem items)"
  proof -
    have "mset (map f rows) = image_mset f (mset (map (item_row_of oid) items))" by (simp add: assms(2))
    also have "\<dots> = image_mset canonicalItem (mset items)"
      by (simp add: multiset.map_comp) (rule image_mset_cong, simp add: f)
    finally show ?thesis by simp
  qed
  ultimately show ?thesis by simp
qed

lemma save_result:
  "let stored = saved J jsonb order (pg_uuid (tx_uuid env 0)) (pg_uuid (tx_uuid env 1)) db in
   case save J jsonb order env db of
     (Inr i, db') \<Rightarrow> i = OrderId (pg_uuid (tx_uuid env 0)) \<and> db' = stored
   | (Inl e, db') \<Rightarrow> db' = db \<or> e = make_RepositoryError RepositoryError.Timeout \<and> db' = stored"
proof (cases "save J jsonb order env db")
  case (Pair res db')
  then have "run_tx (save_body J jsonb order) env db = (res, db')" by (simp add: save_def)
  then show ?thesis
  proof (cases rule: run_tx_cases)
    case unchanged
    show ?thesis
    proof (cases res)
      case (Inr i)
      then have "(\<exists>k. save_body J jsonb order env (1, db) = Inr (Commit (Inr i), k, db'))"
        using Pair run_tx_Inr save_body_Rollback unfolding save_def by (metis sum.simps(4))
      then show ?thesis using save_body_Commit Pair Inr by (fastforce simp: Let_def)
    next
      case (Inl e)
      with unchanged Pair show ?thesis by simp
    qed
  next
    case (committed a k)
    with save_body_Commit [OF committed(1)] Pair show ?thesis by (simp add: Let_def)
  next
    case (in_doubt a k)
    with save_body_Commit [OF in_doubt(1)] Pair show ?thesis by (simp add: Let_def)
  qed
qed

text \<open>A stored order is found.\<close>

lemma save_found:
  assumes "order_db_ok db" "wf_Order order" "save J jsonb order env db = (Inr i, db')"
    and "\<forall>rows. mset (scan rows) = mset rows"
  shows "\<exists>items. found scan i db' =
      Inr \<lparr>o_userId = UserId (pg_uuid (userId_value (o_userId order))), o_orderId = Some i,
           o_items = items, o_status = o_status order\<rparr> \<and>
    mset items = mset (map canonicalItem (o_items order))"
proof -
  have "(\<exists>k. save_body J jsonb order env (1, db) = Inr (Commit (Inr i), k, db'))"
    using assms(3) run_tx_Inr save_body_Rollback unfolding save_def by (metis sum.simps(4))
  then obtain oid bid where oid: "i = OrderId oid" "isValidUuid oid" "pg_uuid oid = oid"
    "oid \<notin> ord_order_id ` set (db_orders db)" and db': "db' = saved J jsonb order oid bid db"
    using save_body_Commit by (fastforce simp: Let_def)
  have wf: "isValidUuid (userId_value (o_userId order))" "o_items order \<noteq> []" "list_all wf_OrderItem (o_items order)"
    using assms(2) by (auto simp: wf_Order_def)
  let ?rows = "filter (\<lambda>row. itm_order_id row = oid) (db_order_items db')"
  have "oid \<notin> itm_order_id ` set (db_order_items db)" using oid(4) assms(1) by (auto simp: order_db_ok_def)
  then have rows: "?rows = map (item_row_of oid) (o_items order)"
    by (auto simp: db' saved_def filter_empty_conv item_row_of_def intro!: filter_True)
  obtain items where items: "traverse OrderItem_fromRow (scan ?rows) = Inr items"
    "mset items = mset (map canonicalItem (o_items order))"
    using traverse_fromRow [OF wf(3), of "scan ?rows" oid] assms(4) rows by auto
  have "items \<noteq> []" using items(2) wf(2) by auto
  moreover have "filter (\<lambda>row. ord_order_id row = oid) (db_orders db') =
      [\<lparr>ord_order_id = oid, ord_user_id = pg_uuid (userId_value (o_userId order)),
        ord_status = OrderStatus_toString (o_status order)\<rparr>]"
    using oid(4) by (auto simp: db' saved_def filter_empty_conv)
  ultimately show ?thesis
    using items oid(1-3) wf(1)
    by (simp add: found_def Order_fromRows_def id_create_defs StrongID_create_valid isValidUuid_pg
        OrderStatus_fromString_Inr Order_restore_def)
qed

text \<open>When nothing fails and the server's ids are new, a well-formed order is stored.\<close>

lemma for_each_insert_item_ok:
  assumes "tx_fault env = (\<lambda>_. None)" "list_all wf_OrderItem items" "pg_uuid oid = oid"
    and "oid \<in> ord_order_id ` set (db_orders db)"
  shows "tx_for_each (insert_item oid) items env (k, db) =
    Inr ((), k + length items, db\<lparr>db_order_items := db_order_items db @ map (item_row_of oid) items\<rparr>)"
  using assms(2,4)
proof (induction items arbitrary: k db)
  case (Cons item items)
  have "insert_item oid item env (k, db) = Inr ((), k + 1, db\<lparr>db_order_items := db_order_items db @ [item_row_of oid item]\<rparr>)"
    using Cons.prems assms(1,3)
    by (simp add: insert_item_def tx_exec_def INSERT_ORDER_ITEM_def item_row_of_def wf_OrderItem_def wf_Money_def)
  then show ?case using Cons by (simp add: tx_bind_def)
qed (simp add: tx_return_def)

lemma save_succeeds:
  assumes "wf_Order order" "isValidUuid (uuids 0)" "pg_uuid (uuids 0) \<notin> ord_order_id ` set (db_orders db)"
    and "pg_uuid (uuids 1) \<notin> ob_id ` set (db_outbox db)"
  shows "save J jsonb order (no_faults uuids) db =
    (Inr (OrderId (pg_uuid (uuids 0))), saved J jsonb order (pg_uuid (uuids 0)) (pg_uuid (uuids 1)) db)"
proof -
  have items: "list_all wf_OrderItem (o_items order)" using assms(1) by (simp add: wf_Order_def)
  have status: "status_check (OrderStatus_toString (o_status order))"
    by (cases "o_status order") (simp_all add: status_check_def)
  show ?thesis
    using assms(2-4) status
    by (simp add: save_def run_tx_def save_body_def no_faults_def tx_bind_def tx_exec_def tx_return_def INSERT_ORDER_def
        Let_def for_each_insert_item_ok [OF _ items] id_create_defs StrongID_create_valid isValidUuid_pg
        order_INSERT_OUTBOX_EVENT_def INSERT_OUTBOX_EVENT_def saved_def)
qed

text \<open>What the mapper makes of rows whose columns are in the range of their types is well formed.\<close>

definition item_row_ranges :: "item_row \<Rightarrow> bool" where
  "item_row_ranges row \<longleftrightarrow> in_i32 (itm_quantity row) \<and> in_i64 (itm_price_minor_units row)"

lemma OrderItem_fromRow_wf: "item_row_ranges row \<Longrightarrow> OrderItem_fromRow row = Inr item \<Longrightarrow> wf_OrderItem item"
  by (auto simp: OrderItem_fromRow_def and_then_Inr_iff transform_Inr_iff id_create_defs item_row_ranges_def
      dest!: Currency_create_wf [OF wrap_i8_range] Money_create_wf [rotated] intro!: OrderItem_create_wf [where p = "ProductId _"])

lemma Order_fromRows_wf:
  assumes "list_all item_row_ranges rows" "Order_fromRows row rows = Inr order"
  shows "wf_Order order"
proof -
  obtain items st where parts: "isValidUuid (ord_user_id row)" "isValidUuid (ord_order_id row)"
    "traverse OrderItem_fromRow rows = Inr items"
    "Order_restore (UserId (ord_user_id row)) (OrderId (ord_order_id row)) items st = Inr order"
    using assms(2) by (auto simp: Order_fromRows_def id_create_defs split: sum.splits)
  then have "list_all wf_OrderItem items"
    using assms(1)
    by (auto simp: traverse_Inr_iff list_all2_conv_all_nth list_all_length intro: OrderItem_fromRow_wf)
  with parts show ?thesis using Order_restore_wf [of "UserId (ord_user_id row)" "OrderId (ord_order_id row)" items st order] by simp
qed

section \<open>Properties\<close>

text \<open>C28. Every order in the service is well formed: what the JSON mapper accepts from a client and what the
  row mapper makes of the database has valid ids, at least one item, positive quantities in the range
  of \<open>int\<close>, prices that are not negative and currencies with a code; taking an id and moving to
  \<open>Reserved\<close> keep it so.\<close>

theorem orders_well_formed:
  assumes "json_ranges J"
  shows "(Order_fromJson J json = Inr order \<longrightarrow> wf_Order order) \<and>
    (list_all item_row_ranges rows \<longrightarrow> Order_fromRows row rows = Inr order \<longrightarrow> wf_Order order) \<and>
    (wf_Order order \<longrightarrow> wf_Order (snd (markReserved order)) \<and>
       (isValidUuid (orderId_value i) \<longrightarrow> wf_Order (assignId i order)))"
  using json_ranges.Order_fromJson_wf [OF assms] Order_fromRows_wf markReserved_wf assignId_wf by blast

theorem orders_well_formed_witness: "wf_Order (sampleOrder\<lparr>o_orderId := None, o_status := Created\<rparr>)"
proof -
  have "Order_fromJson value_lib (Order_toJson value_lib sampleOrder) = Inr (sampleOrder\<lparr>o_orderId := None, o_status := Created\<rparr>)"
    by (rule vj.Order_roundtrip [OF wf_sampleOrder])
  with orders_well_formed [OF vr.json_ranges_axioms] show ?thesis by blast
qed

text \<open>C7. Saving is all or nothing, whatever fails: with a result the order, all its items and one
  unpublished \<open>OrderCreated\<close> event with the order's JSON are stored under the returned id, and with an
  error nothing is stored, except that a commit whose outcome is in doubt, reported as \<open>Timeout\<close>, may
  have stored everything.\<close>

theorem save_atomic:
  "let stored = saved J jsonb order (pg_uuid (tx_uuid env 0)) (pg_uuid (tx_uuid env 1)) db in
   case save J jsonb order env db of
     (Inr i, db') \<Rightarrow> i = OrderId (pg_uuid (tx_uuid env 0)) \<and> db' = stored
   | (Inl e, db') \<Rightarrow> db' = db \<or> e = make_RepositoryError RepositoryError.Timeout \<and> db' = stored"
  by (rule save_result)

definition sampleEnv :: tx_env where
  "sampleEnv = no_faults (\<lambda>n. if n = 0 then sampleUuid else ''00000000-0000-4000-8000-000000000001'')"

definition sampleDb :: order_db where
  "sampleDb = saved value_lib id sampleOrder (pg_uuid sampleUuid) ''00000000-0000-4000-8000-000000000001'' order_db_init"

section \<open>The interface of status changes\<close>

text \<open>
  \<open>IOrderStatusRepository\<close>: \<open>in_status\<close> says whether an order is in a status, \<open>move\<close> is the change of it. The
  answer says whether the order was in the expected status and then it was moved; after an error it was moved or not.
\<close>

locale order_status_repository =
  fixes change :: "'i \<Rightarrow> 's \<Rightarrow> 's \<Rightarrow> 'env \<Rightarrow> 'db \<Rightarrow> bool expected \<times> 'db"
    and in_status :: "'i \<Rightarrow> 's \<Rightarrow> 'db \<Rightarrow> bool"
    and move :: "'i \<Rightarrow> 's \<Rightarrow> 's \<Rightarrow> 'db \<Rightarrow> 'db"
  assumes answered: "change i f t env db = (Inr b, db') \<Longrightarrow>
      b = in_status i f db \<and> db' = (if b then move i f t db else db)"
    and failed: "change i f t env db = (Inl e, db') \<Longrightarrow> db' = db \<or> db' = move i f t db"
    and leaves: "t \<noteq> f \<Longrightarrow> \<not> in_status i f (move i f t db)"
begin

text \<open>Requests to move one order out of one status, one after another.\<close>

fun changes :: "'i \<Rightarrow> 's \<Rightarrow> ('s \<times> 'env) list \<Rightarrow> 'db \<Rightarrow> bool expected list \<times> 'db" where
  "changes i f [] db = ([], db)"
| "changes i f ((t, env) # requests) db =
     (case change i f t env db of (res, db1) \<Rightarrow>
        case changes i f requests db1 of (rest, db2) \<Rightarrow> (res # rest, db2))"

lemma change_leaves:
  assumes "change i f t env db = (res, db')" "t \<noteq> f"
  shows "(res = Inr True \<longrightarrow> in_status i f db \<and> \<not> in_status i f db') \<and> (\<not> in_status i f db \<longrightarrow> \<not> in_status i f db')"
  using assms answered [of i f t env db _ db'] failed [of i f t env db _ db'] leaves [OF assms(2)]
  by (cases res) (auto split: if_splits)

lemma wins_once:
  assumes "\<forall>(t, env) \<in> set requests. t \<noteq> f"
  shows "length (filter (\<lambda>r. r = Inr True) (fst (changes i f requests db))) \<le> of_bool (in_status i f db)"
  using assms
proof (induction i f requests db rule: changes.induct)
  case (2 i f t env requests db)
  obtain res db1 where step: "change i f t env db = (res, db1)" by (rule prod.exhaust)
  have "length (filter (\<lambda>r. r = Inr True) (fst (changes i f requests db1))) \<le> of_bool (in_status i f db1)"
    using "2.IH" [OF step [symmetric]] "2.prems" by simp
  with change_leaves [OF step] "2.prems" show ?case
    by (cases "in_status i f db1") (auto simp: step split: prod.splits if_splits)
qed simp

lemma first_wins:
  assumes "fst (changes i f ((t, env) # requests) db) = Inr b # results"
  shows "b = in_status i f db"
  using assms by (auto split: prod.splits dest: answered)

end

section \<open>Status changes of the implementation\<close>

definition inStatus :: "OrderId \<Rightarrow> OrderStatus \<Rightarrow> order_db \<Rightarrow> bool" where
  "inStatus i status db \<longleftrightarrow>
     list_ex (\<lambda>row. ord_order_id row = pg_uuid (orderId_value i) \<and> ord_status row = OrderStatus_toString status) (db_orders db)"

definition moved :: "OrderId \<Rightarrow> OrderStatus \<Rightarrow> OrderStatus \<Rightarrow> order_db \<Rightarrow> order_db" where
  "moved i fromStatus toStatus db =
     db\<lparr>db_orders := map (\<lambda>row. if ord_order_id row = pg_uuid (orderId_value i) \<and> ord_status row = OrderStatus_toString fromStatus
       then row\<lparr>ord_status := OrderStatus_toString toStatus\<rparr> else row) (db_orders db)\<rparr>"

fun changeStatus_all ::
  "OrderId \<Rightarrow> OrderStatus \<Rightarrow> (OrderStatus \<times> tx_env) list \<Rightarrow> order_db \<Rightarrow> bool expected list \<times> order_db" where
  "changeStatus_all i fromStatus [] db = ([], db)"
| "changeStatus_all i fromStatus ((toStatus, env) # requests) db =
     (case changeStatus i fromStatus toStatus env db of (res, db1) \<Rightarrow>
        case changeStatus_all i fromStatus requests db1 of (rest, db2) \<Rightarrow> (res # rest, db2))"

lemma changeStatus_result:
  "case changeStatus i fromStatus toStatus env db of
     (Inr b, db') \<Rightarrow> b = inStatus i fromStatus db \<and> db' = (if b then moved i fromStatus toStatus db else db)
   | (Inl e, db') \<Rightarrow> db' = db \<or> e = make_RepositoryError RepositoryError.Timeout \<and> db' = moved i fromStatus toStatus db"
proof -
  define hit where "hit row \<longleftrightarrow> ord_order_id row = pg_uuid (orderId_value i) \<and> ord_status row = OrderStatus_toString fromStatus"
    for row :: order_row
  have status: "status_check (OrderStatus_toString toStatus)"
    by (cases toStatus) (simp_all add: status_check_def)
  have nonempty: "0 < length (filter hit (db_orders db)) \<longleftrightarrow> list_ex hit (db_orders db)"
    by (auto simp: list_ex_iff filter_empty_conv)
  have same: "map (\<lambda>row. if hit row then row\<lparr>ord_status := s\<rparr> else row) (db_orders db) = db_orders db"
    if "\<not> list_ex hit (db_orders db)" for s
    using that by (intro map_idI) (auto simp: list_ex_iff)
  show ?thesis
    unfolding inStatus_def moved_def hit_def [symmetric]
    using status nonempty same
    by (auto simp: changeStatus_def run_tx_def tx_bind_def tx_exec_def tx_return_def UPDATE_ORDER_STATUS_def Let_def
        mapPqxxException_def simp flip: hit_def
        split: option.splits sum.splits tx_end.splits commit_result.splits prod.splits if_splits)
qed

lemma moved_leaves:
  assumes "toStatus \<noteq> fromStatus"
  shows "\<not> inStatus i fromStatus (moved i fromStatus toStatus db)"
proof -
  have "OrderStatus_toString toStatus \<noteq> OrderStatus_toString fromStatus"
    using assms by (cases toStatus; cases fromStatus) simp_all
  then show ?thesis by (auto simp: inStatus_def moved_def list_ex_iff)
qed

interpretation sr: order_status_repository changeStatus inStatus moved
proof (unfold_locales, goal_cases)
  case (1 i f t env db b db')
  then show ?case using changeStatus_result [where i = i and fromStatus = f and toStatus = t and env = env and db = db] by simp
next
  case (2 i f t env db e db')
  then show ?case using changeStatus_result [where i = i and fromStatus = f and toStatus = t and env = env and db = db] by auto
next
  case (3 t f i db)
  then show ?case by (rule moved_leaves)
qed

lemma changeStatus_all_changes: "changeStatus_all i fromStatus requests db = sr.changes i fromStatus requests db"
  by (induction i fromStatus requests db rule: changeStatus_all.induct) (auto split: prod.splits)

text \<open>C29. Of any number of requests to move an order out of the same status, in whatever order their
  transactions run and whichever fail, at most one is told that it made the move, and none when the order is not in
  that status; a first request that does not fail is told whether it was.\<close>

theorem changeStatus_wins_once:
  assumes "\<forall>(toStatus, env) \<in> set requests. toStatus \<noteq> fromStatus"
  shows "length (filter (\<lambda>r. r = Inr True) (fst (changeStatus_all i fromStatus requests db))) \<le>
      (if inStatus i fromStatus db then 1 else 0) \<and>
    (\<forall>b results. fst (changeStatus_all i fromStatus requests db) = Inr b # results \<longrightarrow> b = inStatus i fromStatus db)"
  using sr.wins_once [OF assms, of i db] sr.first_wins [of i fromStatus]
  unfolding changeStatus_all_changes by (cases requests) (auto simp: of_bool_def)

theorem changeStatus_wins_once_witness:
  "length (filter (\<lambda>r. r = Inr True) (fst (changeStatus_all (OrderId sampleUuid) Created
     [(Reserved, no_faults (\<lambda>_. [])), (Cancelled, no_faults (\<lambda>_. []))] sampleDb))) \<le> 1 \<and>
   hd (fst (changeStatus_all (OrderId sampleUuid) Created
     [(Reserved, no_faults (\<lambda>_. [])), (Cancelled, no_faults (\<lambda>_. []))] sampleDb)) = Inr True"
proof -
  let ?requests = "[(Reserved, no_faults (\<lambda>_. [])), (Cancelled, no_faults (\<lambda>_. []))]"
  have start: "inStatus (OrderId sampleUuid) Created sampleDb"
    by (simp add: inStatus_def sampleDb_def saved_def order_db_init_def sampleOrder_def)
  obtain b where "fst (changeStatus (OrderId sampleUuid) Created Reserved (no_faults (\<lambda>_. [])) sampleDb) = Inr b"
    by (simp add: changeStatus_def run_tx_def no_faults_def tx_bind_def tx_exec_def tx_return_def UPDATE_ORDER_STATUS_def
        sampleDb_def saved_def order_db_init_def sampleOrder_def status_check_def Let_def)
  then obtain results where "fst (changeStatus_all (OrderId sampleUuid) Created ?requests sampleDb) = Inr b # results"
    by (fastforce split: prod.splits)
  with changeStatus_wins_once [of ?requests Created "OrderId sampleUuid" sampleDb] start show ?thesis
    by (auto simp del: changeStatus_all.simps)
qed

end
