(* ===== verification/WorkerRepository.thy ===== *)
theory WorkerRepository
  imports OutboxTable "HOL-Library.Sublist"
begin

text \<open>
  \<open>worker-service/repository\<close>: the table of processed events and the outbox of the worker, and
  \<open>recordReservationIfNew\<close>, which writes both in one transaction. The interface that the handler relies
  on is the locale \<open>worker_repository\<close>; it is interpreted by the PostgreSQL implementation.
\<close>

section \<open>Tables and statements\<close>

record worker_db =
  wd_processed :: "string list"
  wd_outbox :: "outbox_row list"

definition worker_db_init :: worker_db where
  "worker_db_init = \<lparr>wd_processed = [], wd_outbox = []\<rparr>"

record ReservationRecord =
  rr_eventId :: OutboxEventId
  rr_aggregateId :: OrderId
  rr_eventType :: string
  rr_payload :: string

text \<open>\<open>INSERT INTO processed_order_events (event_id) VALUES ($1) ON CONFLICT DO NOTHING\<close>: the number of rows
  inserted.\<close>

definition INSERT_PROCESSED_EVENT :: "string \<Rightarrow> tx_env \<Rightarrow> worker_db \<Rightarrow> pqxx_exception + nat \<times> worker_db" where
  "INSERT_PROCESSED_EVENT eventId env db =
     (if pg_uuid eventId \<in> set (wd_processed db) then Inr (0, db)
      else Inr (1, db\<lparr>wd_processed := wd_processed db @ [pg_uuid eventId]\<rparr>))"

definition worker_INSERT_OUTBOX_EVENT ::
  "(string \<Rightarrow> string) \<Rightarrow> string \<Rightarrow> string \<Rightarrow> string \<Rightarrow> tx_env \<Rightarrow> worker_db \<Rightarrow> pqxx_exception + unit \<times> worker_db" where
  "worker_INSERT_OUTBOX_EVENT jsonb aggregateId eventType payload env db =
     transform (INSERT_OUTBOX_EVENT jsonb (tx_uuid env 0) aggregateId eventType payload (wd_outbox db))
       (\<lambda>rows. ((), db\<lparr>wd_outbox := rows\<rparr>))"

definition recordReservation_body ::
  "(string \<Rightarrow> string) \<Rightarrow> ReservationRecord \<Rightarrow> (worker_db, bool expected tx_end) tx" where
  "recordReservation_body jsonb record =
     tx_bind (tx_exec (INSERT_PROCESSED_EVENT (outboxEventId_value (rr_eventId record)))) (\<lambda>affected_rows.
     if affected_rows = 0 then tx_return (Rollback (Inr False))
     else
       tx_bind (tx_exec (worker_INSERT_OUTBOX_EVENT jsonb (orderId_value (rr_aggregateId record)) (rr_eventType record)
          (rr_payload record))) (\<lambda>_.
       tx_return (Commit (Inr True))))"

definition recordReservationIfNew ::
  "(string \<Rightarrow> string) \<Rightarrow> ReservationRecord \<Rightarrow> tx_env \<Rightarrow> worker_db \<Rightarrow> bool expected \<times> worker_db" where
  "recordReservationIfNew jsonb record = run_tx (recordReservation_body jsonb record)"

section \<open>The interface\<close>

text \<open>
  \<open>IWorkerRepository\<close>: \<open>processed\<close> are the events recorded, \<open>emitted\<close> what was put into the outbox, oldest
  first. \<open>true\<close> means that both were written, \<open>false\<close> that the event had been recorded before and
  nothing was written; after an error the record was written as a whole or not at all.
\<close>

locale worker_repository =
  fixes recordIfNew :: "'r \<Rightarrow> 'env \<Rightarrow> 'db \<Rightarrow> bool expected \<times> 'db"
    and eventKey :: "'r \<Rightarrow> 'k"
    and entry :: "'r \<Rightarrow> 'e"
    and processed :: "'db \<Rightarrow> 'k set"
    and emitted :: "'db \<Rightarrow> 'e list"
  assumes new: "recordIfNew r env db = (Inr True, db') \<Longrightarrow>
      eventKey r \<notin> processed db \<and> processed db' = insert (eventKey r) (processed db) \<and>
      emitted db' = emitted db @ [entry r]"
    and duplicate: "recordIfNew r env db = (Inr False, db') \<Longrightarrow> eventKey r \<in> processed db \<and> db' = db"
    and failed: "recordIfNew r env db = (Inl e, db') \<Longrightarrow> db' = db \<or>
      eventKey r \<notin> processed db \<and> processed db' = insert (eventKey r) (processed db) \<and>
      emitted db' = emitted db @ [entry r]"
begin

text \<open>Deliveries one after another, each with the environment it meets; one that does not ask for a record
  (\<open>None\<close>) leaves the database alone.\<close>

fun deliveries :: "('r option \<times> 'env) list \<Rightarrow> 'db \<Rightarrow> bool expected option list \<times> 'db" where
  "deliveries [] db = ([], db)"
| "deliveries ((None, env) # ds) db = (case deliveries ds db of (rest, db2) \<Rightarrow> (None # rest, db2))"
| "deliveries ((Some r, env) # ds) db =
     (case recordIfNew r env db of (res, db1) \<Rightarrow>
        case deliveries ds db1 of (rest, db2) \<Rightarrow> (Some res # rest, db2))"

lemma record_cases:
  assumes "recordIfNew r env db = (res, db')"
  obtains (kept) "db' = db" "\<forall>b. res = Inr b \<longrightarrow> \<not> b \<and> eventKey r \<in> processed db"
  | (written) "eventKey r \<notin> processed db" "processed db' = insert (eventKey r) (processed db)"
      "emitted db' = emitted db @ [entry r]"
  using assms new [of r env db db'] duplicate [of r env db db'] failed [of r env db _ db']
  by (cases res) (auto split: bool.splits)

lemma deliveries_exactly_once:
  assumes "deliveries ds db = (results, db')"
  shows "\<exists>picked. subseq picked (List.map_filter fst ds) \<and> distinct (map eventKey picked) \<and>
    eventKey ` set picked \<inter> processed db = {} \<and> processed db' = processed db \<union> eventKey ` set picked \<and>
    emitted db' = emitted db @ map entry picked \<and>
    (\<forall>k < length ds. \<forall>r b. fst (ds ! k) = Some r \<longrightarrow> results ! k = Some (Inr b) \<longrightarrow> eventKey r \<in> processed db')"
  using assms
proof (induction ds db arbitrary: results rule: deliveries.induct)
  case (2 env ds db)
  then show ?case by (auto simp: map_filter_simps nth_Cons split: prod.splits nat.splits)
next
  case (3 r env ds db)
  obtain res db1 rest where step: "recordIfNew r env db = (res, db1)" and run: "deliveries ds db1 = (rest, db')"
    and results: "results = Some res # rest"
    using "3.prems" by (auto split: prod.splits)
  obtain picked where IH: "subseq picked (List.map_filter fst ds)" "distinct (map eventKey picked)"
      "eventKey ` set picked \<inter> processed db1 = {}" "processed db' = processed db1 \<union> eventKey ` set picked"
      "emitted db' = emitted db1 @ map entry picked"
      "\<forall>k < length ds. \<forall>r b. fst (ds ! k) = Some r \<longrightarrow> rest ! k = Some (Inr b) \<longrightarrow> eventKey r \<in> processed db'"
    using "3.IH" [OF step [symmetric] run] by blast
  let ?ds = "(Some r, env) # ds"
  have tail: "\<forall>k < length ?ds. \<forall>r b. fst (?ds ! k) = Some r \<longrightarrow> results ! k = Some (Inr b) \<longrightarrow> eventKey r \<in> processed db'"
    if "has_value res \<Longrightarrow> eventKey r \<in> processed db'"
    using IH(6) that by (auto simp: results nth_Cons split: nat.splits)
  from step show ?case
  proof (cases rule: record_cases)
    case kept
    moreover have "eventKey r \<in> processed db'" if "has_value res"
      using kept that IH(4) by (auto simp: has_value_iff)
    ultimately show ?thesis using IH tail by (intro exI [of _ picked]) (auto simp: map_filter_simps)
  next
    case written
    moreover have "eventKey r \<in> processed db'" using written IH(4) by simp
    ultimately show ?thesis using IH tail by (intro exI [of _ "r # picked"]) (auto simp: map_filter_simps)
  qed
qed (simp add: map_filter_simps)

end

section \<open>The implementation\<close>

definition reservationKey :: "ReservationRecord \<Rightarrow> string" where
  "reservationKey record = pg_uuid (outboxEventId_value (rr_eventId record))"

definition reservationEntry :: "(string \<Rightarrow> string) \<Rightarrow> ReservationRecord \<Rightarrow> string \<times> string \<times> string" where
  "reservationEntry jsonb record =
     (pg_uuid (orderId_value (rr_aggregateId record)), rr_eventType record, jsonb (rr_payload record))"

definition outboxEntries :: "worker_db \<Rightarrow> (string \<times> string \<times> string) list" where
  "outboxEntries db = map (\<lambda>row. (ob_aggregate_id row, ob_event_type row, ob_payload row)) (wd_outbox db)"

lemma recordReservation_Commit:
  assumes "recordReservation_body jsonb r env (k, db) = Inr (Commit res, k', db')"
  shows "res = Inr True \<and> reservationKey r \<notin> set (wd_processed db) \<and>
    wd_processed db' = wd_processed db @ [reservationKey r] \<and>
    wd_outbox db' = wd_outbox db @ [\<lparr>ob_id = pg_uuid (tx_uuid env 0),
      ob_aggregate_id = pg_uuid (orderId_value (rr_aggregateId r)), ob_event_type = rr_eventType r,
      ob_payload = jsonb (rr_payload r), ob_published = False\<rparr>] \<and>
    pg_uuid (tx_uuid env 0) \<notin> ob_id ` set (wd_outbox db)"
  using assms
  by (auto simp: recordReservation_body_def tx_bind_Inr tx_exec_Inr INSERT_PROCESSED_EVENT_def
      worker_INSERT_OUTBOX_EVENT_def INSERT_OUTBOX_EVENT_def transform_Inr_iff reservationKey_def split: if_splits)

lemma recordReservation_Rollback:
  assumes "recordReservation_body jsonb r env (k, db) = Inr (Rollback res, k', db')"
  shows "res = Inr False \<and> reservationKey r \<in> set (wd_processed db)"
  using assms
  by (auto simp: recordReservation_body_def tx_bind_Inr tx_exec_Inr INSERT_PROCESSED_EVENT_def
      reservationKey_def split: if_splits)

lemmas reservation_defs = recordReservationIfNew_def reservationEntry_def outboxEntries_def

interpretation wr: worker_repository "recordReservationIfNew jsonb" reservationKey "reservationEntry jsonb"
  "\<lambda>db. set (wd_processed db)" outboxEntries
proof (unfold_locales, goal_cases)
  case (1 r env db db')
  then have "recordReservation_body jsonb r env (1, db) = Inr (Commit (Inr True), k, db') \<longrightarrow> ?case" for k
    by (auto dest!: recordReservation_Commit simp: reservation_defs)
  with 1 show ?case
    unfolding recordReservationIfNew_def by (auto dest!: run_tx_Inr recordReservation_Rollback)
next
  case (2 r env db db')
  then show ?case
    unfolding recordReservationIfNew_def by (auto dest!: run_tx_Inr recordReservation_Commit recordReservation_Rollback)
next
  case (3 r env db e db')
  from 3 [unfolded recordReservationIfNew_def] show ?case
    by (cases rule: run_tx_cases) (auto dest!: recordReservation_Commit simp: reservation_defs)
qed

section \<open>Invariant\<close>

text \<open>One outbox row per processed event; keys are different.\<close>

definition worker_db_ok :: "worker_db \<Rightarrow> bool" where
  "worker_db_ok db \<longleftrightarrow>
     length (wd_outbox db) = length (wd_processed db) \<and> distinct (wd_processed db) \<and> outbox_ok (wd_outbox db)"

lemma worker_db_ok_init: "worker_db_ok worker_db_init"
  by (simp add: worker_db_ok_def worker_db_init_def outbox_ok_def)

lemma recordReservation_keeps_ok:
  assumes "worker_db_ok db" "isValidUuid (tx_uuid env 0)" "recordReservationIfNew jsonb r env db = (res, db')"
  shows "worker_db_ok db'"
proof -
  have "worker_db_ok db'" if "recordReservation_body jsonb r env (1, db) = Inr (Commit a, k, db')" for a k
    using recordReservation_Commit [OF that] assms(1,2) by (auto simp: worker_db_ok_def outbox_ok_def isValidUuid_pg)
  with assms show ?thesis
    unfolding recordReservationIfNew_def by (auto elim!: run_tx_cases)
qed

lemma recordReservation_ok:
  assumes "pg_uuid uuid \<notin> ob_id ` set (wd_outbox db)" "reservationKey r \<notin> set (wd_processed db)"
  shows "fst (recordReservationIfNew jsonb r (no_faults (\<lambda>_. uuid)) db) = Inr True"
  using assms
  by (simp add: recordReservationIfNew_def run_tx_def recordReservation_body_def tx_bind_def tx_exec_def tx_return_def
      no_faults_def INSERT_PROCESSED_EVENT_def worker_INSERT_OUTBOX_EVENT_def INSERT_OUTBOX_EVENT_def reservationKey_def
      transform_def)

lemma recordReservation_duplicate:
  assumes "reservationKey r \<in> set (wd_processed db)"
  shows "fst (recordReservationIfNew jsonb r (no_faults (\<lambda>_. uuid)) db) = Inr False"
  using assms
  by (simp add: recordReservationIfNew_def run_tx_def recordReservation_body_def tx_bind_def tx_exec_def tx_return_def
      no_faults_def INSERT_PROCESSED_EVENT_def reservationKey_def)

end
