(* ===== verification/EventHandlers.thy ===== *)
theory EventHandlers
  imports OrderRepository WorkerRepository RecordExecutor
begin

text \<open>
  The two handlers of Kafka records: \<open>worker-service/handlers/OrderReservationHandler.cpp\<close> with
  \<open>processing/OrderReservationProcessor.cpp\<close>, and \<open>order-service/event-handlers/OrderReservedHandler.cpp\<close>.
  \<open>handle\<close> returns whether the record is done with, or throws: only \<open>parse_error\<close> is caught around
  \<open>json::parse\<close>.
\<close>

section \<open>The worker: reservations\<close>

text \<open>The reservation itself is a delay.\<close>

definition process :: "OrderCreatedEvent \<Rightarrow> unit expected" where
  "process event = Inr ()"

definition reservationRecord :: "'j json_lib \<Rightarrow> OrderCreatedEvent \<Rightarrow> MessageMetadata \<Rightarrow> ReservationRecord" where
  "reservationRecord J event metadata =
     (let reservedEvent = \<lparr>re_orderId = ce_orderId event\<rparr>;
          reservedPayload = jl_dump J (OrderReservedEvent_toJson J reservedEvent) in
      \<lparr>rr_eventId = mm_eventId metadata, rr_aggregateId = ce_orderId event, rr_eventType = ''OrderReserved'',
       rr_payload = reservedPayload\<rparr>)"

text \<open>\<open>proc\<close> is the \<open>IOrderProcessor\<close> the handler was built with.\<close>

definition OrderReservationHandler_handle ::
  "'j json_lib \<Rightarrow> (string \<Rightarrow> string) \<Rightarrow> (OrderCreatedEvent \<Rightarrow> unit expected) \<Rightarrow> string \<Rightarrow> MessageMetadata \<Rightarrow>
   tx_env \<Rightarrow> worker_db \<Rightarrow> handler_result \<times> worker_db" where
  "OrderReservationHandler_handle J jsonb proc payload metadata env db =
     (case jl_parse J payload of
        Inl ParseError \<Rightarrow> (Returned True, db)
      | Inl _ \<Rightarrow> (Threw, db)
      | Inr json \<Rightarrow>
          (case OrderCreatedEvent_fromJson J json of
             Inl _ \<Rightarrow> (Returned True, db)
           | Inr event \<Rightarrow>
               (case proc event of
                  Inl _ \<Rightarrow> (Returned False, db)
                | Inr _ \<Rightarrow>
                    (case recordReservationIfNew jsonb (reservationRecord J event metadata) env db of
                       (Inl _, db') \<Rightarrow> (Returned False, db')
                     | (Inr _, db') \<Rightarrow> (Returned True, db')))))"

section \<open>The order service: confirmation of reservations\<close>

text \<open>
  \<open>findEnv\<close> and \<open>changeEnv\<close> are the environments of the two transactions; \<open>meanwhile\<close> is what other
  transactions do to the database between them.
\<close>

definition OrderReservedHandler_handle ::
  "'j json_lib \<Rightarrow> (item_row list \<Rightarrow> item_row list) \<Rightarrow> (order_db \<Rightarrow> order_db) \<Rightarrow> string \<Rightarrow> MessageMetadata \<Rightarrow>
   tx_env \<Rightarrow> tx_env \<Rightarrow> order_db \<Rightarrow> handler_result \<times> order_db" where
  "OrderReservedHandler_handle J scan meanwhile payload metadata findEnv changeEnv db =
     (case jl_parse J payload of
        Inl ParseError \<Rightarrow> (Returned True, db)
      | Inl _ \<Rightarrow> (Threw, db)
      | Inr json \<Rightarrow>
          (case order_OrderReservedEvent_fromJson J json of
             Inl _ \<Rightarrow> (Returned True, db)
           | Inr event \<Rightarrow>
               (case findById scan (ore_orderId event) findEnv db of
                  (Inl e, db1) \<Rightarrow>
                    (if e = make_RepositoryError RepositoryError.NotFound then (Returned True, db1) else (Returned False, db1))
                | (Inr order, db1) \<Rightarrow>
                    if o_status order = Reserved then (Returned True, db1)
                    else
                      (case markReserved order of
                         (Inl _, _) \<Rightarrow> (Returned True, db1)
                       | (Inr _, order') \<Rightarrow>
                           (case changeStatus (ore_orderId event) (o_status order) (o_status order') changeEnv (meanwhile db1) of
                              (Inl _, db2) \<Rightarrow> (Returned False, db2)
                            | (Inr changed, db2) \<Rightarrow> (Returned changed, db2))))))"

text \<open>The two halves of the handler: up to the first transaction and the decision, and the second transaction.\<close>

datatype confirmation = Answer handler_result | Change OrderId OrderStatus OrderStatus

definition confirm_read :: "'j json_lib \<Rightarrow> (item_row list \<Rightarrow> item_row list) \<Rightarrow> string \<Rightarrow> tx_env \<Rightarrow> order_db \<Rightarrow> confirmation" where
  "confirm_read J scan payload env db =
     (case jl_parse J payload of
        Inl ParseError \<Rightarrow> Answer (Returned True)
      | Inl _ \<Rightarrow> Answer Threw
      | Inr json \<Rightarrow>
          (case order_OrderReservedEvent_fromJson J json of
             Inl _ \<Rightarrow> Answer (Returned True)
           | Inr event \<Rightarrow>
               (case fst (findById scan (ore_orderId event) env db) of
                  Inl e \<Rightarrow> Answer (Returned (e = make_RepositoryError RepositoryError.NotFound))
                | Inr order \<Rightarrow>
                    if o_status order = Reserved then Answer (Returned True)
                    else
                      (case markReserved order of
                         (Inl _, _) \<Rightarrow> Answer (Returned True)
                       | (Inr _, order') \<Rightarrow> Change (ore_orderId event) (o_status order) (o_status order')))))"

definition confirm_change :: "OrderId \<Rightarrow> OrderStatus \<Rightarrow> OrderStatus \<Rightarrow> tx_env \<Rightarrow> order_db \<Rightarrow> handler_result \<times> order_db" where
  "confirm_change i fromStatus toStatus env db =
     (case changeStatus i fromStatus toStatus env db of
        (Inl _, db') \<Rightarrow> (Returned False, db')
      | (Inr changed, db') \<Rightarrow> (Returned changed, db'))"

lemma OrderReservedHandler_halves:
  "OrderReservedHandler_handle J scan meanwhile payload metadata findEnv changeEnv db =
     (case confirm_read J scan payload findEnv db of
        Answer result \<Rightarrow> (result, db)
      | Change i fromStatus toStatus \<Rightarrow> confirm_change i fromStatus toStatus changeEnv (meanwhile db))"
proof -
  have find: "findById scan i findEnv db = (fst (findById scan i findEnv db), db)" for i
    using findById_cases by (metis prod.collapse)
  have found: ?thesis if "jl_parse J payload = Inr json" "order_OrderReservedEvent_fromJson J json = Inr event"
    for json event
    using that find [of "ore_orderId event"]
    by (cases "fst (findById scan (ore_orderId event) findEnv db)")
      (simp_all add: OrderReservedHandler_handle_def confirm_read_def confirm_change_def markReserved_def)
  show ?thesis
  proof (cases "jl_parse J payload")
    case (Inl e)
    then show ?thesis by (cases e) (simp_all add: OrderReservedHandler_handle_def confirm_read_def)
  next
    case (Inr json)
    then show ?thesis
      using found [OF Inr]
      by (cases "order_OrderReservedEvent_fromJson J json") (simp_all add: OrderReservedHandler_handle_def confirm_read_def)
  qed
qed

section \<open>The worker: lemmas\<close>

text \<open>The record a delivery asks for, if it gets that far.\<close>

type_synonym delivery = "(OrderCreatedEvent \<Rightarrow> unit expected) \<times> string \<times> MessageMetadata"

definition eventOf :: "'j json_lib \<Rightarrow> string \<Rightarrow> OrderCreatedEvent option" where
  "eventOf J payload =
     (case jl_parse J payload of
        Inl _ \<Rightarrow> None
      | Inr json \<Rightarrow> (case OrderCreatedEvent_fromJson J json of Inl _ \<Rightarrow> None | Inr event \<Rightarrow> Some event))"

definition reservation_of :: "'j json_lib \<Rightarrow> delivery \<Rightarrow> ReservationRecord option" where
  "reservation_of J d =
     (case d of (proc, payload, metadata) \<Rightarrow>
        case eventOf J payload of
          None \<Rightarrow> None
        | Some event \<Rightarrow> if has_value (proc event) then Some (reservationRecord J event metadata) else None)"

fun handle_all ::
  "'j json_lib \<Rightarrow> (string \<Rightarrow> string) \<Rightarrow> (delivery \<times> tx_env) list \<Rightarrow> worker_db \<Rightarrow> handler_result list \<times> worker_db" where
  "handle_all J jsonb [] db = ([], db)"
| "handle_all J jsonb (((proc, payload, metadata), env) # ds) db =
     (case OrderReservationHandler_handle J jsonb proc payload metadata env db of (res, db1) \<Rightarrow>
        case handle_all J jsonb ds db1 of (rest, db2) \<Rightarrow> (res # rest, db2))"

lemma handle_None:
  "reservation_of J (proc, payload, metadata) = None \<Longrightarrow>
   snd (OrderReservationHandler_handle J jsonb proc payload metadata env db) = db"
  by (auto simp: reservation_of_def eventOf_def OrderReservationHandler_handle_def has_value_iff
      split: sum.splits json_exception.splits if_splits)

lemma handle_Some:
  "reservation_of J (proc, payload, metadata) = Some r \<Longrightarrow>
   OrderReservationHandler_handle J jsonb proc payload metadata env db =
     (case recordReservationIfNew jsonb r env db of (res, db') \<Rightarrow> (Returned (has_value res), db'))"
  by (auto simp: reservation_of_def eventOf_def OrderReservationHandler_handle_def has_value_iff
      split: sum.splits json_exception.splits if_splits prod.splits)

text \<open>What the handler does to the database is what the repository does with the records it asks for.\<close>

lemma handle_all_deliveries:
  assumes "handle_all J jsonb ds db = (results, db')"
  shows "\<exists>answers. wr.deliveries jsonb (map (\<lambda>(d, env). (reservation_of J d, env)) ds) db = (answers, db') \<and>
    length answers = length ds \<and> length results = length ds \<and>
    (\<forall>k < length ds. \<forall>r. reservation_of J (fst (ds ! k)) = Some r \<longrightarrow> results ! k = Returned True \<longrightarrow>
       (\<exists>b. answers ! k = Some (Inr b)))"
  using assms
proof (induction J jsonb ds db arbitrary: results rule: handle_all.induct)
  case (2 J jsonb proc payload metadata env ds db)
  obtain res db1 rest where step: "OrderReservationHandler_handle J jsonb proc payload metadata env db = (res, db1)"
    and run: "handle_all J jsonb ds db1 = (rest, db')" and results: "results = res # rest"
    using "2.prems" by (auto split: prod.splits)
  obtain answers where IH: "wr.deliveries jsonb (map (\<lambda>(d, env). (reservation_of J d, env)) ds) db1 = (answers, db')"
    "length answers = length ds" "length rest = length ds"
    "\<forall>k < length ds. \<forall>r. reservation_of J (fst (ds ! k)) = Some r \<longrightarrow> rest ! k = Returned True \<longrightarrow>
       (\<exists>b. answers ! k = Some (Inr b))"
    using "2.IH" [OF step [symmetric] run] by blast
  show ?case
  proof (cases "reservation_of J (proc, payload, metadata)")
    case None
    then have "db1 = db" using handle_None [OF None, of jsonb env db] step by simp
    with None IH show ?thesis
      by (intro exI [of _ "None # answers"]) (auto simp: results nth_Cons split: nat.splits)
  next
    case (Some r)
    then obtain a where "recordReservationIfNew jsonb r env db = (a, db1)" "res = Returned (has_value a)"
      using handle_Some [OF Some, of jsonb env db] step by (auto split: prod.splits)
    with Some IH show ?thesis
      by (intro exI [of _ "Some a # answers"]) (auto simp: results nth_Cons has_value_iff split: nat.splits)
  qed
qed simp


section \<open>The order service: lemmas\<close>

text \<open>The order moved from \<open>Created\<close> to \<open>Reserved\<close>.\<close>

definition isCreated :: "OrderId \<Rightarrow> order_row \<Rightarrow> bool" where
  "isCreated i row \<longleftrightarrow> ord_order_id row = pg_uuid (orderId_value i) \<and> ord_status row = ''Created''"

definition reserved :: "OrderId \<Rightarrow> order_db \<Rightarrow> order_db" where
  "reserved i db =
     db\<lparr>db_orders := map (\<lambda>row. if isCreated i row then row\<lparr>ord_status := ''Reserved''\<rparr> else row) (db_orders db)\<rparr>"

lemma changeStatus_reserved:
  assumes "changeStatus i Created Reserved env db = (res, db')"
  shows "(db' = db \<or> db' = reserved i db) \<and> (res = Inr True \<longrightarrow> db' = reserved i db \<and> list_ex (isCreated i) (db_orders db))"
proof -
  have "inStatus i Created db = list_ex (isCreated i) (db_orders db)" "moved i Created Reserved db = reserved i db"
    by (simp_all add: inStatus_def moved_def reserved_def isCreated_def [abs_def])
  then show ?thesis
    using assms sr.answered [of i Created Reserved env db _ db'] sr.failed [of i Created Reserved env db _ db']
    by (cases res) (auto split: if_splits)
qed

lemma found_Created:
  assumes "found scan i db = Inr order" "o_status order = Created"
  obtains row where "filter (\<lambda>row. ord_order_id row = pg_uuid (orderId_value i)) (db_orders db) = [row]" "isCreated i row"
    "Order_fromRows row (scan (filter (\<lambda>row. itm_order_id row = pg_uuid (orderId_value i)) (db_order_items db))) = Inr order"
proof -
  obtain row where row: "filter (\<lambda>row. ord_order_id row = pg_uuid (orderId_value i)) (db_orders db) = [row]"
    "Order_fromRows row (scan (filter (\<lambda>row. itm_order_id row = pg_uuid (orderId_value i)) (db_order_items db))) = Inr order"
    using assms(1) by (auto simp: found_def split: list.splits if_splits)
  moreover have "isCreated i row"
    using row assms(2) unfolding isCreated_def
    by (auto simp: Order_fromRows_def Order_restore_def OrderStatus_fromString_Inr dest: filter_eq_ConsD
        split: sum.splits if_splits)
  ultimately show ?thesis using that by blast
qed

lemma found_reserved:
  assumes "found scan i db = Inr order" "o_status order = Created"
  shows "found scan i (reserved i db) = Inr (order\<lparr>o_status := Reserved\<rparr>)"
proof -
  let ?mine = "\<lambda>row. ord_order_id row = pg_uuid (orderId_value i)"
  let ?items = "scan (filter (\<lambda>row. itm_order_id row = pg_uuid (orderId_value i)) (db_order_items db))"
  obtain row where row: "filter ?mine (db_orders db) = [row]" "isCreated i row" "Order_fromRows row ?items = Inr order"
    by (rule found_Created [OF assms])
  have "filter ?mine (map (\<lambda>row. if isCreated i row then row\<lparr>ord_status := ''Reserved''\<rparr> else row) rows) =
      map (\<lambda>row. if isCreated i row then row\<lparr>ord_status := ''Reserved''\<rparr> else row) (filter ?mine rows)" for rows
    by (induction rows) (auto simp: isCreated_def)
  then have "filter ?mine (db_orders (reserved i db)) = [row\<lparr>ord_status := ''Reserved''\<rparr>]"
    using row(1,2) by (simp add: reserved_def)
  moreover have "Order_fromRows (row\<lparr>ord_status := ''Reserved''\<rparr>) ?items = Inr (order\<lparr>o_status := Reserved\<rparr>)"
    using row(3) OrderStatus_roundtrip [of Reserved]
    by (auto simp: Order_fromRows_def Order_restore_def split: sum.splits if_splits)
  ultimately show ?thesis by (simp add: found_def reserved_def)
qed

lemma changeStatus_no_faults:
  "changeStatus i Created Reserved (no_faults uuids) db =
     (Inr (list_ex (isCreated i) (db_orders db)), reserved i db)"
proof -
  have "(0 < length (filter (isCreated i) rows)) = list_ex (isCreated i) rows" for rows
    by (auto simp: list_ex_iff filter_empty_conv)
  then show ?thesis
    by (simp add: changeStatus_def run_tx_def tx_bind_def tx_exec_def tx_return_def UPDATE_ORDER_STATUS_def Let_def
        no_faults_def status_check_def reserved_def flip: isCreated_def)
qed

text \<open>When nothing fails, an order in status \<open>Created\<close> is moved.\<close>

lemma OrderReservedHandler_moves:
  assumes "jl_parse J payload = Inr json" "order_OrderReservedEvent_fromJson J json = Inr event"
    and "found scan (ore_orderId event) db = Inr order" "o_status order = Created"
  shows "OrderReservedHandler_handle J scan id payload metadata (no_faults uuids) (no_faults uuids') db =
    (Returned True, reserved (ore_orderId event) db)"
proof -
  obtain row where "filter (\<lambda>row. ord_order_id row = pg_uuid (orderId_value (ore_orderId event))) (db_orders db) = [row]"
    "isCreated (ore_orderId event) row"
    by (rule found_Created [OF assms(3,4)])
  then have "list_ex (isCreated (ore_orderId event)) (db_orders db)"
    by (auto simp: list_ex_iff dest: filter_eq_ConsD)
  then show ?thesis
    using assms by (simp add: OrderReservedHandler_handle_def findById_no_faults markReserved_def changeStatus_no_faults)
qed

lemma OrderReservedHandler_cases:
  assumes "OrderReservedHandler_handle J scan meanwhile payload metadata findEnv changeEnv db = (res, db')"
    and "jl_parse J payload = Inr json" "order_OrderReservedEvent_fromJson J json = Inr event"
  shows "db' \<in> {db, meanwhile db, reserved (ore_orderId event) (meanwhile db)} \<and> res \<noteq> Threw \<and>
    (res = Returned True \<longrightarrow>
       db' = db \<and> found scan (ore_orderId event) db = Inl (make_RepositoryError RepositoryError.NotFound) \<or>
       (\<exists>order. found scan (ore_orderId event) db = Inr order \<and>
          (if o_status order = Created
           then db' = reserved (ore_orderId event) (meanwhile db) \<and>
             list_ex (isCreated (ore_orderId event)) (db_orders (meanwhile db))
           else db' = db)))"
proof -
  let ?i = "ore_orderId event"
  obtain r db1 where find: "findById scan ?i findEnv db = (r, db1)" by (rule prod.exhaust)
  have db1: "db1 = db" "r = found scan ?i db \<or> (\<exists>e. r = Inl (mapPqxxException e))"
    using findById_cases [OF find] by auto
  show ?thesis
  proof (cases r)
    case (Inl e)
    then have "found scan ?i db = Inl e" if "e = make_RepositoryError RepositoryError.NotFound"
      using db1(2) that mapPqxxException_not_NotFound by (metis sum.inject(1))
    with Inl show ?thesis
      using assms find db1(1) by (auto simp: OrderReservedHandler_handle_def split: if_splits)
  next
    case (Inr order)
    then have found: "found scan ?i db = Inr order" using db1(2) by auto
    show ?thesis
    proof (cases "o_status order = Created")
      case True
      then have mark: "markReserved order = (Inr (), order\<lparr>o_status := Reserved\<rparr>)" by (simp add: markReserved_def)
      obtain c db2 where change: "changeStatus ?i Created Reserved changeEnv (meanwhile db) = (c, db2)" by (rule prod.exhaust)
      from changeStatus_reserved [OF change] show ?thesis
        using assms find Inr True found db1(1) change
        by (cases c) (auto simp: OrderReservedHandler_handle_def mark)
    next
      case False
      then have "res = Returned True \<and> db' = db"
        using assms find Inr db1(1) by (auto simp: OrderReservedHandler_handle_def markReserved_def split: if_splits)
      with found False show ?thesis by simp
    qed
  qed
qed

section \<open>Properties\<close>

text \<open>C6. The worker reserves every order event exactly once, whatever is delivered again, in which order
  and whatever fails: of all deliveries that reach the repository, the outbox gets one entry for each
  event id that was not recorded before and none for the others, in the order they were recorded; and
  when the handler reports an event as done, it is recorded.\<close>

theorem reservations_exactly_once:
  assumes "handle_all J jsonb ds db = (results, db')"
  shows "\<exists>picked. subseq picked (List.map_filter (\<lambda>(d, env). reservation_of J d) ds) \<and>
    distinct (map reservationKey picked) \<and> reservationKey ` set picked \<inter> set (wd_processed db) = {} \<and>
    set (wd_processed db') = set (wd_processed db) \<union> reservationKey ` set picked \<and>
    outboxEntries db' = outboxEntries db @ map (reservationEntry jsonb) picked \<and>
    (\<forall>k < length ds. \<forall>r. reservation_of J (fst (ds ! k)) = Some r \<longrightarrow> results ! k = Returned True \<longrightarrow>
       reservationKey r \<in> set (wd_processed db'))"
proof -
  let ?ds = "map (\<lambda>(d, env). (reservation_of J d, env)) ds"
  obtain answers where answers: "wr.deliveries jsonb ?ds db = (answers, db')"
    "\<forall>k < length ds. \<forall>r. reservation_of J (fst (ds ! k)) = Some r \<longrightarrow> results ! k = Returned True \<longrightarrow>
       (\<exists>b. answers ! k = Some (Inr b))"
    using handle_all_deliveries [OF assms] by blast
  have "List.map_filter fst ?ds = List.map_filter (\<lambda>(d, env). reservation_of J d) ds"
    by (induction ds) (auto simp: map_filter_simps split: option.splits)
  moreover have "fst (?ds ! k) = reservation_of J (fst (ds ! k))" if "k < length ds" for k
    using that by (simp split: prod.splits)
  ultimately show ?thesis
    using wr.deliveries_exactly_once [OF answers(1)] answers(2) by fastforce
qed

definition sampleDelivery :: delivery where
  "sampleDelivery =
     (process, jl_dump value_lib (Order_toJson value_lib (assignId (OrderId sampleUuid) sampleOrder)),
      \<lparr>mm_eventId = OutboxEventId sampleUuid, mm_eventType = ''OrderCreated''\<rparr>)"

theorem reservations_exactly_once_witness:
  "\<exists>picked db'. snd (handle_all value_lib id (replicate 2 (sampleDelivery, no_faults (\<lambda>_. sampleUuid))) worker_db_init) = db' \<and>
     set (wd_processed db') = reservationKey ` set picked \<and> outboxEntries db' = map (reservationEntry id) picked"
proof -
  obtain results db' where run:
    "handle_all value_lib id (replicate 2 (sampleDelivery, no_faults (\<lambda>_. sampleUuid))) worker_db_init = (results, db')"
    by (rule prod.exhaust)
  from reservations_exactly_once [OF run] run show ?thesis by (auto simp: worker_db_init_def outboxEntries_def)
qed

text \<open>C18. What the confirmation of a reservation does to the order service's database: nothing, or it moves
  exactly the order of the event from \<open>Created\<close> to \<open>Reserved\<close>, on top of what others did meanwhile. It
  reports the event as done only when there is no such order, when the order had already left
  \<open>Created\<close>, or when it made the move.\<close>

theorem reserved_handler_effect:
  assumes "OrderReservedHandler_handle J scan meanwhile payload metadata findEnv changeEnv db = (res, db')"
    and "jl_parse J payload = Inr json" "order_OrderReservedEvent_fromJson J json = Inr event"
  shows "db' \<in> {db, meanwhile db, reserved (ore_orderId event) (meanwhile db)} \<and> res \<noteq> Threw \<and>
    (res = Returned True \<longrightarrow>
       db' = db \<and> found scan (ore_orderId event) db = Inl (make_RepositoryError RepositoryError.NotFound) \<or>
       (\<exists>order. found scan (ore_orderId event) db = Inr order \<and>
          (if o_status order = Created
           then db' = reserved (ore_orderId event) (meanwhile db) \<and>
             list_ex (isCreated (ore_orderId event)) (db_orders (meanwhile db))
           else db' = db)))"
  using assms by (rule OrderReservedHandler_cases)

definition sampleMetadata :: MessageMetadata where
  "sampleMetadata = \<lparr>mm_eventId = OutboxEventId sampleUuid, mm_eventType = ''OrderReserved''\<rparr>"

definition sampleReserved :: string where
  "sampleReserved = jl_dump value_lib (OrderReservedEvent_toJson value_lib \<lparr>re_orderId = OrderId sampleUuid\<rparr>)"

lemma sampleReserved_event:
  "\<exists>json. jl_parse value_lib sampleReserved = Inr json \<and>
     order_OrderReservedEvent_fromJson value_lib json = Inr \<lparr>ore_orderId = OrderId sampleUuid\<rparr>"
  unfolding sampleReserved_def
  using vj.OrderReservedEvent_ok [of "\<lparr>re_orderId = OrderId sampleUuid\<rparr>"]
    vj.OrderReservedEvent_handover [of "\<lparr>re_orderId = OrderId sampleUuid\<rparr>"]
  by (simp add: vj.parse_dump)

theorem reserved_handler_effect_witness:
  "snd (OrderReservedHandler_handle value_lib id id sampleReserved sampleMetadata (no_faults (\<lambda>_. [])) (no_faults (\<lambda>_. [])) sampleDb)
   \<in> {sampleDb, reserved (OrderId sampleUuid) sampleDb}"
proof -
  obtain json where json: "jl_parse value_lib sampleReserved = Inr json"
    "order_OrderReservedEvent_fromJson value_lib json = Inr \<lparr>ore_orderId = OrderId sampleUuid\<rparr>"
    using sampleReserved_event by blast
  obtain res db' where run: "OrderReservedHandler_handle value_lib id id sampleReserved sampleMetadata (no_faults (\<lambda>_. [])) (no_faults (\<lambda>_. []))
      sampleDb = (res, db')"
    by (rule prod.exhaust)
  from reserved_handler_effect [OF run json] run show ?thesis by simp
qed

text \<open>Redelivery of a reservation that was reported as done is harmless: the handler reports it as done
  again and the database stays as it is.\<close>

lemma reserved_redelivery:
  assumes "OrderReservedHandler_handle J scan id payload metadata findEnv changeEnv db = (Returned True, db')"
  shows "OrderReservedHandler_handle J scan meanwhile payload metadata' (no_faults uuids) changeEnv' db' = (Returned True, db')"
proof (cases "jl_parse J payload")
  case (Inl e)
  with assms show ?thesis by (cases e) (simp_all add: OrderReservedHandler_handle_def)
next
  case (Inr json)
  show ?thesis
  proof (cases "order_OrderReservedEvent_fromJson J json")
    case (Inl e)
    with assms Inr show ?thesis by (simp add: OrderReservedHandler_handle_def)
  next
    case (Inr event)
    note effect = OrderReservedHandler_cases [OF assms \<open>jl_parse J payload = Inr json\<close> Inr]
    have "found scan (ore_orderId event) db' = Inl (make_RepositoryError RepositoryError.NotFound) \<or>
        (\<exists>order. found scan (ore_orderId event) db' = Inr order \<and> o_status order \<noteq> Created)"
    proof (cases "found scan (ore_orderId event) db")
      case (Inr order)
      with effect show ?thesis
        by (cases "o_status order = Created") (auto simp: found_reserved)
    qed (use effect in auto)
    then show ?thesis
      using \<open>jl_parse J payload = Inr json\<close> Inr
      by (auto simp: OrderReservedHandler_handle_def findById_no_faults markReserved_def)
  qed
qed

lemma found_sampleDb: "\<exists>order. found id (OrderId sampleUuid) sampleDb = Inr order \<and> o_status order = Created"
proof -
  have "traverse OrderItem_fromRow (map (item_row_of (pg_uuid sampleUuid)) (o_items sampleOrder)) =
      Inr (map canonicalItem (o_items sampleOrder))"
    using wf_sampleOrder by (intro traverse_map_to OrderItem_fromRow_of) (simp add: wf_Order_def list_all_iff)
  moreover have "OrderStatus_fromString ''Created'' = Inr Created" using OrderStatus_roundtrip [of Created] by simp
  ultimately show ?thesis
    by (simp add: found_def sampleDb_def saved_def order_db_init_def Order_fromRows_def Order_restore_def sampleOrder_def
        id_create_defs StrongID_create_valid isValidUuid_pg item_row_of_def)
qed

end
