(* ===== verification/Outbox.thy ===== *)
theory Outbox
  imports OutboxTable KafkaPublisher
begin

text \<open>
  \<open>shared/outbox\<close>: the repository of the table \<open>outbox\<close> and the publisher that moves its rows to
  Kafka, \<open>PostgresOutboxRepository.cpp\<close> and \<open>OutboxPublisher.cpp\<close>.
\<close>

section \<open>Repository\<close>

record OutboxEntry =
  oe_id :: OutboxEventId
  oe_aggregateId :: string
  oe_eventType :: string
  oe_payload :: string

definition mapRow :: "outbox_row \<Rightarrow> OutboxEntry expected" where
  "mapRow row =
     (case OutboxEventId_create (ob_id row) of
        Inl e \<Rightarrow> Inl e
      | Inr i \<Rightarrow> Inr \<lparr>oe_id = i, oe_aggregateId = ob_aggregate_id row, oe_eventType = ob_event_type row,
                      oe_payload = ob_payload row\<rparr>)"

definition fetchUnpublished ::
  "(string \<Rightarrow> bool) \<Rightarrow> int \<Rightarrow> tx_env \<Rightarrow> outbox_row list \<Rightarrow> OutboxEntry list expected \<times> outbox_row list" where
  "fetchUnpublished locked limit =
     run_tx
       (tx_bind (tx_exec (\<lambda>env rows. transform (SELECT_UNPUBLISHED_OUTBOX locked limit rows) (\<lambda>sel. (sel, rows)))) (\<lambda>rows.
        tx_return (Commit (traverse mapRow rows))))"

definition markAsPublished ::
  "OutboxEventId \<Rightarrow> tx_env \<Rightarrow> outbox_row list \<Rightarrow> unit expected \<times> outbox_row list" where
  "markAsPublished entryId =
     run_tx
       (tx_bind (tx_exec (\<lambda>env rows. Inr (MARK_OUTBOX_PUBLISHED (outboxEventId_value entryId) rows))) (\<lambda>affected_rows.
        if affected_rows = 0 then tx_return (Rollback (Inl (make_RepositoryError RepositoryError.NotFound)))
        else tx_return (Commit (Inr ()))))"

section \<open>Publisher\<close>

record BatchResult =
  br_fetched :: nat
  br_published :: nat

definition hasMoreWork :: "int \<Rightarrow> BatchResult \<Rightarrow> bool" where
  "hasMoreWork batchSize result \<longleftrightarrow> 0 < br_published result \<and> batchSize \<le> int (br_fetched result)"

definition outboxRequest :: "string \<Rightarrow> OutboxEntry \<Rightarrow> PublishRequest" where
  "outboxRequest topic_name entry =
     \<lparr>pq_topic = topic_name, pq_key = oe_aggregateId entry, pq_payload = oe_payload entry,
      pq_metadata = \<lparr>mm_eventId = oe_id entry, mm_eventType = oe_eventType entry\<rparr>\<rparr>"

text \<open>The second loop: the futures are looked at in turn, each until the timeout. \<open>markEnv\<close> is the
  environment of the transaction that marks an entry.\<close>

fun mark_pending ::
  "(OutboxEventId \<Rightarrow> tx_env) \<Rightarrow> (OutboxEntry \<times> unit expected future) list \<Rightarrow> nat \<Rightarrow> outbox_row list \<Rightarrow> nat \<times> outbox_row list" where
  "mark_pending markEnv [] published rows = (published, rows)"
| "mark_pending markEnv ((entry, NotReady) # pending) published rows = mark_pending markEnv pending published rows"
| "mark_pending markEnv ((entry, Ready (Inl e)) # pending) published rows = mark_pending markEnv pending published rows"
| "mark_pending markEnv ((entry, Ready (Inr u)) # pending) published rows =
     (case markAsPublished (oe_id entry) (markEnv (oe_id entry)) rows of
        (Inl e, rows') \<Rightarrow> mark_pending markEnv pending published rows'
      | (Inr _, rows') \<Rightarrow> mark_pending markEnv pending (published + 1) rows')"

text \<open>What a batch meets: the rows locked elsewhere, the environments of its transactions, the publisher.\<close>

record batch_env =
  be_locked :: "string \<Rightarrow> bool"
  be_fetch :: tx_env
  be_mark :: "OutboxEventId \<Rightarrow> tx_env"
  be_publish :: "PublishRequest \<Rightarrow> unit expected future"

definition processBatch ::
  "string \<Rightarrow> int \<Rightarrow> batch_env \<Rightarrow> outbox_row list \<Rightarrow> BatchResult \<times> PublishRequest list \<times> outbox_row list" where
  "processBatch topic_name batchSize env rows =
     (case fetchUnpublished (be_locked env) batchSize (be_fetch env) rows of
        (Inl e, rows1) \<Rightarrow> (\<lparr>br_fetched = 0, br_published = 0\<rparr>, [], rows1)
      | (Inr entries, rows1) \<Rightarrow>
          if entries = [] then (\<lparr>br_fetched = 0, br_published = 0\<rparr>, [], rows1)
          else
            let requests = map (outboxRequest topic_name) entries;
                pending = zip entries (map (be_publish env) requests);
                (published, rows2) = mark_pending (be_mark env) pending 0 rows1 in
            (\<lparr>br_fetched = length entries, br_published = published\<rparr>, requests, rows2))"

text \<open>The loop of \<open>run\<close> over the environments of its turns, until a stop is requested. Each turn is a
  batch, after which the thread goes on at once or sleeps for the poll interval.\<close>

datatype pause = GoOn | Sleep

fun outbox_run ::
  "string \<Rightarrow> int \<Rightarrow> batch_env list \<Rightarrow> outbox_row list \<Rightarrow> (PublishRequest list \<times> pause) list \<times> outbox_row list" where
  "outbox_run topic_name batchSize [] rows = ([], rows)"
| "outbox_run topic_name batchSize (env # envs) rows =
     (let (result, requests, rows1) = processBatch topic_name batchSize env rows;
          (trace, rows2) = outbox_run topic_name batchSize envs rows1 in
      ((requests, if hasMoreWork batchSize result then GoOn else Sleep) # trace, rows2))"

text \<open>
  The publisher and its thread: none yet, or a thread with its stop token. \<open>stop\<close> asks the thread to stop
  and does not wait for it; the loop looks at the token before each batch.
\<close>

record OutboxPublisher =
  op_topic :: string
  op_pollInterval :: int
  op_batchSize :: int
  op_publishTimeout :: int
  op_thread :: "bool option"

definition OutboxPublisher_create :: "string \<Rightarrow> OutboxPublisher" where
  "OutboxPublisher_create topic_name =
     \<lparr>op_topic = topic_name, op_pollInterval = 500, op_batchSize = 100, op_publishTimeout = 5000, op_thread = None\<rparr>"

definition outbox_start :: "OutboxPublisher \<Rightarrow> OutboxPublisher" where
  "outbox_start p = p\<lparr>op_thread := Some False\<rparr>"

definition outbox_stop :: "OutboxPublisher \<Rightarrow> OutboxPublisher" where
  "outbox_stop p = (case op_thread p of None \<Rightarrow> p | Some _ \<Rightarrow> p\<lparr>op_thread := Some True\<rparr>)"

definition outbox_turn :: "batch_env \<Rightarrow> OutboxPublisher \<Rightarrow> outbox_row list \<Rightarrow> PublishRequest list \<times> outbox_row list" where
  "outbox_turn env p rows =
     (if op_thread p = Some False
      then (case processBatch (op_topic p) (op_batchSize p) env rows of (_, requests, rows') \<Rightarrow> (requests, rows'))
      else ([], rows))"

section \<open>Lemmas\<close>

lemma stopped_outbox_idle: "outbox_turn env (outbox_stop (outbox_start p)) rows = ([], rows)"
  by (simp add: outbox_turn_def outbox_stop_def outbox_start_def)

text \<open>The entry of a row whose id is valid.\<close>

definition entry_of :: "outbox_row \<Rightarrow> OutboxEntry" where
  "entry_of row =
     \<lparr>oe_id = OutboxEventId (ob_id row), oe_aggregateId = ob_aggregate_id row, oe_eventType = ob_event_type row,
      oe_payload = ob_payload row\<rparr>"

definition unpublished :: "outbox_row list \<Rightarrow> outbox_row list" where
  "unpublished rows = filter (\<lambda>row. \<not> ob_published row) rows"

definition published_in :: "string set \<Rightarrow> outbox_row list \<Rightarrow> outbox_row list" where
  "published_in ids rows = map (\<lambda>row. if ob_id row \<in> ids then row\<lparr>ob_published := True\<rparr> else row) rows"

lemma mapRow_entry: "isValidUuid (ob_id row) \<Longrightarrow> mapRow row = Inr (entry_of row)"
  by (simp add: mapRow_def entry_of_def id_create_defs StrongID_create_valid)

lemma published_in_simps [simp]:
  "published_in {} rows = rows" "map ob_id (published_in ids rows) = map ob_id rows"
  "published_in ids (published_in ids' rows) = published_in (ids \<union> ids') rows"
  by (auto simp: published_in_def)

lemma outbox_ok_published_in [simp]: "outbox_ok (published_in ids rows) = outbox_ok rows"
  by (simp only: outbox_ok_def published_in_simps)

lemma fetchUnpublished_rows: "snd (fetchUnpublished locked limit env rows) = rows"
  by (auto simp: fetchUnpublished_def run_tx_def tx_bind_def tx_exec_def tx_return_def transform_def
      split: option.splits sum.splits tx_end.splits commit_result.splits prod.splits)

lemma fetchUnpublished_Inr:
  assumes "outbox_ok rows" "fst (fetchUnpublished locked limit env rows) = Inr entries"
  shows "entries = map entry_of (take (nat limit) (filter (\<lambda>row. \<not> ob_published row \<and> \<not> locked (ob_id row)) rows))"
proof -
  let ?sel = "take (nat limit) (filter (\<lambda>row. \<not> ob_published row \<and> \<not> locked (ob_id row)) rows)"
  obtain rows' where "fetchUnpublished locked limit env rows = (Inr entries, rows')"
    using assms(2) by (cases "fetchUnpublished locked limit env rows") auto
  from run_tx_Inr [OF this [unfolded fetchUnpublished_def]]
  have "traverse mapRow ?sel = Inr entries"
    by (auto simp: tx_bind_Inr tx_exec_Inr SELECT_UNPUBLISHED_OUTBOX_def transform_Inr_iff split: if_splits)
  moreover have "traverse mapRow (map (\<lambda>r. r) ?sel) = Inr (map entry_of ?sel)"
    using assms(1)
    by (intro traverse_map_to mapRow_entry) (auto simp: outbox_ok_def list_all_iff dest!: in_set_takeD)
  ultimately show ?thesis by simp
qed

lemma markAsPublished_rows:
  assumes "pg_uuid (outboxEventId_value i) = outboxEventId_value i"
  shows "snd (markAsPublished i env rows) = rows \<or>
    snd (markAsPublished i env rows) = published_in {outboxEventId_value i} rows"
  by (auto simp: markAsPublished_def run_tx_def tx_bind_def tx_exec_def tx_return_def MARK_OUTBOX_PUBLISHED_def assms
      published_in_def split: option.splits sum.splits tx_end.splits commit_result.splits)

lemma markAsPublished_Inr:
  assumes "pg_uuid (outboxEventId_value i) = outboxEventId_value i" "fst (markAsPublished i env rows) = Inr u"
  shows "snd (markAsPublished i env rows) = published_in {outboxEventId_value i} rows"
  using assms(2)
  by (auto simp: markAsPublished_def run_tx_def tx_bind_def tx_exec_def tx_return_def MARK_OUTBOX_PUBLISHED_def assms(1)
      published_in_def split: option.splits sum.splits tx_end.splits commit_result.splits if_splits)

text \<open>Only acknowledged entries are marked.\<close>

definition acknowledged :: "(OutboxEntry \<times> unit expected future) list \<Rightarrow> string set" where
  "acknowledged pending = {outboxEventId_value (oe_id e) | e. (e, Ready (Inr ())) \<in> set pending}"

lemma acknowledged_Cons:
  "acknowledged pending \<subseteq> acknowledged (p # pending)"
  "outboxEventId_value (oe_id e) \<in> acknowledged ((e, Ready (Inr ())) # pending)"
  by (auto simp: acknowledged_def)

lemma mark_pending_acknowledged:
  assumes "\<forall>(e, f) \<in> set pending. pg_uuid (outboxEventId_value (oe_id e)) = outboxEventId_value (oe_id e)"
  shows "\<exists>ids \<subseteq> acknowledged pending. snd (mark_pending markEnv pending n rows) = published_in ids rows"
  using assms
proof (induction markEnv pending n rows rule: mark_pending.induct)
  case (1 markEnv published rows)
  then show ?case by (intro exI [of _ "{}"]) simp
next
  case (2 markEnv entry pending published rows)
  then obtain ids where "ids \<subseteq> acknowledged pending"
    "snd (mark_pending markEnv pending published rows) = published_in ids rows" by auto
  then show ?case
    using acknowledged_Cons(1) [of pending "(entry, NotReady)"] by (intro exI [of _ ids]) auto
next
  case (3 markEnv entry e pending published rows)
  then obtain ids where "ids \<subseteq> acknowledged pending"
    "snd (mark_pending markEnv pending published rows) = published_in ids rows" by auto
  then show ?case
    using acknowledged_Cons(1) [of pending "(entry, Ready (Inl e))"] by (intro exI [of _ ids]) auto
next
  case (4 markEnv entry u pending published rows)
  let ?i = "outboxEventId_value (oe_id entry)"
  obtain res rows1 where marked: "markAsPublished (oe_id entry) (markEnv (oe_id entry)) rows = (res, rows1)" by fastforce
  have canon: "pg_uuid ?i = ?i" using "4.prems" by simp
  have "rows1 = published_in {} rows \<or> rows1 = published_in {?i} rows"
    using markAsPublished_rows [OF canon, of "markEnv (oe_id entry)" rows] marked by simp
  then obtain ids1 where ids1: "rows1 = published_in ids1 rows" "ids1 \<subseteq> {?i}" by blast
  have "\<exists>ids \<subseteq> acknowledged pending. snd (mark_pending markEnv ((entry, Ready (Inr u)) # pending) published rows) =
      published_in ids rows1"
    using 4 marked by (cases res) (auto simp: marked)
  then obtain ids where ids: "ids \<subseteq> acknowledged pending"
    "snd (mark_pending markEnv ((entry, Ready (Inr u)) # pending) published rows) = published_in (ids \<union> ids1) rows"
    using ids1(1) by auto
  have "?i \<in> acknowledged ((entry, Ready (Inr u)) # pending)" by (auto simp: acknowledged_def)
  then have "ids \<union> ids1 \<subseteq> acknowledged ((entry, Ready (Inr u)) # pending)"
    using ids(1) ids1(2) acknowledged_Cons(1) [of pending "(entry, Ready (Inr u))"] by auto
  with ids(2) show ?case by (intro exI conjI)
qed

lemma markAsPublished_reliable:
  assumes "pg_uuid (outboxEventId_value i) = outboxEventId_value i" "outboxEventId_value i \<in> ob_id ` set rows"
  shows "markAsPublished i (no_faults uuids) rows = (Inr (), published_in {outboxEventId_value i} rows)"
proof -
  have "filter (\<lambda>row. ob_id row = outboxEventId_value i) rows \<noteq> []"
    using assms(2) by (auto simp: filter_empty_conv)
  then show ?thesis
    by (simp add: markAsPublished_def run_tx_def tx_bind_def tx_exec_def tx_return_def MARK_OUTBOX_PUBLISHED_def
        no_faults_def published_in_def assms(1))
qed

lemma mark_pending_reliable:
  assumes "\<forall>e \<in> set entries. pg_uuid (outboxEventId_value (oe_id e)) = outboxEventId_value (oe_id e) \<and>
      outboxEventId_value (oe_id e) \<in> ob_id ` set rows"
  shows "mark_pending (\<lambda>_. no_faults uuids) (map (\<lambda>e. (e, Ready (Inr ()))) entries) n rows =
    (n + length entries, published_in (outboxEventId_value ` oe_id ` set entries) rows)"
  using assms
proof (induction entries arbitrary: n rows)
  case (Cons e entries)
  let ?i = "outboxEventId_value (oe_id e)"
  have ids: "ob_id ` set (published_in ids rows) = ob_id ` set rows" for ids
    by (metis list.set_map published_in_simps(2))
  have "mark_pending (\<lambda>_. no_faults uuids) (map (\<lambda>e. (e, Ready (Inr ()))) entries) (n + 1) (published_in {?i} rows) =
      (n + 1 + length entries, published_in (outboxEventId_value ` oe_id ` set entries) (published_in {?i} rows))"
    using Cons.prems by (intro Cons.IH) (simp add: ids)
  then show ?case
    using Cons.prems markAsPublished_reliable [of "oe_id e" rows uuids] by simp
qed simp

lemma unpublished_published_in:
  "unpublished (published_in ids rows) = filter (\<lambda>row. ob_id row \<notin> ids) (unpublished rows)"
  by (induction rows) (auto simp: unpublished_def published_in_def)

lemma zip_map_const: "zip (map f xs) (map (\<lambda>_. c) xs) = map (\<lambda>x. (f x, c)) xs"
  by (induction xs) simp_all

lemma filter_notin_take:
  "distinct (map f xs) \<Longrightarrow> filter (\<lambda>x. f x \<notin> f ` set (take n xs)) xs = drop n xs"
proof (induction xs arbitrary: n)
  case (Cons x xs)
  show ?case
  proof (cases n)
    case (Suc m)
    have "filter (\<lambda>y. f y \<noteq> f x \<and> f y \<notin> f ` set (take m xs)) xs = filter (\<lambda>y. f y \<notin> f ` set (take m xs)) xs"
      using Cons.prems by (intro filter_cong refl) (auto simp: image_iff)
    with Suc Cons show ?thesis by simp
  qed (use Cons in simp)
qed simp

text \<open>When nothing fails and the broker acknowledges everything.\<close>

definition reliable :: "(nat \<Rightarrow> string) \<Rightarrow> batch_env" where
  "reliable uuids =
     \<lparr>be_locked = (\<lambda>_. False), be_fetch = no_faults uuids, be_mark = (\<lambda>_. no_faults uuids),
      be_publish = (\<lambda>_. Ready (Inr ()))\<rparr>"

lemma fetchUnpublished_reliable:
  assumes "outbox_ok rows" "0 \<le> batchSize"
  shows "fetchUnpublished (\<lambda>_. False) batchSize (no_faults uuids) rows =
    (Inr (map entry_of (take (nat batchSize) (unpublished rows))), rows)"
proof -
  have "traverse mapRow (map (\<lambda>r. r) (take (nat batchSize) (unpublished rows))) =
      Inr (map entry_of (take (nat batchSize) (unpublished rows)))"
    using assms(1)
    by (intro traverse_map_to mapRow_entry) (auto simp: outbox_ok_def list_all_iff unpublished_def dest!: in_set_takeD)
  then show ?thesis
    using assms(2)
    by (simp add: fetchUnpublished_def run_tx_def tx_bind_def tx_exec_def tx_return_def no_faults_def
        SELECT_UNPUBLISHED_OUTBOX_def unpublished_def)
qed

lemma processBatch_reliable:
  assumes "outbox_ok rows" "0 < batchSize"
  defines "sel \<equiv> take (nat batchSize) (unpublished rows)"
  shows "processBatch topic_name batchSize (reliable uuids) rows =
    (\<lparr>br_fetched = length sel, br_published = length sel\<rparr>, map (outboxRequest topic_name \<circ> entry_of) sel,
     published_in (ob_id ` set sel) rows)"
proof -
  let ?entries = "map entry_of sel"
  have mem: "row \<in> set sel \<Longrightarrow> row \<in> set rows" for row
    by (auto simp: sel_def unpublished_def dest: in_set_takeD)
  have ids: "outboxEventId_value ` oe_id ` set ?entries = ob_id ` set sel"
    by (simp add: image_image entry_of_def)
  have "\<forall>e \<in> set ?entries. pg_uuid (outboxEventId_value (oe_id e)) = outboxEventId_value (oe_id e) \<and>
      outboxEventId_value (oe_id e) \<in> ob_id ` set rows"
    using assms(1) mem by (auto simp: outbox_ok_def list_all_iff entry_of_def)
  note marked = mark_pending_reliable [OF this, of uuids 0, unfolded ids]
  have fetched: "fetchUnpublished (\<lambda>_. False) batchSize (no_faults uuids) rows = (Inr ?entries, rows)"
    unfolding sel_def using assms(1,2) by (intro fetchUnpublished_reliable) simp_all
  show ?thesis
  proof (cases "sel = []")
    case True
    with fetched show ?thesis by (simp add: processBatch_def reliable_def)
  next
    case False
    with fetched marked show ?thesis by (simp add: processBatch_def reliable_def Let_def zip_map_const comp_def)
  qed
qed

lemma unpublished_after_batch:
  assumes "outbox_ok rows"
  shows "unpublished (published_in (ob_id ` set (take n (unpublished rows))) rows) = drop n (unpublished rows)"
proof -
  have "distinct (map ob_id (unpublished rows))"
    using assms by (simp add: outbox_ok_def unpublished_def distinct_map_filter)
  then show ?thesis unfolding unpublished_published_in by (rule filter_notin_take)
qed

lemma outbox_run_reliable:
  assumes "outbox_ok rows" "0 < batchSize"
    and "outbox_run topic_name batchSize (replicate n (reliable uuids)) rows = (trace, rows')"
  shows "unpublished rows' = drop (n * nat batchSize) (unpublished rows) \<and>
    concat (map fst trace) = map (outboxRequest topic_name \<circ> entry_of) (take (n * nat batchSize) (unpublished rows))"
  using assms(1,3)
proof (induction n arbitrary: rows trace)
  case (Suc n)
  let ?sel = "take (nat batchSize) (unpublished rows)"
  let ?rows = "published_in (ob_id ` set ?sel) rows"
  obtain trace1 where run: "outbox_run topic_name batchSize (replicate n (reliable uuids)) ?rows = (trace1, rows')"
    and trace: "\<exists>pause. trace = (map (outboxRequest topic_name \<circ> entry_of) ?sel, pause) # trace1"
    using Suc.prems(2) processBatch_reliable [OF Suc.prems(1) assms(2), of topic_name uuids]
    by (auto simp: Let_def split: prod.splits)
  have "unpublished ?rows = drop (nat batchSize) (unpublished rows)" by (rule unpublished_after_batch [OF Suc.prems(1)])
  with Suc.IH [of ?rows trace1] run Suc.prems(1) trace show ?case
    by (auto simp: take_add add.commute [of _ "nat batchSize"])
qed simp

lemma acknowledged_rows:
  "i \<in> acknowledged (map (\<lambda>row. (entry_of row, f row)) sel) \<longleftrightarrow> (\<exists>row \<in> set sel. ob_id row = i \<and> f row = Ready (Inr ()))"
proof
  assume "i \<in> acknowledged (map (\<lambda>row. (entry_of row, f row)) sel)"
  then obtain e where "i = outboxEventId_value (oe_id e)" "(e, Ready (Inr ())) \<in> set (map (\<lambda>row. (entry_of row, f row)) sel)"
    unfolding acknowledged_def by blast
  then show "\<exists>row \<in> set sel. ob_id row = i \<and> f row = Ready (Inr ())" by (auto simp: entry_of_def)
next
  assume "\<exists>row \<in> set sel. ob_id row = i \<and> f row = Ready (Inr ())"
  then obtain row where "row \<in> set sel" "ob_id row = i" "f row = Ready (Inr ())" by blast
  then have "(entry_of row, Ready (Inr ())) \<in> set (map (\<lambda>row. (entry_of row, f row)) sel)"
    "i = outboxEventId_value (oe_id (entry_of row))"
    by (force, simp add: entry_of_def)
  then show "i \<in> acknowledged (map (\<lambda>row. (entry_of row, f row)) sel)" unfolding acknowledged_def by blast
qed

text \<open>A batch that fetched the rows \<open>sel\<close> publishes a request for each and marks some of those acknowledged.\<close>

lemma processBatch_fetched:
  assumes "processBatch topic_name batchSize env rows = (result, requests, rows')"
    and "fetchUnpublished (be_locked env) batchSize (be_fetch env) rows = (Inr (map entry_of sel), rows)"
    and "\<forall>row \<in> set sel. pg_uuid (ob_id row) = ob_id row"
  shows "requests = map (\<lambda>row. outboxRequest topic_name (entry_of row)) sel \<and>
    (\<exists>ids. ids \<subseteq> acknowledged (map (\<lambda>row. (entry_of row, be_publish env (outboxRequest topic_name (entry_of row)))) sel) \<and>
       rows' = published_in ids rows)"
proof -
  let ?pending = "zip (map entry_of sel) (map (be_publish env) (map (outboxRequest topic_name) (map entry_of sel)))"
  have pending: "?pending = map (\<lambda>row. (entry_of row, be_publish env (outboxRequest topic_name (entry_of row)))) sel"
    by (induction sel) simp_all
  have "\<forall>(e, f) \<in> set ?pending. pg_uuid (outboxEventId_value (oe_id e)) = outboxEventId_value (oe_id e)"
    using assms(3) unfolding pending by (auto simp: entry_of_def)
  from mark_pending_acknowledged [OF this, of "be_mark env" 0 rows]
  obtain ids where "ids \<subseteq> acknowledged ?pending" "snd (mark_pending (be_mark env) ?pending 0 rows) = published_in ids rows"
    by blast
  then show ?thesis
    using assms(1,2) unfolding pending
    by (cases "sel = []") (auto simp: processBatch_def Let_def pending [simplified] split: prod.splits intro: exI [of _ "{}"])
qed

section \<open>Properties\<close>

text \<open>C8. Nothing is lost and nothing is invented by the publisher: a batch, whatever fails in it, only
  turns rows to published, and only rows that it fetched and whose publication the broker
  acknowledged with exactly the row's payload and event under the row's id. All other rows stay as they
  were and will be fetched again.\<close>

theorem batch_marks_only_acknowledged:
  assumes "outbox_ok rows" "processBatch topic_name batchSize env rows = (result, requests, rows')"
  shows "\<exists>ids. rows' = map (\<lambda>row. if ob_id row \<in> ids then row\<lparr>ob_published := True\<rparr> else row) rows \<and>
    (\<forall>i \<in> ids. \<exists>row \<in> set rows. ob_id row = i \<and> \<not> ob_published row \<and>
       outboxRequest topic_name (entry_of row) \<in> set requests \<and>
       be_publish env (outboxRequest topic_name (entry_of row)) = Ready (Inr ()))"
proof (cases "fst (fetchUnpublished (be_locked env) batchSize (be_fetch env) rows)")
  case (Inl e)
  then have "rows' = rows"
    using assms(2) fetchUnpublished_rows [of "be_locked env" batchSize "be_fetch env" rows]
    by (auto simp: processBatch_def split: prod.splits)
  then show ?thesis by (intro exI [of _ "{}"]) simp
next
  case (Inr entries)
  define sel where "sel = take (nat batchSize) (filter (\<lambda>row. \<not> ob_published row \<and> \<not> be_locked env (ob_id row)) rows)"
  have entries: "entries = map entry_of sel" unfolding sel_def by (rule fetchUnpublished_Inr [OF assms(1) Inr])
  have sel: "row \<in> set sel \<Longrightarrow> row \<in> set rows \<and> \<not> ob_published row" for row
    by (auto simp: sel_def dest: in_set_takeD)
  have "fetchUnpublished (be_locked env) batchSize (be_fetch env) rows = (Inr entries, rows)"
    using Inr fetchUnpublished_rows by (metis prod.collapse)
  from processBatch_fetched [OF assms(2) this [unfolded entries]] assms(1) sel obtain ids where
    ids: "requests = map (\<lambda>row. outboxRequest topic_name (entry_of row)) sel" "rows' = published_in ids rows"
      "ids \<subseteq> acknowledged (map (\<lambda>row. (entry_of row, be_publish env (outboxRequest topic_name (entry_of row)))) sel)"
    by (auto simp: outbox_ok_def list_all_iff)
  have "\<exists>row \<in> set rows. ob_id row = i \<and> \<not> ob_published row \<and>
      outboxRequest topic_name (entry_of row) \<in> set requests \<and>
      be_publish env (outboxRequest topic_name (entry_of row)) = Ready (Inr ())" if "i \<in> ids" for i
    using subsetD [OF ids(3) that] sel unfolding acknowledged_rows ids(1) by fastforce
  with ids(2) show ?thesis unfolding published_in_def by blast
qed

definition sampleRows :: "outbox_row list" where
  "sampleRows =
     [\<lparr>ob_id = ''00000000-0000-4000-8000-000000000001'', ob_aggregate_id = ''00000000-0000-4000-8000-000000000002'',
       ob_event_type = ''OrderCreated'', ob_payload = ''{}'', ob_published = False\<rparr>]"

lemma outbox_ok_sampleRows: "outbox_ok sampleRows"
  by code_simp

theorem batch_marks_only_acknowledged_witness:
  "\<exists>ids. snd (snd (processBatch ''orders'' 10 (reliable (\<lambda>_. [])) sampleRows)) =
     map (\<lambda>row. if ob_id row \<in> ids then row\<lparr>ob_published := True\<rparr> else row) sampleRows"
proof -
  obtain result requests rows' where
    run: "processBatch ''orders'' 10 (reliable (\<lambda>_. [])) sampleRows = (result, requests, rows')"
    using prod_cases3 by blast
  from batch_marks_only_acknowledged [OF outbox_ok_sampleRows run] run show ?thesis by auto
qed

text \<open>C24. Progress: when nothing fails and the broker acknowledges, \<open>n\<close> turns of the loop with a batch size \<open>b\<close>
  publish the oldest \<open>n * b\<close> unpublished rows, each exactly once and in the order of their creation; so
  the outbox is empty after enough turns.\<close>

theorem outbox_drains:
  assumes "outbox_ok rows" "0 < batchSize"
    and "outbox_run topic_name batchSize (replicate n (reliable uuids)) rows = (trace, rows')"
    and "length (unpublished rows) \<le> n * nat batchSize"
  shows "unpublished rows' = [] \<and>
    concat (map fst trace) = map (\<lambda>row. outboxRequest topic_name (entry_of row)) (unpublished rows)"
  using outbox_run_reliable [OF assms(1-3)] assms(4) by (simp add: comp_def)

theorem outbox_drains_witness:
  "unpublished (snd (outbox_run ''orders'' 10 [reliable (\<lambda>_. [])] sampleRows)) = []"
proof -
  obtain trace rows' where
    run: "outbox_run ''orders'' 10 (replicate 1 (reliable (\<lambda>_. []))) sampleRows = (trace, rows')"
    by (rule prod.exhaust)
  have "length (unpublished sampleRows) \<le> 1 * nat 10" by (simp add: sampleRows_def unpublished_def)
  from outbox_drains [OF outbox_ok_sampleRows _ run this] run show ?thesis by simp
qed

end
