(* ===== verification/Http.thy ===== *)
theory Http
  imports Prelude "HOL-Library.Word" "HOL-Library.Sublist"
begin

text \<open>
  \<open>shared/models/HttpMessage.h\<close>, \<open>shared/http\<close>: messages, their conversion from and to the messages of
  Boost.Beast, routes, and the server's treatment of a request and of a session. Sockets and the event
  loop are not modelled: what a session reads, and whether its writes succeed, is a list of inputs.
\<close>

section \<open>Messages\<close>

datatype Method = Get | Post | Unknown

text \<open>\<open>enum class Status : std::uint16_t\<close> holds any 16-bit value; these have names.\<close>

type_synonym Status = "16 word"

definition Ok :: Status where "Ok = 200"
definition Status_Created :: Status where "Status_Created = 201"
definition BadRequest :: Status where "BadRequest = 400"
definition Status_NotFound :: Status where "Status_NotFound = 404"
definition MethodNotAllowed :: Status where "MethodNotAllowed = 405"
definition IAmATeaPot :: Status where "IAmATeaPot = 418"
definition InternalServerError :: Status where "InternalServerError = 500"
definition BadGateway :: Status where "BadGateway = 502"

lemmas status_defs = Ok_def Status_Created_def BadRequest_def Status_NotFound_def MethodNotAllowed_def IAmATeaPot_def
  InternalServerError_def BadGateway_def

record Request =
  rq_method :: Method
  rq_path :: string
  rq_body :: string

record Response =
  rs_status :: Status
  rs_body :: string

section \<open>Conversion\<close>

text \<open>The verbs of Beast that the sources name, and the others.\<close>

datatype verb = verb_get | verb_post | verb_unknown | verb_other nat

text \<open>What the sources read and write of a Beast message; \<open>prepared\<close> tells whether \<open>prepare_payload\<close> set the
  framing fields for the body.\<close>

record beast_request =
  bq_method :: verb
  bq_target :: string
  bq_body :: string
  bq_version :: nat
  bq_keep_alive :: bool
  bq_fields :: "string \<rightharpoonup> string"
  bq_prepared :: bool

record beast_response =
  bs_result :: nat
  bs_body :: string
  bs_version :: nat
  bs_keep_alive :: bool
  bs_prepared :: bool

text \<open>Default-constructed messages are of HTTP/1.1, which keeps connections alive.\<close>

definition beast_request_init :: beast_request where
  "beast_request_init =
     \<lparr>bq_method = verb_unknown, bq_target = [], bq_body = [], bq_version = 11, bq_keep_alive = True,
      bq_fields = (\<lambda>_. None), bq_prepared = False\<rparr>"

definition beast_response_init :: beast_response where
  "beast_response_init = \<lparr>bs_result = 200, bs_body = [], bs_version = 11, bs_keep_alive = True, bs_prepared = False\<rparr>"

fun toVerb :: "Method \<Rightarrow> verb" where
  "toVerb Get = verb_get"
| "toVerb Post = verb_post"
| "toVerb _ = verb_unknown"

fun toHttpMethod :: "verb \<Rightarrow> Method" where
  "toHttpMethod verb_get = Get"
| "toHttpMethod verb_post = Post"
| "toHttpMethod _ = Unknown"

definition toHttpRequest :: "beast_request \<Rightarrow> Request" where
  "toHttpRequest request =
     \<lparr>rq_method = toHttpMethod (bq_method request), rq_path = bq_target request, rq_body = bq_body request\<rparr>"

definition toBeastResponse :: "Response \<Rightarrow> beast_response" where
  "toBeastResponse response =
     beast_response_init\<lparr>bs_result := unat (rs_status response), bs_body := rs_body response, bs_keep_alive := False,
       bs_prepared := True\<rparr>"

definition toBeastRequest :: "Request \<Rightarrow> beast_request" where
  "toBeastRequest request =
     beast_request_init\<lparr>bq_method := toVerb (rq_method request), bq_target := rq_path request, bq_body := rq_body request,
       bq_fields := (bq_fields beast_request_init)(''Content-Type'' \<mapsto> ''application/json''), bq_prepared := True\<rparr>"

text \<open>\<open>result_int\<close> is an \<open>unsigned\<close>; the cast to the 16-bit enumeration wraps.\<close>

definition toHttpResponse :: "beast_response \<Rightarrow> Response" where
  "toHttpResponse response = \<lparr>rs_status = of_nat (bs_result response), rs_body = bs_body response\<rparr>"

section \<open>Server\<close>

record 'h Route =
  rt_method :: Method
  rt_pathPrefix :: string
  rt_handler :: 'h

fun findHandler :: "'h Route list \<Rightarrow> Method \<Rightarrow> string \<Rightarrow> 'h option" where
  "findHandler [] method path = None"
| "findHandler (route # routes) method path =
     (if rt_method route = method \<and> prefix (rt_pathPrefix route) path then Some (rt_handler route)
      else findHandler routes method path)"

text \<open>A handler answers or throws (\<open>Inl ()\<close>), and changes the state of the service.\<close>

type_synonym ('h, 's) handlers = "'h \<Rightarrow> Request \<Rightarrow> 's \<Rightarrow> (unit + Response) \<times> 's"

definition handleRequest :: "'h Route list \<Rightarrow> ('h, 's) handlers \<Rightarrow> beast_request \<Rightarrow> 's \<Rightarrow> beast_response \<times> 's" where
  "handleRequest routes handle beastRequest s =
     (let request = toHttpRequest beastRequest in
      case findHandler routes (rq_method request) (rq_path request) of
        None \<Rightarrow> (toBeastResponse \<lparr>rs_status = Status_NotFound, rs_body = []\<rparr>, s)
      | Some handler \<Rightarrow>
          (case handle handler request s of
             (Inl _, s') \<Rightarrow> (toBeastResponse \<lparr>rs_status = InternalServerError, rs_body = ''internal server error''\<rparr>, s')
           | (Inr response, s') \<Rightarrow> (toBeastResponse response, s')))"

text \<open>A turn of the session's loop reads a request or fails, at the end of the stream, by a network error or
  by the timeout; after the request is handled, the write succeeds or fails.\<close>

datatype session_input = ReadFailed | ReadRequest beast_request bool

text \<open>The responses that were written, oldest first.\<close>

fun handleSession ::
  "'h Route list \<Rightarrow> ('h, 's) handlers \<Rightarrow> session_input list \<Rightarrow> 's \<Rightarrow> beast_response list \<times> 's" where
  "handleSession routes handle [] s = ([], s)"
| "handleSession routes handle (ReadFailed # inputs) s = ([], s)"
| "handleSession routes handle (ReadRequest request writes # inputs) s =
     (case handleRequest routes handle request s of (response, s1) \<Rightarrow>
        let response = response\<lparr>bs_version := bq_version request, bs_keep_alive := bq_keep_alive request\<rparr> in
        if \<not> writes then ([], s1)
        else if \<not> bs_keep_alive response then ([response], s1)
        else (case handleSession routes handle inputs s1 of (responses, s2) \<Rightarrow> (response # responses, s2)))"

section \<open>Life of the server\<close>

text \<open>
  The acceptor, the event loop and the accepts and sessions handed to it. The event loop runs completions
  until it is stopped, on \<open>hs_threadCount\<close> threads, of which the caller of \<open>run\<close> is one.
\<close>

record HttpServer =
  hs_threadCount :: nat
  hs_accepting :: bool
  hs_stopped :: bool
  hs_accept :: bool
  hs_sessions :: nat

definition HttpServer_create :: "nat \<Rightarrow> HttpServer" where
  "HttpServer_create threadCount =
     \<lparr>hs_threadCount = (if threadCount = 0 then 1 else threadCount), hs_accepting = True, hs_stopped = False,
      hs_accept = False, hs_sessions = 0\<rparr>"

definition doAccept :: "HttpServer \<Rightarrow> HttpServer" where
  "doAccept server = server\<lparr>hs_accept := True\<rparr>"

text \<open>The completion of an accept, with or without an error.\<close>

definition accepted :: "bool \<Rightarrow> HttpServer \<Rightarrow> HttpServer" where
  "accepted ok server =
     (let server1 = server\<lparr>hs_accept := False\<rparr>;
          server2 = (if ok then server1\<lparr>hs_sessions := hs_sessions server1 + 1\<rparr> else server1) in
      if hs_accepting server2 then doAccept server2 else server2)"

definition server_run :: "HttpServer \<Rightarrow> HttpServer" where
  "server_run server = doAccept server"

definition server_stop :: "HttpServer \<Rightarrow> HttpServer" where
  "server_stop server = server\<lparr>hs_accepting := False, hs_stopped := True\<rparr>"

definition signalled :: "bool \<Rightarrow> HttpServer \<Rightarrow> HttpServer" where
  "signalled ok server = (if \<not> ok then server else server_stop server)"

text \<open>Completions that the event loop runs, unless it is stopped.\<close>

inductive server_step :: "HttpServer \<Rightarrow> HttpServer \<Rightarrow> bool" where
  accept: "\<not> hs_stopped server \<Longrightarrow> hs_accept server \<Longrightarrow> server_step server (accepted ok server)"
| signal: "\<not> hs_stopped server \<Longrightarrow> server_step server (signalled ok server)"

section \<open>Lemmas\<close>

inductive_cases server_stepE: "server_step server server'"

lemma accepted_fields [simp]:
  "hs_threadCount (accepted ok server) = hs_threadCount server"
  "hs_accepting (accepted ok server) = hs_accepting server"
  "hs_stopped (accepted ok server) = hs_stopped server"
  "hs_accept (accepted ok server) = hs_accepting server"
  "hs_sessions (accepted ok server) = hs_sessions server + of_bool ok"
  by (simp_all add: accepted_def doAccept_def Let_def)

lemma signalled_fields [simp]:
  "hs_threadCount (signalled ok server) = hs_threadCount server"
  "hs_accepting (signalled ok server) = (hs_accepting server \<and> \<not> ok)"
  "hs_stopped (signalled ok server) = (hs_stopped server \<or> ok)"
  "hs_accept (signalled ok server) = hs_accept server"
  by (simp_all add: signalled_def server_stop_def)

text \<open>As long as the server is not stopped it waits for the next client, whatever accepts failed; once stopped it
  stays as it is.\<close>

lemma server_accepts:
  assumes "server_step\<^sup>*\<^sup>* (server_run (HttpServer_create n)) server"
  shows "0 < hs_threadCount server \<and> (if hs_stopped server then \<not> hs_accepting server else hs_accepting server \<and> hs_accept server)"
  using assms
proof (induction rule: rtranclp_induct)
  case base
  then show ?case by (simp add: server_run_def HttpServer_create_def doAccept_def)
next
  case (step server server')
  from step.hyps(2) show ?case
    by (cases rule: server_stepE) (use step.IH in auto)
qed

lemma stopped_server_final: "hs_stopped server \<Longrightarrow> \<not> server_step server server'"
  by (auto elim: server_stepE)

lemma toHttpMethod_toVerb [simp]: "toHttpMethod (toVerb m) = m"
  by (cases m) simp_all

text \<open>The first route whose method is the request's and whose prefix begins the path.\<close>

lemma findHandler_find:
  "findHandler routes method path =
     map_option rt_handler (List.find (\<lambda>route. rt_method route = method \<and> prefix (rt_pathPrefix route) path) routes)"
  by (induction routes) auto

lemma findHandler_None:
  "findHandler routes method path = None \<longleftrightarrow>
     (\<forall>r \<in> set routes. \<not> (rt_method r = method \<and> prefix (rt_pathPrefix r) path))"
  by (induction routes) auto

lemma handleRequest_prepared: "bs_prepared (fst (handleRequest routes handle request s))"
  by (auto simp: handleRequest_def toBeastResponse_def Let_def split: option.splits prod.splits sum.splits)

text \<open>What requests are answered with one after the other, and the state after them.\<close>

fun answers :: "'h Route list \<Rightarrow> ('h, 's) handlers \<Rightarrow> beast_request list \<Rightarrow> 's \<Rightarrow> beast_response list \<times> 's" where
  "answers routes handle [] s = ([], s)"
| "answers routes handle (request # requests) s =
     (case handleRequest routes handle request s of (response, s1) \<Rightarrow>
      case answers routes handle requests s1 of (responses, s2) \<Rightarrow>
        (response\<lparr>bs_version := bq_version request, bs_keep_alive := bq_keep_alive request\<rparr> # responses, s2))"

text \<open>How the session goes on after the requests it answered: the last one did not ask to keep the connection, nothing more is
  read, or a request is handled whose answer cannot be written.\<close>

definition session_ends :: "'h Route list \<Rightarrow> ('h, 's) handlers \<Rightarrow> beast_request list \<Rightarrow> session_input list \<Rightarrow> 's \<Rightarrow> 's \<Rightarrow> bool" where
  "session_ends routes handle requests rest s s' \<longleftrightarrow>
     (if requests \<noteq> [] \<and> \<not> bq_keep_alive (last requests) then s' = s
      else case rest of
             ReadRequest request writes # _ \<Rightarrow> \<not> writes \<and> s' = snd (handleRequest routes handle request s)
           | _ \<Rightarrow> s' = s)"

lemma handleSession_answers:
  assumes "handleSession routes handle inputs s = (responses, s')"
  shows "\<exists>requests rest s1. inputs = map (\<lambda>request. ReadRequest request True) requests @ rest \<and>
    answers routes handle requests s = (responses, s1) \<and> list_all bq_keep_alive (butlast requests) \<and>
    session_ends routes handle requests rest s1 s'"
  using assms
proof (induction routes handle inputs s arbitrary: responses rule: handleSession.induct)
  case (1 routes handle s)
  then show ?case by - (rule exI [of _ "[]"], simp add: session_ends_def)
next
  case (2 routes handle inputs s)
  then show ?case by - (rule exI [of _ "[]"], simp add: session_ends_def)
next
  case (3 routes handle request writes inputs s)
  obtain response s1 where step: "handleRequest routes handle request s = (response, s1)" by (rule prod.exhaust)
  let ?first = "response\<lparr>bs_version := bq_version request, bs_keep_alive := bq_keep_alive request\<rparr>"
  consider "\<not> writes" | "writes" "\<not> bq_keep_alive request" | "writes" "bq_keep_alive request" by blast
  then show ?case
  proof cases
    case 1
    with "3.prems" step show ?thesis by - (rule exI [of _ "[]"], simp add: session_ends_def)
  next
    case 2
    with "3.prems" step show ?thesis by - (rule exI [of _ "[request]"], simp add: session_ends_def)
  next
    case 3
    obtain more where more: "handleSession routes handle inputs s1 = (more, s')" "responses = ?first # more"
      using "3.prems" step 3 by (auto simp: Let_def split: prod.splits)
    obtain requests rest s2 where IH: "inputs = map (\<lambda>request. ReadRequest request True) requests @ rest"
      "answers routes handle requests s1 = (more, s2)" "list_all bq_keep_alive (butlast requests)"
      "session_ends routes handle requests rest s2 s'"
      using "3.IH" [OF step [symmetric] refl _ _ more(1)] 3 by auto
    with 3 step more(2) show ?thesis
      by - (rule exI [of _ "request # requests"], auto simp: session_ends_def split: if_splits)
  qed
qed

section \<open>Properties\<close>

text \<open>C27. A session answers the requests it reads in their order, each as the handlers answer it in the state that the earlier
  ones left, in the version of the request and with its wish about the connection. It goes on only after a request that
  asked to keep the connection, and ends when one did not, when nothing can be read, or when an answer cannot be
  written, in which case that last request was still handled.\<close>

theorem session_answers:
  assumes "handleSession routes handle inputs s = (responses, s')"
  shows "\<exists>requests rest s1. inputs = map (\<lambda>request. ReadRequest request True) requests @ rest \<and>
    answers routes handle requests s = (responses, s1) \<and> list_all bq_keep_alive (butlast requests) \<and>
    session_ends routes handle requests rest s1 s'"
  using assms by (rule handleSession_answers)

theorem session_answers_witness:
  "\<exists>requests. answers ([] :: unit Route list) (\<lambda>_ _ s. (Inl (), s)) requests () =
     handleSession ([] :: unit Route list) (\<lambda>_ _ s. (Inl (), s)) [ReadRequest (beast_request_init\<lparr>bq_keep_alive := False\<rparr>) True, ReadFailed] ()"
proof -
  obtain responses s' where eq: "handleSession ([] :: unit Route list) (\<lambda>_ _ s. (Inl (), s))
      [ReadRequest (beast_request_init\<lparr>bq_keep_alive := False\<rparr>) True, ReadFailed] () = (responses, s')"
    by (rule prod.exhaust)
  from session_answers [OF eq] obtain requests where
    "answers ([] :: unit Route list) (\<lambda>_ _ s. (Inl (), s)) requests () = (responses, ())" by auto
  then show ?thesis unfolding eq by auto
qed

end
