(* ===== verification/OrderApi.thy ===== *)
theory OrderApi
  imports OrderRepository Http
begin

text \<open>
  The HTTP interface of the order service: \<open>order-service/handlers\<close> and the routes of
  \<open>order-service/main.cpp\<close>.
\<close>

definition ORDERS :: string where "ORDERS = ''/orders''"
definition ORDERS_PREFIX :: string where "ORDERS_PREFIX = ''/orders/''"
definition HEALTH :: string where "HEALTH = ''/health''"

section \<open>Handlers\<close>

text \<open>\<open>bodyJson\<close> is still null when \<open>parse\<close> throws.\<close>

definition CreateOrderHandler_handle ::
  "'j json_lib \<Rightarrow> (string \<Rightarrow> string) \<Rightarrow> tx_env \<Rightarrow> Request \<Rightarrow> order_db \<Rightarrow> (unit + Response) \<times> order_db" where
  "CreateOrderHandler_handle J jsonb env request db =
     (case jl_parse J (rq_body request) of
        Inl ParseError \<Rightarrow> (Inr \<lparr>rs_status = BadRequest, rs_body = jl_dump J (jl_null J)\<rparr>, db)
      | Inl _ \<Rightarrow> (Inl (), db)
      | Inr bodyJson \<Rightarrow>
          (case Order_fromJson J bodyJson of
             Inl e \<Rightarrow> (Inr \<lparr>rs_status = BadRequest, rs_body = message e\<rparr>, db)
           | Inr order \<Rightarrow>
               (case save J jsonb order env db of
                  (Inl e, db') \<Rightarrow> (Inr \<lparr>rs_status = InternalServerError, rs_body = message e\<rparr>, db')
                | (Inr orderId, db') \<Rightarrow>
                    (let responseJson = jl_set J ORDER_ID (jl_of_string J (orderId_value orderId)) (jl_null J) in
                     (Inr \<lparr>rs_status = Status_Created, rs_body = jl_dump J responseJson\<rparr>, db')))))"

text \<open>\<open>substr\<close> throws when the path is shorter than the prefix.\<close>

definition GetOrderHandler_handle ::
  "'j json_lib \<Rightarrow> (item_row list \<Rightarrow> item_row list) \<Rightarrow> tx_env \<Rightarrow> Request \<Rightarrow> order_db \<Rightarrow> (unit + Response) \<times> order_db" where
  "GetOrderHandler_handle J scan env request db =
     (if length (rq_path request) < length ORDERS_PREFIX then (Inl (), db)
      else
        (case OrderId_create (drop (length ORDERS_PREFIX) (rq_path request)) of
           Inl e \<Rightarrow> (Inr \<lparr>rs_status = BadRequest, rs_body = message e\<rparr>, db)
         | Inr orderId \<Rightarrow>
             (case findById scan orderId env db of
                (Inl e, db') \<Rightarrow>
                  (Inr (if e = make_RepositoryError RepositoryError.NotFound
                        then \<lparr>rs_status = Status_NotFound, rs_body = message e\<rparr>
                        else \<lparr>rs_status = InternalServerError, rs_body = message e\<rparr>), db')
              | (Inr order, db') \<Rightarrow> (Inr \<lparr>rs_status = Ok, rs_body = jl_dump J (Order_toJson J order)\<rparr>, db'))))"

definition HealthHandler_handle :: "Request \<Rightarrow> Response" where
  "HealthHandler_handle request = \<lparr>rs_status = Ok, rs_body = ''OK''\<rparr>"

section \<open>Routes\<close>

datatype order_endpoint = CreateOrderHandler | GetOrderHandler | HealthHandler

definition buildRoutes :: "order_endpoint Route list" where
  "buildRoutes =
     [\<lparr>rt_method = Post, rt_pathPrefix = ORDERS, rt_handler = CreateOrderHandler\<rparr>,
      \<lparr>rt_method = Get, rt_pathPrefix = ORDERS_PREFIX, rt_handler = GetOrderHandler\<rparr>,
      \<lparr>rt_method = Get, rt_pathPrefix = HEALTH, rt_handler = HealthHandler\<rparr>]"

fun order_handlers ::
  "'j json_lib \<Rightarrow> (string \<Rightarrow> string) \<Rightarrow> (item_row list \<Rightarrow> item_row list) \<Rightarrow> tx_env \<Rightarrow> (order_endpoint, order_db) handlers" where
  "order_handlers J jsonb scan env CreateOrderHandler request db = CreateOrderHandler_handle J jsonb env request db"
| "order_handlers J jsonb scan env GetOrderHandler request db = GetOrderHandler_handle J scan env request db"
| "order_handlers J jsonb scan env HealthHandler request db = (Inr (HealthHandler_handle request), db)"

definition order_service ::
  "'j json_lib \<Rightarrow> (string \<Rightarrow> string) \<Rightarrow> (item_row list \<Rightarrow> item_row list) \<Rightarrow> tx_env \<Rightarrow> beast_request \<Rightarrow> order_db \<Rightarrow>
   beast_response \<times> order_db" where
  "order_service J jsonb scan env = handleRequest buildRoutes (order_handlers J jsonb scan env)"

section \<open>Lemmas\<close>

lemma order_routes:
  "findHandler buildRoutes m path =
     (case m of
        Post \<Rightarrow> if prefix ''/orders'' path then Some CreateOrderHandler else None
      | Get \<Rightarrow> if prefix ''/orders/'' path then Some GetOrderHandler
               else if prefix ''/health'' path then Some HealthHandler else None
      | Unknown \<Rightarrow> None)"
  by (cases m) (simp_all add: buildRoutes_def ORDERS_def ORDERS_PREFIX_def HEALTH_def)

text \<open>The path that reaches the handler is long enough for \<open>substr\<close>.\<close>

lemma routed_get_answers:
  assumes "findHandler buildRoutes (rq_method request) (rq_path request) = Some GetOrderHandler"
  shows "\<exists>response. GetOrderHandler_handle J scan env request db = (Inr response, db)"
proof -
  have "prefix ''/orders/'' (rq_path request)"
    using assms by (auto simp: order_routes split: Method.splits if_splits)
  then have "\<not> length (rq_path request) < length ORDERS_PREFIX"
    by (auto simp: ORDERS_PREFIX_def dest: prefix_length_le)
  moreover have "findById scan i env db = (res, db') \<Longrightarrow> db' = db" for i res db'
    using findById_cases by blast
  ultimately show ?thesis
    by (auto simp: GetOrderHandler_handle_def split: sum.splits prod.splits)
qed

lemma create_cases:
  assumes "CreateOrderHandler_handle J jsonb env request db = (Inr response, db')"
  obtains (rejected) "rs_status response = BadRequest" "db' = db"
  | (failed) order e where "rs_status response = InternalServerError" "rs_body response = message e"
      "save J jsonb order env db = (Inl e, db')"
  | (created) json order orderId where "jl_parse J (rq_body request) = Inr json" "Order_fromJson J json = Inr order"
      "save J jsonb order env db = (Inr orderId, db')"
      "response = \<lparr>rs_status = Status_Created,
         rs_body = jl_dump J (jl_set J ORDER_ID (jl_of_string J (orderId_value orderId)) (jl_null J))\<rparr>"
  using assms
  by (auto simp: CreateOrderHandler_handle_def Let_def split: sum.splits json_exception.splits prod.splits)

lemma message_Timeout: "message (make_RepositoryError RepositoryError.Timeout) = ''timeout''"
  by code_simp

lemma canonicalItem_wf: "wf_OrderItem item \<Longrightarrow> wf_OrderItem (canonicalItem item)"
  by (auto simp: wf_OrderItem_def canonicalItem_def isValidUuid_pg)

lemma itemCode_canonical [simp]: "itemCode (canonicalItem item) = itemCode item"
  by (simp add: itemCode_def canonicalItem_def)

context json_laws
begin

lemma create_succeeds:
  assumes "wf_Order order" "\<forall>item \<in> set (o_items order). utf8 (itemCode item)"
    and "isValidUuid (uuids 0)" "pg_uuid (uuids 0) \<notin> ord_order_id ` set (db_orders db)"
    and "pg_uuid (uuids 1) \<notin> ob_id ` set (db_outbox db)"
  defines "order' \<equiv> order\<lparr>o_orderId := None, o_status := Created\<rparr>"
  shows "order_service J jsonb scan (no_faults uuids)
      (toBeastRequest \<lparr>rq_method = Post, rq_path = ''/orders'', rq_body = jl_dump J (Order_toJson J order)\<rparr>) db =
    (toBeastResponse \<lparr>rs_status = Status_Created,
       rs_body = jl_dump J (jl_set J ORDER_ID (jl_of_string J (pg_uuid (uuids 0))) (jl_null J))\<rparr>,
     saved J jsonb order' (pg_uuid (uuids 0)) (pg_uuid (uuids 1)) db)"
proof -
  have "wf_Order order'" using assms(1) by (simp add: wf_Order_def order'_def)
  note save = save_succeeds [OF this assms(3-5), of J jsonb]
  show ?thesis
    using save parse_dump [OF Order_ok [OF assms(1,2)]] Order_roundtrip [OF assms(1)]
    by (simp add: order_service_def handleRequest_def toHttpRequest_def toBeastRequest_def order_routes
        CreateOrderHandler_handle_def order'_def)
qed

lemma get_succeeds:
  assumes "found scan i db = Inr order" "isValidUuid (orderId_value i)"
  shows "order_service J jsonb scan (no_faults uuids)
      (toBeastRequest \<lparr>rq_method = Get, rq_path = ''/orders/'' @ orderId_value i, rq_body = body\<rparr>) db =
    (toBeastResponse \<lparr>rs_status = Ok, rs_body = jl_dump J (Order_toJson J order)\<rparr>, db)"
  using assms
  by (cases i) (simp add: order_service_def handleRequest_def toHttpRequest_def toBeastRequest_def order_routes
      GetOrderHandler_handle_def ORDERS_PREFIX_def findById_no_faults id_create_defs StrongID_create_valid)

end

section \<open>Properties\<close>

text \<open>C17. A client that posts an order and then asks for it under the id it was given gets the order it
  posted: its user, and its items in some order, ids in lower case.\<close>

theorem create_get_roundtrip:
  assumes laws: "json_laws J ok obj utf8" and wf: "wf_Order order" "\<forall>item \<in> set (o_items order). utf8 (itemCode item)"
    and db: "order_db_ok db" and ids: "isValidUuid (uuids 0)" "pg_uuid (uuids 0) \<notin> ord_order_id ` set (db_orders db)"
      "pg_uuid (uuids 1) \<notin> ob_id ` set (db_outbox db)"
    and scan: "\<forall>rows. mset (scan rows) = mset rows"
    and post: "order_service J jsonb scan (no_faults uuids)
      (toBeastRequest \<lparr>rq_method = Post, rq_path = ''/orders'', rq_body = jl_dump J (Order_toJson J order)\<rparr>) db = (created, db')"
  shows "bs_result created = 201 \<and>
    (\<exists>json i. jl_parse J (bs_body created) = Inr json \<and> getValue J (jl_get_string J) json ''orderId'' = Inr i \<and>
      (\<exists>got json order'. order_service J jsonb scan (no_faults uuids')
          (toBeastRequest \<lparr>rq_method = Get, rq_path = ''/orders/'' @ i, rq_body = []\<rparr>) db' = (got, db') \<and>
        bs_result got = 200 \<and> jl_parse J (bs_body got) = Inr json \<and> Order_fromJson J json = Inr order' \<and>
        o_userId order' = UserId (pg_uuid (userId_value (o_userId order))) \<and>
        mset (o_items order') = mset (map canonicalItem (o_items order))))"
proof -
  let ?i = "pg_uuid (uuids 0)"
  let ?order = "order\<lparr>o_orderId := None, o_status := Created\<rparr>"
  note created = json_laws.create_succeeds [OF laws wf ids, of jsonb scan, unfolded post]
  have wf': "wf_Order ?order" using wf(1) by (simp add: wf_Order_def)
  have "save J jsonb ?order (no_faults uuids) db = (Inr (OrderId ?i), db')"
    using save_succeeds [OF wf' ids, of J jsonb] created by simp
  then obtain items where found: "found scan (OrderId ?i) db' =
      Inr \<lparr>o_userId = UserId (pg_uuid (userId_value (o_userId order))), o_orderId = Some (OrderId ?i),
           o_items = items, o_status = Created\<rparr>"
    and items: "mset items = mset (map canonicalItem (o_items order))"
    using save_found [OF db wf' _ scan] by fastforce
  let ?found = "\<lparr>o_userId = UserId (pg_uuid (userId_value (o_userId order))), o_orderId = Some (OrderId ?i),
           o_items = items, o_status = Created\<rparr>"
  have set: "set items = canonicalItem ` set (o_items order)"
    using items by (metis list.set_map set_mset_mset)
  have "wf_Order ?found" "\<forall>item \<in> set (o_items ?found). utf8 (itemCode item)"
    using wf ids(1) set by (auto simp: wf_Order_def list_all_iff isValidUuid_pg canonicalItem_wf)
  then have parsed: "jl_parse J (jl_dump J (Order_toJson J ?found)) = Inr (Order_toJson J ?found)"
    "Order_fromJson J (Order_toJson J ?found) = Inr (?found\<lparr>o_orderId := None, o_status := Created\<rparr>)"
    using json_laws.parse_dump [OF laws json_laws.Order_ok [OF laws]] json_laws.Order_roundtrip [OF laws] by blast+
  have got: "order_service J jsonb scan (no_faults uuids')
      (toBeastRequest \<lparr>rq_method = Get, rq_path = ''/orders/'' @ ?i, rq_body = []\<rparr>) db' =
      (toBeastResponse \<lparr>rs_status = Ok, rs_body = jl_dump J (Order_toJson J ?found)\<rparr>, db')"
    using json_laws.get_succeeds [OF laws found, of jsonb uuids' "[]"] ids(1) by (simp add: isValidUuid_pg)
  let ?json = "jl_set J ORDER_ID (jl_of_string J ?i) (jl_null J)"
  have "ok ?json" "getValue J (jl_get_string J) ?json ''orderId'' = Inr ?i"
    using laws ids(1) by (simp_all add: json_laws.objects json_laws.reads json_laws.ascii_utf8 isValidUuid_ascii isValidUuid_pg)
  then show ?thesis
    using created got parsed items json_laws.parse_dump [OF laws]
    by (auto simp: toBeastResponse_def status_defs)
qed

theorem create_get_roundtrip_witness:
  "bs_result (fst (order_service value_lib id id sampleEnv
     (toBeastRequest \<lparr>rq_method = Post, rq_path = ''/orders'', rq_body = jl_dump value_lib (Order_toJson value_lib sampleOrder)\<rparr>)
     order_db_init)) = 201"
proof -
  obtain created db' where post: "order_service value_lib id id sampleEnv
     (toBeastRequest \<lparr>rq_method = Post, rq_path = ''/orders'', rq_body = jl_dump value_lib (Order_toJson value_lib sampleOrder)\<rparr>)
     order_db_init = (created, db')" by (rule prod.exhaust)
  have "order_db_ok order_db_init" by (simp add: order_db_ok_def order_db_init_def outbox_ok_def)
  from create_get_roundtrip [OF vj.json_laws_axioms wf_sampleOrder _ this _ _ _ _ post [unfolded sampleEnv_def]] post
  show ?thesis by (simp add: order_db_init_def)
qed

text \<open>C26. What the answer to a posted order says about the database: 201 with the id exactly when the order,
  read from the body, is stored under that id with its event; with 400 nothing changed, and with 500
  nothing changed either unless the body says \<open>timeout\<close>, when the order may have been stored.\<close>

theorem create_answers:
  assumes "CreateOrderHandler_handle J jsonb env request db = (Inr response, db')"
  defines "stored \<equiv> \<lambda>order. saved J jsonb order (pg_uuid (tx_uuid env 0)) (pg_uuid (tx_uuid env 1)) db"
  shows "if rs_status response = Status_Created then
      rs_body response = jl_dump J (jl_set J ORDER_ID (jl_of_string J (pg_uuid (tx_uuid env 0))) (jl_null J)) \<and>
      (\<exists>json order. jl_parse J (rq_body request) = Inr json \<and> Order_fromJson J json = Inr order \<and> db' = stored order)
    else if rs_status response = BadRequest then db' = db
    else rs_status response = InternalServerError \<and>
      (db' = db \<or> rs_body response = ''timeout'' \<and> (\<exists>order. db' = stored order))"
  using assms(1)
proof (cases rule: create_cases)
  case rejected
  then show ?thesis by (simp add: status_defs)
next
  case (failed order e)
  with save_result [of J jsonb order env db] have "db' = db \<or> message e = ''timeout'' \<and> db' = stored order"
    by (auto simp: Let_def stored_def message_Timeout)
  with failed show ?thesis by (auto simp: status_defs)
next
  case (created json order orderId)
  with save_result [of J jsonb order env db] have "orderId = OrderId (pg_uuid (tx_uuid env 0))" "db' = stored order"
    by (simp_all add: Let_def stored_def)
  with created show ?thesis by auto
qed

theorem create_answers_witness:
  "\<exists>response. CreateOrderHandler_handle value_lib id sampleEnv \<lparr>rq_method = Post, rq_path = ''/orders'', rq_body = ''{''\<rparr>
      order_db_init = (Inr response, order_db_init) \<and> rs_status response \<noteq> Status_Created"
proof -
  have "jl_parse value_lib ''{'' = Inl ParseError" by code_simp
  then obtain response where run: "CreateOrderHandler_handle value_lib id sampleEnv
      \<lparr>rq_method = Post, rq_path = ''/orders'', rq_body = ''{''\<rparr> order_db_init = (Inr response, order_db_init)"
    by (simp add: CreateOrderHandler_handle_def)
  from create_answers [OF run] run \<open>jl_parse value_lib ''{'' = Inl ParseError\<close> show ?thesis by (auto split: if_splits)
qed

end
