(* ===== verification/Configuration.thy ===== *)
theory Configuration
  imports Json Decimal "HOL-Library.Sublist"
begin

text \<open>
  \<open>shared/models\<close>: hosts, addresses, the configuration of the network, of the upstream service and of the
  database, the environment; and \<open>shared/models2json-mapper\<close>. \<open>boost::asio::ip::make_address\<close> is not
  part of the sources: \<open>is_address\<close> says which texts it accepts.
\<close>

section \<open>Hosts and addresses\<close>

text \<open>\<open>std::isalnum\<close> in the C locale.\<close>

definition isalnum :: "char \<Rightarrow> bool" where
  "isalnum c \<longleftrightarrow> CHR ''0'' \<le> c \<and> c \<le> CHR ''9'' \<or> CHR ''A'' \<le> c \<and> c \<le> CHR ''Z'' \<or> CHR ''a'' \<le> c \<and> c \<le> CHR ''z''"

definition isValidHostnameLabel :: "string \<Rightarrow> bool" where
  "isValidHostnameLabel label \<longleftrightarrow>
     label \<noteq> [] \<and> length label \<le> 63 \<and> hd label \<noteq> CHR ''-'' \<and> last label \<noteq> CHR ''-'' \<and>
     list_all (\<lambda>c. isalnum c \<or> c = CHR ''-'') label"

text \<open>\<open>std::views::split\<close> of a text that is not empty: the parts between the separators, empty ones too.\<close>

fun split_on :: "char \<Rightarrow> string \<Rightarrow> string list" where
  "split_on sep [] = [[]]"
| "split_on sep (c # s) =
     (if c = sep then [] # split_on sep s
      else (case split_on sep s of [] \<Rightarrow> [[c]] | p # ps \<Rightarrow> (c # p) # ps))"

definition isValidHostname :: "string \<Rightarrow> bool" where
  "isValidHostname value \<longleftrightarrow>
     value \<noteq> [] \<and> length value \<le> 253 \<and> list_all isValidHostnameLabel (split_on CHR ''.'' value)"

datatype Host = Host (host_value: string)

definition Host_create :: "(string \<Rightarrow> bool) \<Rightarrow> string \<Rightarrow> Host expected" where
  "Host_create is_address value =
     (if value = [] then Inl (make_HostError HostError.EmptyHost)
      else if is_address value then Inr (Host value)
      else if isValidHostname value then Inr (Host value)
      else Inl (make_HostError HostError.InvalidFormat))"

datatype NetworkAddress = NetworkAddress (address_value: string)

definition NetworkAddress_create :: "(string \<Rightarrow> bool) \<Rightarrow> string \<Rightarrow> NetworkAddress expected" where
  "NetworkAddress_create is_address value =
     (if value = [] then Inl (make_NetworkAddressError NetworkAddressError.EmptyAddress)
      else if \<not> is_address value then Inl (make_NetworkAddressError NetworkAddressError.InvalidFormat)
      else Inr (NetworkAddress value))"

record NetworkConfiguration =
  nc_address :: NetworkAddress
  nc_port :: int

record UpstreamConfiguration =
  uc_host :: Host
  uc_port :: int

section \<open>The database\<close>

record DatabaseConfiguration =
  dc_host :: string
  dc_port :: int
  dc_databaseName :: string
  dc_user :: string
  dc_password :: string
  dc_useSsl :: bool

definition DatabaseConfiguration_create ::
  "string \<Rightarrow> int \<Rightarrow> string \<Rightarrow> string \<Rightarrow> string \<Rightarrow> bool \<Rightarrow> DatabaseConfiguration expected" where
  "DatabaseConfiguration_create host port databaseName user password useSsl =
     (if host = [] then Inl (make_DatabaseConfigurationError DatabaseConfigurationError.EmptyHost)
      else if databaseName = [] then Inl (make_DatabaseConfigurationError DatabaseConfigurationError.EmptyDatabaseName)
      else if user = [] then Inl (make_DatabaseConfigurationError DatabaseConfigurationError.EmptyUser)
      else if port = 0 then Inl (make_DatabaseConfigurationError DatabaseConfigurationError.InvalidPort)
      else Inr \<lparr>dc_host = host, dc_port = port, dc_databaseName = databaseName, dc_user = user, dc_password = password,
                dc_useSsl = useSsl\<rparr>)"

text \<open>
  The pattern \<open>^postgres(?:ql)?://([^:]+):([^@]*)@([^:/]+):(\d+)/([^?]+)(?:\?sslmode=(\w+))?$\<close>. Every group
  ends before a character that the group cannot contain, so a match is found by reading each group as
  far as it goes.
\<close>

definition strip :: "string \<Rightarrow> string \<Rightarrow> string option" where
  "strip p s = (if prefix p s then Some (drop (length p) s) else None)"

text \<open>A group of characters that satisfy \<open>P\<close>, followed by the character \<open>stop\<close>: the group and what comes after.\<close>

definition group_until :: "(char \<Rightarrow> bool) \<Rightarrow> char \<Rightarrow> string \<Rightarrow> (string \<times> string) option" where
  "group_until P stop s =
     (case dropWhile P s of
        c # rest \<Rightarrow> if c = stop then Some (takeWhile P s, rest) else None
      | [] \<Rightarrow> None)"

definition isWord :: "char \<Rightarrow> bool" where
  "isWord c \<longleftrightarrow> isalnum c \<or> c = CHR ''_''"

record url_match =
  um_user :: string
  um_password :: string
  um_host :: string
  um_port :: string
  um_databaseName :: string
  um_sslmode :: "string option"

definition match_database :: "string \<Rightarrow> (string \<times> string option) option" where
  "match_database s =
     (let name = takeWhile (\<lambda>c. c \<noteq> CHR ''?'') s in
      if name = [] then None
      else
        (case dropWhile (\<lambda>c. c \<noteq> CHR ''?'') s of
           [] \<Rightarrow> Some (name, None)
         | _ # rest \<Rightarrow>
             (case strip ''sslmode='' rest of
                Some mode \<Rightarrow> if mode \<noteq> [] \<and> list_all isWord mode then Some (name, Some mode) else None
              | None \<Rightarrow> None)))"

definition regex_match :: "string \<Rightarrow> url_match option" where
  "regex_match url =
     Option.bind (strip ''postgres'' url) (\<lambda>s.
     Option.bind (strip ''://'' (case strip ''ql'' s of Some s' \<Rightarrow> s' | None \<Rightarrow> s)) (\<lambda>s.
     Option.bind (group_until (\<lambda>c. c \<noteq> CHR '':'') CHR '':'' s) (\<lambda>(user, s).
     Option.bind (group_until (\<lambda>c. c \<noteq> CHR ''@'') CHR ''@'' s) (\<lambda>(password, s).
     Option.bind (group_until (\<lambda>c. c \<noteq> CHR '':'' \<and> c \<noteq> CHR ''/'') CHR '':'' s) (\<lambda>(host, s).
     Option.bind (group_until isDigit CHR ''/'' s) (\<lambda>(port, s).
     Option.bind (match_database s) (\<lambda>(name, sslmode).
     if user = [] \<or> host = [] \<or> port = [] then None
     else Some \<lparr>um_user = user, um_password = password, um_host = host, um_port = port, um_databaseName = name,
                um_sslmode = sslmode\<rparr>)))))))"

text \<open>\<open>fromUrl\<close>; \<open>None\<close>: \<open>std::stoi\<close> throws \<open>out_of_range\<close>.\<close>

definition fromUrl :: "string \<Rightarrow> DatabaseConfiguration expected option" where
  "fromUrl url =
     (case regex_match url of
        None \<Rightarrow> Some (Inl (make_DatabaseConfigurationError DatabaseConfigurationError.InvalidUrl))
      | Some m \<Rightarrow>
          (let n = int (decimalValue (um_port m)) in
           if INT32_MAX < n then None
           else
             (let port = wrap_u16 n;
                  useSsl = (case um_sslmode m of None \<Rightarrow> False | Some mode \<Rightarrow> mode \<noteq> ''disable'') in
              Some (DatabaseConfiguration_create (um_host m) port (um_databaseName m) (um_user m) (um_password m) useSsl))))"

definition toConnectionString :: "DatabaseConfiguration \<Rightarrow> string" where
  "toConnectionString config =
     ''host='' @ dc_host config @ '' port='' @ to_string (dc_port config) @ '' dbname='' @ dc_databaseName config @
     '' user='' @ dc_user config @ '' password='' @ dc_password config @ '' sslmode='' @
     (if dc_useSsl config then ''require'' else ''disable'')"

section \<open>The environment\<close>

record EnvironmentVariableSpec =
  ev_name :: string
  ev_required :: bool
  ev_defaultValue :: "string option"

text \<open>\<open>getenv\<close> is the process environment.\<close>

fun load_from ::
  "(string \<Rightarrow> string option) \<Rightarrow> EnvironmentVariableSpec list \<Rightarrow> (string \<Rightarrow> string option) \<Rightarrow> (string \<Rightarrow> string option) expected" where
  "load_from getenv [] values = Inr values"
| "load_from getenv (spec # schema) values =
     (case getenv (ev_name spec) of
        Some raw \<Rightarrow> load_from getenv schema (values(ev_name spec \<mapsto> raw))
      | None \<Rightarrow>
          (case ev_defaultValue spec of
             Some v \<Rightarrow> load_from getenv schema (values(ev_name spec \<mapsto> v))
           | None \<Rightarrow>
               if ev_required spec
               then Inl (make_EnvironmentConfigurationError EnvironmentConfigurationError.MissingRequiredVariable)
               else load_from getenv schema values))"

definition load :: "(string \<Rightarrow> string option) \<Rightarrow> EnvironmentVariableSpec list \<Rightarrow> (string \<Rightarrow> string option) expected" where
  "load getenv schema = load_from getenv schema (\<lambda>_. None)"

definition environment_get :: "(string \<Rightarrow> string option) \<Rightarrow> string \<Rightarrow> string option" where
  "environment_get values name = values name"

text \<open>\<open>at\<close> throws when the key is missing.\<close>

definition environment_require :: "(string \<Rightarrow> string option) \<Rightarrow> string \<Rightarrow> unit + string" where
  "environment_require values name = (case values name of None \<Rightarrow> Inl () | Some v \<Rightarrow> Inr v)"

section \<open>JSON mappers\<close>

definition DATABASE_HOST :: string where "DATABASE_HOST = ''host''"
definition DATABASE_PORT :: string where "DATABASE_PORT = ''port''"
definition DATABASE_NAME :: string where "DATABASE_NAME = ''databaseName''"
definition DATABASE_USER :: string where "DATABASE_USER = ''user''"
definition DATABASE_USE_SSL :: string where "DATABASE_USE_SSL = ''useSsl''"
definition NETWORK_CONFIGURATION_PORT :: string where "NETWORK_CONFIGURATION_PORT = ''port''"
definition NETWORK_CONFIGURATION_ADDRESS :: string where "NETWORK_CONFIGURATION_ADDRESS = ''address''"
definition UPSTREAM_CONFIGURATION_HOST :: string where "UPSTREAM_CONFIGURATION_HOST = ''address''"
definition UPSTREAM_CONFIGURATION_PORT :: string where "UPSTREAM_CONFIGURATION_PORT = ''port''"

lemmas configuration_keys [simp] = DATABASE_HOST_def DATABASE_PORT_def DATABASE_NAME_def DATABASE_USER_def
  DATABASE_USE_SSL_def NETWORK_CONFIGURATION_PORT_def NETWORK_CONFIGURATION_ADDRESS_def UPSTREAM_CONFIGURATION_HOST_def
  UPSTREAM_CONFIGURATION_PORT_def

definition DatabaseConfiguration_fromJson :: "'j json_lib \<Rightarrow> 'j \<Rightarrow> string \<Rightarrow> DatabaseConfiguration expected" where
  "DatabaseConfiguration_fromJson J json password =
     (case getValue J (jl_get_string J) json DATABASE_HOST of
        Inl e \<Rightarrow> Inl e
      | Inr host \<Rightarrow>
     (case getValue J (jl_get_u16 J) json DATABASE_PORT of
        Inl e \<Rightarrow> Inl e
      | Inr port \<Rightarrow>
     (case getValue J (jl_get_string J) json DATABASE_NAME of
        Inl e \<Rightarrow> Inl e
      | Inr databaseName \<Rightarrow>
     (case getValue J (jl_get_string J) json DATABASE_USER of
        Inl e \<Rightarrow> Inl e
      | Inr user \<Rightarrow>
     (case getValue J (jl_get_bool J) json DATABASE_USE_SSL of
        Inl e \<Rightarrow> Inl e
      | Inr useSsl \<Rightarrow> DatabaseConfiguration_create host port databaseName user password useSsl)))))"

definition DatabaseConfiguration_toJson :: "'j json_lib \<Rightarrow> DatabaseConfiguration \<Rightarrow> 'j" where
  "DatabaseConfiguration_toJson J config =
     jl_set J DATABASE_USE_SSL (jl_of_bool J (dc_useSsl config))
       (jl_set J DATABASE_USER (jl_of_string J (dc_user config))
         (jl_set J DATABASE_NAME (jl_of_string J (dc_databaseName config))
           (jl_set J DATABASE_PORT (jl_of_int J (dc_port config))
             (jl_set J DATABASE_HOST (jl_of_string J (dc_host config)) (jl_null J)))))"

definition NetworkConfiguration_fromJson :: "'j json_lib \<Rightarrow> (string \<Rightarrow> bool) \<Rightarrow> 'j \<Rightarrow> NetworkConfiguration expected" where
  "NetworkConfiguration_fromJson J is_address sect =
     (case getValue J (jl_get_u16 J) sect NETWORK_CONFIGURATION_PORT of
        Inl e \<Rightarrow> Inl e
      | Inr port \<Rightarrow>
     (case and_then (getValue J (jl_get_string J) sect NETWORK_CONFIGURATION_ADDRESS) (NetworkAddress_create is_address) of
        Inl e \<Rightarrow> Inl e
      | Inr address \<Rightarrow> Inr \<lparr>nc_address = address, nc_port = port\<rparr>))"

definition UpstreamConfiguration_fromJson :: "'j json_lib \<Rightarrow> (string \<Rightarrow> bool) \<Rightarrow> 'j \<Rightarrow> UpstreamConfiguration expected" where
  "UpstreamConfiguration_fromJson J is_address sect =
     (case getValue J (jl_get_u16 J) sect UPSTREAM_CONFIGURATION_PORT of
        Inl e \<Rightarrow> Inl e
      | Inr port \<Rightarrow>
     (case and_then (getValue J (jl_get_string J) sect UPSTREAM_CONFIGURATION_HOST) (Host_create is_address) of
        Inl e \<Rightarrow> Inl e
      | Inr host \<Rightarrow> Inr \<lparr>uc_host = host, uc_port = port\<rparr>))"

section \<open>Lemmas\<close>

lemma strip_iff: "strip p s = Some r \<longleftrightarrow> s = p @ r"
  by (auto simp: strip_def prefix_def)

lemma group_until_iff:
  assumes "\<not> P stop"
  shows "group_until P stop s = Some (g, rest) \<longleftrightarrow> s = g @ stop # rest \<and> list_all P g"
proof
  assume "group_until P stop s = Some (g, rest)"
  then have "dropWhile P s = stop # rest" "g = takeWhile P s"
    by (auto simp: group_until_def split: list.splits if_splits)
  then show "s = g @ stop # rest \<and> list_all P g"
    by (metis list_all_iff set_takeWhileD takeWhile_dropWhile_id)
next
  assume "s = g @ stop # rest \<and> list_all P g"
  with assms show "group_until P stop s = Some (g, rest)"
    by (auto simp: group_until_def list_all_iff takeWhile_append2 dropWhile_append2)
qed

text \<open>What the pattern says: the texts it matches and the groups it gives.\<close>

definition url_groups :: "url_match \<Rightarrow> bool" where
  "url_groups m \<longleftrightarrow>
     um_user m \<noteq> [] \<and> list_all (\<lambda>c. c \<noteq> CHR '':'') (um_user m) \<and>
     list_all (\<lambda>c. c \<noteq> CHR ''@'') (um_password m) \<and>
     um_host m \<noteq> [] \<and> list_all (\<lambda>c. c \<noteq> CHR '':'' \<and> c \<noteq> CHR ''/'') (um_host m) \<and>
     um_port m \<noteq> [] \<and> list_all isDigit (um_port m) \<and>
     um_databaseName m \<noteq> [] \<and> list_all (\<lambda>c. c \<noteq> CHR ''?'') (um_databaseName m) \<and>
     (case um_sslmode m of None \<Rightarrow> True | Some mode \<Rightarrow> mode \<noteq> [] \<and> list_all isWord mode)"

definition url_of :: "bool \<Rightarrow> url_match \<Rightarrow> string" where
  "url_of ql m =
     ''postgres'' @ (if ql then ''ql'' else []) @ ''://'' @ um_user m @ '':'' @ um_password m @ ''@'' @ um_host m @ '':'' @
     um_port m @ ''/'' @ um_databaseName m @ (case um_sslmode m of None \<Rightarrow> [] | Some mode \<Rightarrow> ''?sslmode='' @ mode)"

lemma scheme_iff:
  "strip ''://'' (case strip ''ql'' s of Some s' \<Rightarrow> s' | None \<Rightarrow> s) = Some r \<longleftrightarrow>
     (\<exists>ql. s = (if ql then ''ql'' else []) @ ''://'' @ r)"
proof (cases "strip ''ql'' s")
  case (Some s')
  then have "s = ''ql'' @ s'" by (simp add: strip_iff)
  then show ?thesis unfolding Some option.case strip_iff by (simp add: ex_bool_eq)
next
  case None
  then have "s \<noteq> ''ql'' @ s'" for s' by (metis option.distinct(1) strip_iff)
  with this [of "''://'' @ r"] show ?thesis using None by (simp add: strip_iff ex_bool_eq)
qed

lemma match_database_iff:
  "match_database s = Some (name, sslmode) \<longleftrightarrow>
     name \<noteq> [] \<and> list_all (\<lambda>c. c \<noteq> CHR ''?'') name \<and>
     (case sslmode of None \<Rightarrow> s = name
      | Some mode \<Rightarrow> mode \<noteq> [] \<and> list_all isWord mode \<and> s = name @ ''?sslmode='' @ mode)"
  (is "?l \<longleftrightarrow> ?r")
proof
  let ?P = "\<lambda>c. c \<noteq> CHR ''?''"
  have all: "list_all ?P (takeWhile ?P s)" by (auto simp: list_all_iff dest: set_takeWhileD)
  assume l: ?l
  show ?r
  proof (cases "dropWhile ?P s")
    case Nil
    then have "takeWhile ?P s = s" by (metis append_Nil2 takeWhile_dropWhile_id)
    have "name = s" "sslmode = None" "s \<noteq> []"
      using l unfolding match_database_def Let_def Nil \<open>takeWhile ?P s = s\<close> by (simp_all split: if_splits)
    with all \<open>takeWhile ?P s = s\<close> show ?thesis by simp
  next
    case (Cons c rest)
    have s: "s = takeWhile ?P s @ CHR ''?'' # rest"
      using takeWhile_dropWhile_id [of ?P s] hd_dropWhile [of ?P s] unfolding Cons by simp
    obtain mode where "strip ''sslmode='' rest = Some mode" "mode \<noteq> []" "list_all isWord mode" "sslmode = Some mode"
      "name = takeWhile ?P s" "name \<noteq> []"
      using l unfolding match_database_def Let_def Cons by (simp split: if_splits option.splits)
    with s all show ?thesis unfolding strip_iff by simp
  qed
next
  let ?P = "\<lambda>c. c \<noteq> CHR ''?''"
  assume r: ?r
  then have "takeWhile ?P s = name" "dropWhile ?P s = (case sslmode of None \<Rightarrow> [] | Some mode \<Rightarrow> ''?sslmode='' @ mode)"
    by (auto simp: list_all_iff takeWhile_append2 dropWhile_append2 split: option.splits)
  moreover have "strip ''sslmode='' (''sslmode='' @ mode) = Some mode" for mode by (simp add: strip_iff)
  ultimately show ?l using r by (auto simp: match_database_def split: option.splits)
qed

text \<open>The search is exactly a match of the pattern, and the groups are determined by the text.\<close>

lemma slash_not_digit: "\<not> isDigit CHR ''/''"
  by (simp add: isDigit_def less_eq_char_def)

lemmas url_group_iff =
  group_until_iff [of isDigit "CHR ''/''", OF slash_not_digit]
  group_until_iff [of "\<lambda>c. c \<noteq> CHR '':''" "CHR '':''", simplified]
  group_until_iff [of "\<lambda>c. c \<noteq> CHR ''@''" "CHR ''@''", simplified]
  group_until_iff [of "\<lambda>c. c \<noteq> CHR '':'' \<and> c \<noteq> CHR ''/''" "CHR '':''", simplified]

lemma regex_match_sound:
  assumes "regex_match url = Some m"
  shows "url_groups m \<and> (\<exists>ql. url = url_of ql m)"
proof -
  from assms obtain s1 s2 user s3 password s4 host s5 port s6 name sslmode where
    "strip ''postgres'' url = Some s1"
    "strip ''://'' (case strip ''ql'' s1 of Some s' \<Rightarrow> s' | None \<Rightarrow> s1) = Some s2"
    "group_until (\<lambda>c. c \<noteq> CHR '':'') CHR '':'' s2 = Some (user, s3)"
    "group_until (\<lambda>c. c \<noteq> CHR ''@'') CHR ''@'' s3 = Some (password, s4)"
    "group_until (\<lambda>c. c \<noteq> CHR '':'' \<and> c \<noteq> CHR ''/'') CHR '':'' s4 = Some (host, s5)"
    "group_until isDigit CHR ''/'' s5 = Some (port, s6)"
    "match_database s6 = Some (name, sslmode)" "\<not> (user = [] \<or> host = [] \<or> port = [])"
    "m = \<lparr>um_user = user, um_password = password, um_host = host, um_port = port, um_databaseName = name,
          um_sslmode = sslmode\<rparr>"
    unfolding regex_match_def bind_eq_Some_conv split_paired_Ex prod.case
    by (elim exE conjE) (rule that, (assumption | simp split: if_splits)+)
  note parts = this [unfolded scheme_iff, unfolded strip_iff url_group_iff match_database_iff]
  obtain ql where "s1 = (if ql then ''ql'' else []) @ ''://'' @ s2" using parts(2) by blast
  with parts have "url = url_of ql m" unfolding url_of_def by (cases sslmode) (simp_all only: url_match.simps option.case append.simps append_assoc append_Nil2)
  moreover have "url_groups m" using parts unfolding url_groups_def by (cases sslmode) simp_all
  ultimately show ?thesis by blast
qed

lemma regex_match_complete:
  assumes r: "url_groups m" and url: "url = url_of ql m"
  shows "regex_match url = Some m"
proof -
  define s6 where "s6 = um_databaseName m @ (case um_sslmode m of None \<Rightarrow> [] | Some mode \<Rightarrow> ''?sslmode='' @ mode)"
  define s5 where "s5 = um_port m @ CHR ''/'' # s6"
  define s4 where "s4 = um_host m @ CHR '':'' # s5"
  define s3 where "s3 = um_password m @ CHR ''@'' # s4"
  define s2 where "s2 = um_user m @ CHR '':'' # s3"
  define s1 where "s1 = (if ql then ''ql'' else []) @ ''://'' @ s2"
  have "strip ''postgres'' url = Some s1"
    unfolding strip_iff url url_of_def s1_def s2_def s3_def s4_def s5_def s6_def by simp
  moreover have "strip ''://'' (case strip ''ql'' s1 of Some s' \<Rightarrow> s' | None \<Rightarrow> s1) = Some s2"
    unfolding scheme_iff s1_def by blast
  moreover have "group_until (\<lambda>c. c \<noteq> CHR '':'') CHR '':'' s2 = Some (um_user m, s3)"
    unfolding url_group_iff s2_def using r by (simp add: url_groups_def)
  moreover have "group_until (\<lambda>c. c \<noteq> CHR ''@'') CHR ''@'' s3 = Some (um_password m, s4)"
    unfolding url_group_iff s3_def using r by (simp add: url_groups_def)
  moreover have "group_until (\<lambda>c. c \<noteq> CHR '':'' \<and> c \<noteq> CHR ''/'') CHR '':'' s4 = Some (um_host m, s5)"
    unfolding url_group_iff s4_def using r by (simp add: url_groups_def)
  moreover have "group_until isDigit CHR ''/'' s5 = Some (um_port m, s6)"
    unfolding url_group_iff s5_def using r by (simp add: url_groups_def)
  moreover have "match_database s6 = Some (um_databaseName m, um_sslmode m)"
    unfolding match_database_iff s6_def using r by (auto simp: url_groups_def split: option.splits)
  ultimately show ?thesis
    using r unfolding regex_match_def by (simp add: url_groups_def)
qed

lemma regex_match_iff: "regex_match url = Some m \<longleftrightarrow> url_groups m \<and> (\<exists>ql. url = url_of ql m)"
  using regex_match_sound regex_match_complete by blast

text \<open>Fields without spaces can be read off the connection string.\<close>

lemma append_space_inject:
  assumes "CHR '' '' \<notin> set a" "CHR '' '' \<notin> set b" "a @ CHR '' '' # x = b @ CHR '' '' # y"
  shows "a = b \<and> x = y"
proof -
  have "takeWhile (\<lambda>c. c \<noteq> CHR '' '') (a @ CHR '' '' # x) = a" "takeWhile (\<lambda>c. c \<noteq> CHR '' '') (b @ CHR '' '' # y) = b"
    using assms(1,2) by (simp_all add: takeWhile_tail takeWhile_append)
  with assms(3) show ?thesis by simp
qed

lemma to_string_nonneg_inj: "0 \<le> m \<Longrightarrow> 0 \<le> n \<Longrightarrow> to_string m = to_string n \<Longrightarrow> m = n"
  by (metis decimalValue_digits nat_0_le not_less to_string_def)

lemma to_string_no_space: "0 \<le> n \<Longrightarrow> CHR '' '' \<notin> set (to_string n)"
  using digits_all [of "nat n"] by (auto simp: to_string_def list_all_iff isDigit_def less_eq_char_def)

definition no_spaces :: "DatabaseConfiguration \<Rightarrow> bool" where
  "no_spaces config \<longleftrightarrow>
     CHR '' '' \<notin> set (dc_host config) \<and> CHR '' '' \<notin> set (dc_databaseName config) \<and> CHR '' '' \<notin> set (dc_user config) \<and>
     CHR '' '' \<notin> set (dc_password config)"

lemma load_from_values:
  assumes "load_from getenv schema vals = Inr vals'" "distinct (map ev_name schema)"
  shows "(\<forall>spec \<in> set schema. vals' (ev_name spec) =
      (case getenv (ev_name spec) of Some v \<Rightarrow> Some v
       | None \<Rightarrow> (case ev_defaultValue spec of Some v \<Rightarrow> Some v | None \<Rightarrow> vals (ev_name spec))) \<and>
      (ev_required spec \<longrightarrow> getenv (ev_name spec) \<noteq> None \<or> ev_defaultValue spec \<noteq> None)) \<and>
    (\<forall>name. name \<notin> ev_name ` set schema \<longrightarrow> vals' name = vals name)"
  using assms
proof (induction getenv schema vals arbitrary: vals' rule: load_from.induct)
  case (2 getenv spec schema vals)
  then show ?case
    by (fastforce split: option.splits if_splits simp: image_iff)
qed simp

text \<open>The mapper leaves the password out; with it the configuration is read back.\<close>

context json_laws
begin

lemma DatabaseConfiguration_roundtrip:
  assumes "in_u16 (dc_port config)" "dc_port config \<noteq> 0" "dc_host config \<noteq> []" "dc_databaseName config \<noteq> []" "dc_user config \<noteq> []"
  shows "DatabaseConfiguration_fromJson J (DatabaseConfiguration_toJson J config) (dc_password config) = Inr config"
  using assms
  by (simp add: DatabaseConfiguration_fromJson_def DatabaseConfiguration_toJson_def objects reads
      DatabaseConfiguration_create_def)

end

section \<open>Properties\<close>

text \<open>C36. What a database URL means: a text of the form
  \<open>postgres[ql]://user:password@host:port/name[?sslmode=mode]\<close> gives a configuration with these parts; any
  other text is \<open>InvalidUrl\<close>. The port is taken modulo 65536, so a port above 65535 is not rejected but
  becomes another one, and beyond the range of \<open>int\<close> the call throws.\<close>

theorem fromUrl_meaning:
  "(url_groups m \<and> url = url_of ql m \<longrightarrow>
     fromUrl url =
       (let n = int (decimalValue (um_port m)) in
        if INT32_MAX < n then None
        else Some (DatabaseConfiguration_create (um_host m) (n mod 65536) (um_databaseName m) (um_user m) (um_password m)
               (um_sslmode m \<noteq> None \<and> um_sslmode m \<noteq> Some ''disable'')))) \<and>
   ((\<nexists>ql m. url_groups m \<and> url = url_of ql m) \<longrightarrow>
     fromUrl url = Some (Inl (make_DatabaseConfigurationError DatabaseConfigurationError.InvalidUrl)))"
proof (intro conjI impI)
  assume "url_groups m \<and> url = url_of ql m"
  then have "regex_match url = Some m" by (auto simp: regex_match_iff)
  then show "fromUrl url =
       (let n = int (decimalValue (um_port m)) in
        if INT32_MAX < n then None
        else Some (DatabaseConfiguration_create (um_host m) (n mod 65536) (um_databaseName m) (um_user m) (um_password m)
               (um_sslmode m \<noteq> None \<and> um_sslmode m \<noteq> Some ''disable'')))"
    by (auto simp: fromUrl_def Let_def wrap_u16_def split: option.split)
next
  assume "\<nexists>ql m. url_groups m \<and> url = url_of ql m"
  then have "regex_match url = None" by (metis option.exhaust regex_match_iff)
  then show "fromUrl url = Some (Inl (make_DatabaseConfigurationError DatabaseConfigurationError.InvalidUrl))"
    by (simp add: fromUrl_def)
qed

text \<open>Port 70968 becomes 5432.\<close>

theorem fromUrl_meaning_witness:
  "fromUrl ''postgres://u:p@db:70968/orders'' =
     Some (Inr \<lparr>dc_host = ''db'', dc_port = 5432, dc_databaseName = ''orders'', dc_user = ''u'', dc_password = ''p'',
                dc_useSsl = False\<rparr>)"
proof -
  let ?m = "\<lparr>um_user = ''u'', um_password = ''p'', um_host = ''db'', um_port = ''70968'', um_databaseName = ''orders'',
     um_sslmode = None\<rparr>"
  have m: "url_groups ?m \<and> ''postgres://u:p@db:70968/orders'' = url_of False ?m" "decimalValue ''70968'' = 70968"
    by (simp_all add: url_groups_def url_of_def isDigit_def less_eq_char_def decimalValue_def digitValue_def)
  from conjunct1 [OF fromUrl_meaning [of ?m "''postgres://u:p@db:70968/orders''" False], THEN mp, OF m(1)] m(2)
  show ?thesis by (simp add: int_limits DatabaseConfiguration_create_def)
qed

text \<open>The connection string determines the configuration as long as no field contains a space; the
  fields are not quoted, and with spaces two configurations can share a connection string.\<close>

lemma toConnectionString_inj:
  assumes "toConnectionString c = toConnectionString d" "no_spaces c" "no_spaces d" "0 \<le> dc_port c" "0 \<le> dc_port d"
  shows "c = d"
proof -
  have "dc_host c = dc_host d \<and>
    ''port='' @ to_string (dc_port c) @ '' dbname='' @ dc_databaseName c @ '' user='' @ dc_user c @ '' password='' @
      dc_password c @ '' sslmode='' @ (if dc_useSsl c then ''require'' else ''disable'') =
    ''port='' @ to_string (dc_port d) @ '' dbname='' @ dc_databaseName d @ '' user='' @ dc_user d @ '' password='' @
      dc_password d @ '' sslmode='' @ (if dc_useSsl d then ''require'' else ''disable'')"
    using assms(1-3) by (intro append_space_inject) (auto simp: toConnectionString_def no_spaces_def)
  moreover from this have "to_string (dc_port c) = to_string (dc_port d) \<and>
    ''dbname='' @ dc_databaseName c @ '' user='' @ dc_user c @ '' password='' @
      dc_password c @ '' sslmode='' @ (if dc_useSsl c then ''require'' else ''disable'') =
    ''dbname='' @ dc_databaseName d @ '' user='' @ dc_user d @ '' password='' @
      dc_password d @ '' sslmode='' @ (if dc_useSsl d then ''require'' else ''disable'')"
    using assms(4,5) by (intro append_space_inject) (auto simp: to_string_no_space)
  moreover from this have "dc_databaseName c = dc_databaseName d \<and>
    ''user='' @ dc_user c @ '' password='' @ dc_password c @ '' sslmode='' @ (if dc_useSsl c then ''require'' else ''disable'') =
    ''user='' @ dc_user d @ '' password='' @ dc_password d @ '' sslmode='' @ (if dc_useSsl d then ''require'' else ''disable'')"
    using assms(2,3) by (intro append_space_inject) (auto simp: no_spaces_def)
  moreover from this have "dc_user c = dc_user d \<and>
    ''password='' @ dc_password c @ '' sslmode='' @ (if dc_useSsl c then ''require'' else ''disable'') =
    ''password='' @ dc_password d @ '' sslmode='' @ (if dc_useSsl d then ''require'' else ''disable'')"
    using assms(2,3) by (intro append_space_inject) (auto simp: no_spaces_def)
  moreover from this have "dc_password c = dc_password d \<and>
    ''sslmode='' @ (if dc_useSsl c then ''require'' else ''disable'') =
    ''sslmode='' @ (if dc_useSsl d then ''require'' else ''disable'')"
    using assms(2,3) by (intro append_space_inject) (auto simp: no_spaces_def)
  ultimately show ?thesis
    using to_string_nonneg_inj [OF assms(4,5)] by (auto intro: DatabaseConfiguration.equality split: if_splits)
qed

definition sampleDatabase :: DatabaseConfiguration where
  "sampleDatabase = \<lparr>dc_host = ''db'', dc_port = 5432, dc_databaseName = ''orders'', dc_user = ''u'', dc_password = ''p'',
     dc_useSsl = False\<rparr>"

text \<open>The user \<open>u user=v\<close>, or the database \<open>orders user=u\<close> and the user \<open>v\<close>.\<close>

lemma toConnectionString_ambiguous:
  "toConnectionString (sampleDatabase\<lparr>dc_user := ''u user=v''\<rparr>) =
   toConnectionString (sampleDatabase\<lparr>dc_databaseName := ''orders user=u'', dc_user := ''v''\<rparr>)"
  by (simp add: toConnectionString_def sampleDatabase_def)

text \<open>After the environment was loaded, \<open>require\<close> does not throw for a variable that the schema requires or
  gives a default, and returns the variable's value, or the default when it is not set.\<close>

lemma environment_require_total:
  assumes "load getenv schema = Inr values" "distinct (map ev_name schema)" "spec \<in> set schema"
    and "ev_required spec \<or> ev_defaultValue spec \<noteq> None"
  shows "\<exists>v. environment_require values (ev_name spec) = Inr v \<and>
    (getenv (ev_name spec) = Some v \<or> getenv (ev_name spec) = None \<and> ev_defaultValue spec = Some v)"
  using load_from_values [OF assms(1) [unfolded load_def] assms(2)] assms(3,4)
  by (fastforce simp: environment_require_def split: option.splits)

end
