(* ===== verification/Gateway.thy ===== *)
theory Gateway
  imports Http Configuration
begin

text \<open>
  \<open>gateway/handlers\<close>: the proxy with its pools of idle connections, and the gateway's routes
  (\<open>gateway/main.cpp\<close>). Sockets are handles of a type \<open>'k\<close>; what opening a connection and an exchange on
  it give is the environment \<open>'k upstream\<close>.
\<close>

section \<open>The proxy\<close>

type_synonym 'k pools = "string \<Rightarrow> 'k list option"

record 'k ProxyHandler =
  px_servicesUrl :: "(string \<times> UpstreamConfiguration) list"
  px_pools :: "'k pools"

text \<open>The list of services is in the order in which the unordered map iterates. The constructor makes an
  empty pool for every service.\<close>

definition ProxyHandler_create :: "(string \<times> UpstreamConfiguration) list \<Rightarrow> 'k ProxyHandler" where
  "ProxyHandler_create services =
     \<lparr>px_servicesUrl = services, px_pools = (\<lambda>pathPrefix. if pathPrefix \<in> fst ` set services then Some [] else None)\<rparr>"

text \<open>\<open>None\<close>: \<open>_pools.at\<close> throws.\<close>

definition acquirePooledSocket :: "string \<Rightarrow> 'k pools \<Rightarrow> ('k option \<times> 'k pools) option" where
  "acquirePooledSocket pathPrefix pools =
     (case pools pathPrefix of
        None \<Rightarrow> None
      | Some sockets \<Rightarrow>
          if sockets = [] then Some (None, pools)
          else Some (Some (last sockets), pools(pathPrefix \<mapsto> butlast sockets)))"

definition releaseSocketIfReusable :: "string \<Rightarrow> 'k \<Rightarrow> bool \<Rightarrow> beast_response \<Rightarrow> 'k pools \<Rightarrow> 'k pools option" where
  "releaseSocketIfReusable pathPrefix socket is_open response pools =
     (if \<not> bs_keep_alive response \<or> \<not> is_open then Some pools
      else
        (case pools pathPrefix of
           None \<Rightarrow> None
         | Some sockets \<Rightarrow> Some (pools(pathPrefix \<mapsto> sockets @ [socket]))))"

text \<open>In attempt \<open>n\<close>: resolving and connecting to host and port gives a socket or an error; writing a request
  and reading the response gives the response and whether the socket is still open, or an error.\<close>

record 'k upstream =
  us_open :: "nat \<Rightarrow> string \<Rightarrow> string \<Rightarrow> unit + 'k"
  us_exchange :: "nat \<Rightarrow> 'k \<Rightarrow> beast_request \<Rightarrow> unit + beast_response \<times> bool"

definition openSocket :: "'k upstream \<Rightarrow> nat \<Rightarrow> UpstreamConfiguration \<Rightarrow> unit + 'k" where
  "openSocket env attempt config = us_open env attempt (host_value (uc_host config)) (to_string (uc_port config))"

definition proxiedRequest :: "Request \<Rightarrow> string \<Rightarrow> beast_request" where
  "proxiedRequest request host =
     (let beastRequest = toBeastRequest request in
      beastRequest\<lparr>bq_fields := (bq_fields beastRequest)(''Host'' \<mapsto> host), bq_keep_alive := True\<rparr>)"

definition exchange :: "'k upstream \<Rightarrow> nat \<Rightarrow> 'k \<Rightarrow> Request \<Rightarrow> string \<Rightarrow> unit + beast_response \<times> bool" where
  "exchange env attempt socket request host = us_exchange env attempt socket (proxiedRequest request host)"

text \<open>An attempt answers, is followed by the next one, or throws. The list holds the exchanges begun: the socket,
  whether it came from the pool, and the request.\<close>

datatype attempt_end = Answered Response | NextAttempt | AttemptThrew

type_synonym 'k sent = "('k \<times> bool \<times> beast_request) list"

definition badGateway :: Response where
  "badGateway = \<lparr>rs_status = BadGateway, rs_body = []\<rparr>"

definition proxy_attempt ::
  "'k upstream \<Rightarrow> string \<Rightarrow> UpstreamConfiguration \<Rightarrow> Request \<Rightarrow> nat \<Rightarrow> 'k pools \<Rightarrow> attempt_end \<times> 'k sent \<times> 'k pools" where
  "proxy_attempt env pathPrefix config request attempt pools =
     (let forceFresh = (attempt = 1);
          host = host_value (uc_host config) in
      case (if forceFresh then Some (None, pools) else acquirePooledSocket pathPrefix pools) of
        None \<Rightarrow> (AttemptThrew, [], pools)
      | Some (pooled, pools1) \<Rightarrow>
          (case (case pooled of Some socket \<Rightarrow> Inr socket | None \<Rightarrow> openSocket env attempt config) of
             Inl _ \<Rightarrow> (Answered badGateway, [], pools1)
           | Inr socket \<Rightarrow>
               let sent = [(socket, pooled \<noteq> None, proxiedRequest request host)] in
               (case exchange env attempt socket request host of
                  Inr (beastResponse, is_open) \<Rightarrow>
                    (case releaseSocketIfReusable pathPrefix socket is_open beastResponse pools1 of
                       None \<Rightarrow> (AttemptThrew, sent, pools1)
                     | Some pools2 \<Rightarrow> (Answered (toHttpResponse beastResponse), sent, pools2))
                | Inl _ \<Rightarrow>
                    if pooled = None then (Answered badGateway, sent, pools1)
                    else (NextAttempt, sent, pools1))))"

fun proxy_attempts ::
  "'k upstream \<Rightarrow> string \<Rightarrow> UpstreamConfiguration \<Rightarrow> Request \<Rightarrow> nat list \<Rightarrow> 'k pools \<Rightarrow> (unit + Response) \<times> 'k sent \<times> 'k pools" where
  "proxy_attempts env pathPrefix config request [] pools = (Inr badGateway, [], pools)"
| "proxy_attempts env pathPrefix config request (attempt # attempts) pools =
     (case proxy_attempt env pathPrefix config request attempt pools of
        (Answered response, sent, pools1) \<Rightarrow> (Inr response, sent, pools1)
      | (AttemptThrew, sent, pools1) \<Rightarrow> (Inl (), sent, pools1)
      | (NextAttempt, sent, pools1) \<Rightarrow>
          (case proxy_attempts env pathPrefix config request attempts pools1 of
             (res, sent', pools2) \<Rightarrow> (res, sent @ sent', pools2)))"

definition ProxyHandler_handle ::
  "'k upstream \<Rightarrow> Request \<Rightarrow> 'k ProxyHandler \<Rightarrow> (unit + Response) \<times> 'k sent \<times> 'k ProxyHandler" where
  "ProxyHandler_handle env request proxy =
     (if rq_method request = Unknown then (Inr \<lparr>rs_status = MethodNotAllowed, rs_body = []\<rparr>, [], proxy)
      else
        (case List.find (\<lambda>(pathPrefix, config). prefix pathPrefix (rq_path request)) (px_servicesUrl proxy) of
           None \<Rightarrow> (Inr \<lparr>rs_status = Status_NotFound, rs_body = []\<rparr>, [], proxy)
         | Some (pathPrefix, config) \<Rightarrow>
             (case proxy_attempts env pathPrefix config request [0, 1] (px_pools proxy) of
                (res, sent, pools) \<Rightarrow> (res, sent, proxy\<lparr>px_pools := pools\<rparr>))))"

definition gateway_HealthHandler_handle :: "Request \<Rightarrow> Response" where
  "gateway_HealthHandler_handle request = \<lparr>rs_status = Ok, rs_body = ''OK''\<rparr>"

section \<open>Routes\<close>

datatype gateway_endpoint = GatewayHealth | Proxy

definition gateway_buildRoutes :: "gateway_endpoint Route list" where
  "gateway_buildRoutes =
     [\<lparr>rt_method = Get, rt_pathPrefix = ''/health'', rt_handler = GatewayHealth\<rparr>,
      \<lparr>rt_method = Get, rt_pathPrefix = ''/'', rt_handler = Proxy\<rparr>,
      \<lparr>rt_method = Post, rt_pathPrefix = ''/'', rt_handler = Proxy\<rparr>]"

text \<open>The state of the gateway is the proxy and the exchanges so far.\<close>

fun gateway_handlers :: "'k upstream \<Rightarrow> (gateway_endpoint, 'k ProxyHandler \<times> 'k sent) handlers" where
  "gateway_handlers env GatewayHealth request s = (Inr (gateway_HealthHandler_handle request), s)"
| "gateway_handlers env Proxy request (proxy, sent) =
     (case ProxyHandler_handle env request proxy of (res, sent', proxy') \<Rightarrow> (res, proxy', sent @ sent'))"

definition gateway :: "'k upstream \<Rightarrow> beast_request \<Rightarrow> 'k ProxyHandler \<times> 'k sent \<Rightarrow> beast_response \<times> 'k ProxyHandler \<times> 'k sent" where
  "gateway env = handleRequest gateway_buildRoutes (gateway_handlers env)"

section \<open>Lemmas\<close>

text \<open>The gateway proxies \<open>GET\<close> and \<open>POST\<close> only: other methods have no route and the proxy's own test of the method
  is never reached.\<close>

lemma gateway_routes:
  "findHandler gateway_buildRoutes m path =
     (if m = Unknown \<or> \<not> prefix ''/'' path then None
      else if m = Get \<and> prefix ''/health'' path then Some GatewayHealth else Some Proxy)"
proof -
  have "prefix ''/'' path" if "prefix ''/health'' path" using that by (auto simp: prefix_def)
  then show ?thesis by (cases m) (auto simp: gateway_buildRoutes_def)
qed

definition wf_proxy :: "'k ProxyHandler \<Rightarrow> bool" where
  "wf_proxy proxy \<longleftrightarrow> fst ` set (px_servicesUrl proxy) \<subseteq> dom (px_pools proxy)"

lemma wf_proxy_create: "wf_proxy (ProxyHandler_create services)"
  by (auto simp: wf_proxy_def ProxyHandler_create_def dom_def)

lemma acquire_known:
  assumes "pathPrefix \<in> dom pools"
  shows "\<exists>pooled pools1. acquirePooledSocket pathPrefix pools = Some (pooled, pools1) \<and> dom pools1 = dom pools"
proof -
  obtain sockets where "pools pathPrefix = Some sockets" using assms by blast
  then show ?thesis by (cases "sockets = []") (auto simp: acquirePooledSocket_def)
qed

lemma release_known:
  assumes "pathPrefix \<in> dom pools"
  shows "\<exists>pools1. releaseSocketIfReusable pathPrefix socket is_open response pools = Some pools1 \<and> dom pools1 = dom pools"
proof -
  obtain sockets where "pools pathPrefix = Some sockets" using assms by blast
  then show ?thesis
    by (cases "bs_keep_alive response \<and> is_open") (auto simp: releaseSocketIfReusable_def)
qed

text \<open>An attempt on a known service: it does not throw, sends at most once, and asks for another attempt exactly
  when the exchange on a pooled connection failed.\<close>

lemma proxy_attempt_cases:
  assumes "pathPrefix \<in> dom pools"
  obtains (refused) pools1 where "proxy_attempt env pathPrefix config request attempt pools = (Answered badGateway, [], pools1)"
      "dom pools1 = dom pools"
  | (sent) socket pooled res pools1 where
      "proxy_attempt env pathPrefix config request attempt pools =
         (res, [(socket, pooled, proxiedRequest request (host_value (uc_host config)))], pools1)"
      "dom pools1 = dom pools" "attempt = 1 \<longrightarrow> \<not> pooled"
      "res = (case us_exchange env attempt socket (proxiedRequest request (host_value (uc_host config))) of
                Inr (r, _) \<Rightarrow> Answered (toHttpResponse r)
              | Inl _ \<Rightarrow> if pooled then NextAttempt else Answered badGateway)"
proof -
  obtain pooled pools1 where acq: "(if attempt = 1 then Some (None, pools) else acquirePooledSocket pathPrefix pools) = Some (pooled, pools1)"
    and dom: "dom pools1 = dom pools" "attempt = 1 \<longrightarrow> pooled = None"
    using acquire_known [OF assms] by (cases "attempt = 1") auto
  show ?thesis
  proof (cases "case pooled of Some socket \<Rightarrow> Inr socket | None \<Rightarrow> openSocket env attempt config")
    case (Inl u)
    then have "proxy_attempt env pathPrefix config request attempt pools = (Answered badGateway, [], pools1)"
      unfolding proxy_attempt_def Let_def acq by simp
    with dom(1) refused show ?thesis by blast
  next
    case (Inr socket)
    let ?req = "proxiedRequest request (host_value (uc_host config))"
    show ?thesis
    proof (cases "us_exchange env attempt socket ?req")
      case (Inl u)
      have "proxy_attempt env pathPrefix config request attempt pools =
          (if pooled = None then Answered badGateway else NextAttempt, [(socket, pooled \<noteq> None, ?req)], pools1)"
        unfolding proxy_attempt_def Let_def acq exchange_def by (simp add: Inr Inl)
      from sent [OF this] dom Inl show ?thesis by auto
    next
      case (Inr answer)
      then obtain r is_open where r: "us_exchange env attempt socket ?req = Inr (r, is_open)" by (cases answer) auto
      obtain pools2 where rel: "releaseSocketIfReusable pathPrefix socket is_open r pools1 = Some pools2" "dom pools2 = dom pools1"
        using release_known [of pathPrefix pools1] assms dom(1) by metis
      have "proxy_attempt env pathPrefix config request attempt pools =
          (Answered (toHttpResponse r), [(socket, pooled \<noteq> None, ?req)], pools2)"
        unfolding proxy_attempt_def Let_def acq exchange_def
        by (simp add: \<open>(case pooled of Some socket \<Rightarrow> Inr socket | None \<Rightarrow> openSocket env attempt config) = Inr socket\<close> r rel)
      from sent [OF this] dom rel r show ?thesis by auto
    qed
  qed
qed

text \<open>What the upstream answered to the \<open>k\<close>-th exchange of a request.\<close>

definition answer :: "'k upstream \<Rightarrow> 'k sent \<Rightarrow> nat \<Rightarrow> unit + beast_response \<times> bool" where
  "answer env sent k = us_exchange env k (fst (sent ! k)) (snd (snd (sent ! k)))"

lemma proxy_attempts_outcome:
  assumes "pathPrefix \<in> dom pools" "proxy_attempts env pathPrefix config request [0, 1] pools = (res, sent, pools')"
  shows "dom pools' = dom pools \<and> length sent \<le> 2 \<and>
    (\<forall>x \<in> set sent. snd (snd x) = proxiedRequest request (host_value (uc_host config))) \<and>
    (length sent = 2 \<longrightarrow> fst (snd (sent ! 0)) \<and> \<not> fst (snd (sent ! 1)) \<and> answer env sent 0 = Inl ()) \<and>
    res = Inr (case (if sent = [] then Inl () else answer env sent (length sent - 1)) of
      Inr (r, _) \<Rightarrow> toHttpResponse r | Inl _ \<Rightarrow> badGateway)"
  using assms(1)
proof (cases rule: proxy_attempt_cases [where env = env and config = config and request = request and attempt = 0])
  case (refused pools1)
  with assms(2) show ?thesis by auto
next
  case (sent socket pooled r pools1)
  show ?thesis
  proof (cases "r = NextAttempt")
    case False
    with sent assms(2) show ?thesis by (clarsimp simp: answer_def split: sum.splits if_splits)
  next
    case True
    then have failed: "pooled" "us_exchange env 0 socket (proxiedRequest request (host_value (uc_host config))) = Inl ()"
      using sent(4) by (auto split: sum.splits if_splits)
    have "pathPrefix \<in> dom pools1" using assms(1) sent(2) by simp
    then show ?thesis
    proof (cases rule: proxy_attempt_cases [where env = env and config = config and request = request and attempt = 1])
      case (refused pools2)
      with sent True failed assms(2) show ?thesis by (auto simp: answer_def)
    next
      case again: (sent socket2 pooled2 r2 pools2)
      with sent True failed assms(2) show ?thesis by (clarsimp simp: answer_def split: sum.splits)
    qed
  qed
qed

section \<open>Connections are not shared\<close>

text \<open>
  Requests run concurrently; each takes a connection out of the pool or opens one, and puts it back or
  drops it. \<open>busy\<close> are the connections in use by some request. The operating system gives a new
  connection a handle that no open connection has.
\<close>

inductive pool_step :: "'k pools \<times> 'k list \<Rightarrow> 'k pools \<times> 'k list \<Rightarrow> bool" where
  acquired: "acquirePooledSocket pathPrefix pools = Some (Some k, pools') \<Longrightarrow> pool_step (pools, busy) (pools', k # busy)"
| opened: "k \<notin> set busy \<Longrightarrow> \<forall>pathPrefix sockets. pools pathPrefix = Some sockets \<longrightarrow> k \<notin> set sockets \<Longrightarrow>
    pool_step (pools, busy) (pools, k # busy)"
| released: "k \<in> set busy \<Longrightarrow> releaseSocketIfReusable pathPrefix k is_open response pools = Some pools' \<Longrightarrow>
    pool_step (pools, busy) (pools', remove1 k busy)"
| dropped: "k \<in> set busy \<Longrightarrow> pool_step (pools, busy) (pools, remove1 k busy)"

text \<open>Where a connection is: in use (\<open>None\<close>) or in the pool of a service. Lists without repetition and one place for each.\<close>

fun placed :: "'k pools \<times> 'k list \<Rightarrow> 'k \<Rightarrow> string option \<Rightarrow> bool" where
  "placed (pools, busy) k None \<longleftrightarrow> k \<in> set busy"
| "placed (pools, busy) k (Some p) \<longleftrightarrow> (\<exists>sockets. pools p = Some sockets \<and> k \<in> set sockets)"

definition exclusive :: "'k pools \<times> 'k list \<Rightarrow> bool" where
  "exclusive s \<longleftrightarrow>
     distinct (snd s) \<and> (\<forall>p sockets. fst s p = Some sockets \<longrightarrow> distinct sockets) \<and>
     (\<forall>k x y. placed s k x \<longrightarrow> placed s k y \<longrightarrow> x = y)"

lemma exclusive_move:
  assumes "exclusive s" "distinct (snd s')" "\<And>p sockets. fst s' p = Some sockets \<Longrightarrow> distinct sockets"
    and "\<And>j x. placed s' j x \<Longrightarrow> if j = k then x = z else placed s j x"
  shows "exclusive s'"
  using assms unfolding exclusive_def by metis

lemma distinct_last:
  assumes "distinct xs" "xs \<noteq> []"
  shows "last xs \<in> set xs" "last xs \<notin> set (butlast xs)" "distinct (butlast xs)"
proof -
  have "distinct (butlast xs @ [last xs])" using assms by simp
  then show "last xs \<notin> set (butlast xs)" "distinct (butlast xs)" unfolding distinct_append by simp_all
  show "last xs \<in> set xs" using assms(2) by simp
qed

lemma exclusive_acquired:
  assumes "exclusive (pools, busy)" "acquirePooledSocket pathPrefix pools = Some (Some k, pools')"
  shows "exclusive (pools', k # busy)"
proof -
  from assms(2) obtain sockets where sockets: "pools pathPrefix = Some sockets" "sockets \<noteq> []" "k = last sockets"
    "pools' = pools(pathPrefix \<mapsto> butlast sockets)"
    by (auto simp: acquirePooledSocket_def split: option.splits if_splits)
  note last = distinct_last [of sockets, folded sockets(3)]
  have wf: "distinct sockets" "distinct busy" using assms(1) sockets(1) by (auto simp: exclusive_def)
  have at: "placed (pools, busy) k x \<longleftrightarrow> x = Some pathPrefix" for x
    using assms(1) last(1) wf sockets(1,2) unfolding exclusive_def by (metis placed.simps(2))
  show ?thesis
  proof (rule exclusive_move [OF assms(1), of _ k None])
    show "distinct (snd (pools', k # busy))" using at [of None] wf by simp
    show "distinct l" if "fst (pools', k # busy) p = Some l" for p l
      using that assms(1) last wf sockets(2,4) by (auto simp: exclusive_def split: if_splits)
    show "if j = k then x = None else placed (pools, busy) j x" if "placed (pools', k # busy) j x" for j x
      using that at [of x] last(2) wf sockets
      by (cases x) (auto simp: split: if_splits dest: in_set_butlastD)
  qed
qed

lemma exclusive_released:
  assumes "exclusive (pools, busy)" "k \<in> set busy"
    "releaseSocketIfReusable pathPrefix k is_open response pools = Some pools'"
  shows "exclusive (pools', remove1 k busy)"
proof -
  have at: "placed (pools, busy) k x \<longleftrightarrow> x = None" for x
    using assms(1) assms(2) unfolding exclusive_def by (metis placed.simps(1))
  have wf: "distinct busy" "\<And>p l. pools p = Some l \<Longrightarrow> distinct l \<and> k \<notin> set l"
    using assms(1) at [of "Some _"] by (auto simp: exclusive_def)
  have pools': "pools' = pools \<or> (\<exists>l. pools pathPrefix = Some l \<and> pools' = pools(pathPrefix \<mapsto> l @ [k]))"
    using assms(3) by (auto simp: releaseSocketIfReusable_def split: if_splits option.splits)
  show ?thesis
  proof (rule exclusive_move [OF assms(1), of _ k "Some pathPrefix"])
    show "distinct (snd (pools', remove1 k busy))" using wf(1) by simp
    show "distinct l" if "fst (pools', remove1 k busy) p = Some l" for p l
      using that pools' wf(2) by (auto split: if_splits)
    show "if j = k then x = Some pathPrefix else placed (pools, busy) j x" if "placed (pools', remove1 k busy) j x" for j x
      using that pools' wf by (cases x) (auto split: if_splits)
  qed
qed

lemma exclusive_step:
  assumes "pool_step s s'" "exclusive s"
  shows "exclusive s'"
  using assms
proof (induction rule: pool_step.induct)
  case (acquired pathPrefix pools k pools' busy)
  then show ?case by (intro exclusive_acquired)
next
  case (opened k busy pools)
  then show ?case
    by (intro exclusive_move [OF opened.prems, of _ k None]) (auto simp: exclusive_def elim!: placed.elims)
next
  case (released k busy pathPrefix is_open response pools pools')
  then show ?case by (intro exclusive_released)
next
  case (dropped k busy pools)
  have "placed (pools, busy) k x \<longleftrightarrow> x = None" for x
    using dropped.prems dropped.hyps unfolding exclusive_def by (metis placed.simps(1))
  then show ?case
    using dropped.prems
    by (intro exclusive_move [OF dropped.prems, of _ k None]) (auto simp: exclusive_def elim!: placed.elims)
qed

lemma exclusive_reachable:
  assumes "pool_step\<^sup>*\<^sup>* (px_pools (ProxyHandler_create services), []) s"
  shows "exclusive s"
  using assms
proof (induction rule: rtranclp_induct)
  case base
  then show ?case
    by (auto simp: exclusive_def ProxyHandler_create_def elim!: placed.elims split: if_splits)
qed (rule exclusive_step)

section \<open>Properties\<close>

text \<open>C21. The proxy always answers. A request is sent at most twice, and a second time only, over a new
  connection, when the exchange over a pooled one failed. The answer is what the upstream answered
  last; without one it is 502, or 404 or 405 when nothing was sent.\<close>

theorem proxy_exchanges:
  assumes "wf_proxy proxy" "ProxyHandler_handle env request proxy = (res, sent, proxy')"
  shows "wf_proxy proxy' \<and> length sent \<le> 2 \<and>
    (\<forall>x \<in> set sent. \<exists>host. snd (snd x) = proxiedRequest request host) \<and>
    (length sent = 2 \<longrightarrow> fst (snd (sent ! 0)) \<and> \<not> fst (snd (sent ! 1)) \<and> answer env sent 0 = Inl ()) \<and>
    (\<exists>response. res = Inr response \<and>
      (case (if sent = [] then Inl () else answer env sent (length sent - 1)) of
         Inr (r, _) \<Rightarrow> response = toHttpResponse r
       | Inl _ \<Rightarrow> rs_status response = BadGateway \<or> sent = [] \<and> rs_status response \<in> {Status_NotFound, MethodNotAllowed}))"
proof (cases "rq_method request = Unknown \<or>
    List.find (\<lambda>(pathPrefix, config). prefix pathPrefix (rq_path request)) (px_servicesUrl proxy) = None")
  case True
  with assms show ?thesis by (auto simp: ProxyHandler_handle_def split: if_splits)
next
  case False
  then obtain pathPrefix config where service:
    "List.find (\<lambda>(pathPrefix, config). prefix pathPrefix (rq_path request)) (px_servicesUrl proxy) = Some (pathPrefix, config)"
    by auto
  then have "(pathPrefix, config) \<in> set (px_servicesUrl proxy)" by (metis find_Some_iff nth_mem)
  then have known: "pathPrefix \<in> dom (px_pools proxy)" using assms(1) by (force simp: wf_proxy_def)
  obtain pools' where run: "proxy_attempts env pathPrefix config request [0, 1] (px_pools proxy) = (res, sent, pools')"
    and proxy': "proxy' = proxy\<lparr>px_pools := pools'\<rparr>"
    using assms(2) False service by (auto simp: ProxyHandler_handle_def split: prod.splits)
  note outcome = proxy_attempts_outcome [OF known run]
  then have "wf_proxy proxy'" using assms(1) by (simp add: wf_proxy_def proxy')
  with outcome show ?thesis by (auto simp: badGateway_def split: sum.splits)
qed

text \<open>The upstream closed the pooled connection 0; connection 1 works.\<close>

definition sampleUpstream :: "nat upstream" where
  "sampleUpstream =
     \<lparr>us_open = (\<lambda>_ _ _. Inr 1),
      us_exchange = (\<lambda>_ k _. if k = 0 then Inl () else Inr (beast_response_init\<lparr>bs_result := 201\<rparr>, True))\<rparr>"

definition sampleProxy :: "nat ProxyHandler" where
  "sampleProxy = (ProxyHandler_create [(''/orders'', \<lparr>uc_host = Host ''order-service'', uc_port = 8081\<rparr>)])
     \<lparr>px_pools := [''/orders'' \<mapsto> [0]]\<rparr>"

theorem proxy_exchanges_witness:
  "length (fst (snd (ProxyHandler_handle sampleUpstream \<lparr>rq_method = Post, rq_path = ''/orders'', rq_body = ''{}''\<rparr> sampleProxy))) \<le> 2"
proof -
  obtain res sent proxy' where
    run: "ProxyHandler_handle sampleUpstream \<lparr>rq_method = Post, rq_path = ''/orders'', rq_body = ''{}''\<rparr> sampleProxy = (res, sent, proxy')"
    using prod_cases3 by blast
  have "wf_proxy sampleProxy" by (simp add: wf_proxy_def sampleProxy_def ProxyHandler_create_def)
  from proxy_exchanges [OF this run] run show ?thesis by simp
qed

text \<open>A posted request whose exchange over a pooled connection fails is sent again, although the upstream may
  have handled it.\<close>

lemma proxy_resends_posts:
  "map (\<lambda>(k, pooled, request). (k, bq_method request)) (fst (snd (ProxyHandler_handle sampleUpstream
     \<lparr>rq_method = Post, rq_path = ''/orders'', rq_body = ''{}''\<rparr> sampleProxy))) = [(0, verb_post), (1, verb_post)]"
  by (simp add: ProxyHandler_handle_def sampleProxy_def ProxyHandler_create_def sampleUpstream_def proxy_attempt_def
      acquirePooledSocket_def releaseSocketIfReusable_def openSocket_def exchange_def proxiedRequest_def toBeastRequest_def
      beast_response_init_def Let_def)

text \<open>C34. However many requests run at the same time, no connection is used by two of them and none is in a
  pool while it is used or in two pools.\<close>

theorem pool_connections_exclusive:
  assumes "pool_step\<^sup>*\<^sup>* (px_pools (ProxyHandler_create services), []) (pools, busy)"
  shows "distinct busy \<and> (\<forall>p sockets. pools p = Some sockets \<longrightarrow> distinct sockets \<and> set sockets \<inter> set busy = {}) \<and>
    (\<forall>p q ps qs. p \<noteq> q \<longrightarrow> pools p = Some ps \<longrightarrow> pools q = Some qs \<longrightarrow> set ps \<inter> set qs = {})"
proof -
  have lists: "distinct busy" "\<And>p sockets. pools p = Some sockets \<Longrightarrow> distinct sockets"
    and one: "\<And>k x y. placed (pools, busy) k x \<Longrightarrow> placed (pools, busy) k y \<Longrightarrow> x = y"
    using exclusive_reachable [OF assms] unfolding exclusive_def by auto
  have "set sockets \<inter> set busy = {}" if "pools p = Some sockets" for p sockets
    using that one [of _ None "Some p"] by fastforce
  moreover have "set ps \<inter> set qs = {}" if "p \<noteq> q" "pools p = Some ps" "pools q = Some qs" for p q ps qs
    using that one [of _ "Some p" "Some q"] by fastforce
  ultimately show ?thesis using lists by blast
qed

theorem pool_connections_exclusive_witness:
  "\<exists>pools. pool_step\<^sup>*\<^sup>* (px_pools (ProxyHandler_create [(''/orders'', \<lparr>uc_host = Host ''h'', uc_port = 1\<rparr>)]), []) (pools, [0::nat]) \<and>
     distinct [0::nat]"
proof -
  let ?pools = "px_pools (ProxyHandler_create [(''/orders'', \<lparr>uc_host = Host ''h'', uc_port = 1\<rparr>)]) :: nat pools"
  have "pool_step (?pools, []) (?pools, [0])"
    by (rule opened) (auto simp: ProxyHandler_create_def split: if_splits)
  then have "pool_step\<^sup>*\<^sup>* (?pools, []) (?pools, [0])" by simp
  from pool_connections_exclusive [OF this] this show ?thesis by blast
qed

end
