(* ===== verification/OrderFlow.thy ===== *)
theory OrderFlow
  imports EventHandlers Outbox OrderApi Gateway
begin

text \<open>
  The services together: an order goes from the client through the order service's database and outbox to
  the worker, and the worker's reservation goes back the same way. The records between the services are
  those that the outbox publishers make of the rows; that a published record reaches the handler with its
  payload and metadata is shown in \<open>KafkaConsumer\<close>.
\<close>

text \<open>A handler gets the payload and the metadata of the published request.\<close>

definition published :: "string \<Rightarrow> outbox_row \<Rightarrow> string \<times> MessageMetadata" where
  "published topic_name row =
     (let request = outboxRequest topic_name (entry_of row) in (pq_payload request, pq_metadata request))"

text \<open>The server keeps the value of a \<open>jsonb\<close> column: its text parses to what was stored.\<close>

definition jsonb_keeps :: "'j json_lib \<Rightarrow> ('j \<Rightarrow> bool) \<Rightarrow> (string \<Rightarrow> string) \<Rightarrow> bool" where
  "jsonb_keeps J ok jsonb \<longleftrightarrow> (\<forall>j. ok j \<longrightarrow> jl_parse J (jsonb (jl_dump J j)) = Inr j)"

text \<open>The worker, when nothing fails and the event is new.\<close>

lemma worker_reserves:
  assumes "json_laws J ok obj utf8" "jsonb_keeps J ok jsonb" "wf_Order order" "\<forall>item \<in> set (o_items order). utf8 (itemCode item)"
    and "o_orderId order = Some i" "pg_uuid (orderId_value i) = orderId_value i"
    and "pg_uuid uuid \<notin> ob_id ` set (wd_outbox wdb)" "pg_uuid (outboxEventId_value (mm_eventId metadata)) \<notin> set (wd_processed wdb)"
  defines "row \<equiv> \<lparr>ob_id = pg_uuid uuid, ob_aggregate_id = orderId_value i, ob_event_type = ''OrderReserved'',
      ob_payload = jsonb (jl_dump J (OrderReservedEvent_toJson J \<lparr>re_orderId = i\<rparr>)), ob_published = False\<rparr>"
  shows "OrderReservationHandler_handle J jsonb process (jsonb (jl_dump J (Order_toJson J order))) metadata (no_faults (\<lambda>_. uuid)) wdb =
    (Returned True, wdb\<lparr>wd_processed := wd_processed wdb @ [pg_uuid (outboxEventId_value (mm_eventId metadata))],
       wd_outbox := wd_outbox wdb @ [row]\<rparr>)"
proof -
  have parse: "jl_parse J (jsonb (jl_dump J (Order_toJson J order))) = Inr (Order_toJson J order)"
    using assms(2) json_laws.Order_ok [OF assms(1,3,4)] by (simp add: jsonb_keeps_def)
  show ?thesis
    using assms(6-8) parse json_laws.OrderCreatedEvent_of_order [OF assms(1,3,5)]
    by (simp add: OrderReservationHandler_handle_def process_def reservationRecord_def recordReservationIfNew_def run_tx_def
        recordReservation_body_def tx_bind_def tx_exec_def tx_return_def no_faults_def INSERT_PROCESSED_EVENT_def
        worker_INSERT_OUTBOX_EVENT_def INSERT_OUTBOX_EVENT_def row_def)
qed

section \<open>Properties\<close>

text \<open>C12. An order is carried through: when nothing fails, a posted order is stored, the worker makes a
  reservation of the record published for it, and the record published for the reservation makes the
  order service move exactly this order to \<open>Reserved\<close>, as which a client then finds it, with its user
  and items.\<close>

theorem order_flow:
  assumes laws: "json_laws J ok obj utf8" and jsonb: "jsonb_keeps J ok jsonb"
    and wf: "wf_Order order" "\<forall>item \<in> set (o_items order). utf8 (itemCode item)"
    and db: "order_db_ok db" and ids: "isValidUuid (uuids 0)" "pg_uuid (uuids 0) \<notin> ord_order_id ` set (db_orders db)"
      "pg_uuid (uuids 1) \<notin> ob_id ` set (db_outbox db)"
    and worker: "pg_uuid uuid \<notin> ob_id ` set (wd_outbox wdb)" "pg_uuid (uuids 1) \<notin> set (wd_processed wdb)"
    and scan: "\<forall>rows. mset (scan rows) = mset rows"
    and stored: "save J jsonb order (no_faults uuids) db = (i, db1)" and new: "o_status order = Created"
    and created: "published ''orders.created'' (last (db_outbox db1)) = (payload1, metadata1)"
    and handled: "OrderReservationHandler_handle J jsonb process payload1 metadata1 (no_faults (\<lambda>_. uuid)) wdb = (done1, wdb1)"
    and reserved: "published ''orders.reserved'' (last (wd_outbox wdb1)) = (payload2, metadata2)"
    and confirmed: "OrderReservedHandler_handle J scan id payload2 metadata2 (no_faults uuids2) (no_faults uuids3) db1 = (done2, db2)"
  shows "i = Inr (OrderId (pg_uuid (uuids 0))) \<and> done1 = Returned True \<and> done2 = Returned True \<and>
    db2 = EventHandlers.reserved (OrderId (pg_uuid (uuids 0))) db1 \<and>
    (\<exists>items. fst (findById scan (OrderId (pg_uuid (uuids 0))) (no_faults uuids4) db2) =
        Inr \<lparr>o_userId = UserId (pg_uuid (userId_value (o_userId order))), o_orderId = Some (OrderId (pg_uuid (uuids 0))),
             o_items = items, o_status = Reserved\<rparr> \<and>
      mset items = mset (map canonicalItem (o_items order)))"
proof -
  let ?i = "OrderId (pg_uuid (uuids 0))"
  have saved: "i = Inr ?i" "db1 = saved J jsonb order (pg_uuid (uuids 0)) (pg_uuid (uuids 1)) db"
    using save_succeeds [OF wf(1) ids, of J jsonb] stored by simp_all
  have wf1: "wf_Order (assignId ?i order)" "\<forall>item \<in> set (o_items (assignId ?i order)). utf8 (itemCode item)"
    using wf ids(1) by (auto simp: assignId_def wf_Order_def isValidUuid_pg)
  have "payload1 = jsonb (jl_dump J (Order_toJson J (assignId ?i order)))" "mm_eventId metadata1 = OutboxEventId (pg_uuid (uuids 1))"
    using created saved(2) by (auto simp: published_def outboxRequest_def entry_of_def saved_def Let_def)
  with worker_reserves [OF laws jsonb wf1, of ?i uuid wdb metadata1] worker handled
  have worker1: "done1 = Returned True" "ob_payload (last (wd_outbox wdb1)) = jsonb (jl_dump J (OrderReservedEvent_toJson J \<lparr>re_orderId = ?i\<rparr>))"
    by (auto simp: assignId_def)
  have "payload2 = jsonb (jl_dump J (OrderReservedEvent_toJson J \<lparr>re_orderId = ?i\<rparr>))"
    using reserved worker1(2) by (auto simp: published_def outboxRequest_def entry_of_def Let_def)
  moreover have "isValidUuid (orderId_value (re_orderId \<lparr>re_orderId = ?i\<rparr>))" using ids(1) by (simp add: isValidUuid_pg)
  ultimately have event: "jl_parse J payload2 = Inr (OrderReservedEvent_toJson J \<lparr>re_orderId = ?i\<rparr>)"
    "order_OrderReservedEvent_fromJson J (OrderReservedEvent_toJson J \<lparr>re_orderId = ?i\<rparr>) = Inr \<lparr>ore_orderId = ?i\<rparr>"
    using jsonb json_laws.OrderReservedEvent_ok [OF laws] json_laws.OrderReservedEvent_handover [OF laws]
    by (auto simp: jsonb_keeps_def)
  obtain items where found: "found scan ?i db1 =
      Inr \<lparr>o_userId = UserId (pg_uuid (userId_value (o_userId order))), o_orderId = Some ?i, o_items = items, o_status = Created\<rparr>"
    and items: "mset items = mset (map canonicalItem (o_items order))"
    using save_found [OF db wf(1) _ scan, of J jsonb "no_faults uuids" ?i db1] stored saved(1) new by auto
  have moved: "done2 = Returned True" "db2 = EventHandlers.reserved ?i db1"
    using OrderReservedHandler_moves [OF event, of scan db1 _ metadata2 uuids2 uuids3] found confirmed by auto
  have "found scan ?i db2 = Inr \<lparr>o_userId = UserId (pg_uuid (userId_value (o_userId order))), o_orderId = Some ?i,
      o_items = items, o_status = Reserved\<rparr>"
    using found_reserved [OF found] moved(2) by simp
  with saved(1) worker1(1) moved items show ?thesis by (simp add: findById_no_faults)
qed

theorem order_flow_witness:
  "\<exists>db1 payload1 metadata1 wdb1 payload2 metadata2 db2.
     save value_lib id sampleOrder sampleEnv order_db_init = (Inr (OrderId (pg_uuid sampleUuid)), db1) \<and>
     published ''orders.created'' (last (db_outbox db1)) = (payload1, metadata1) \<and>
     OrderReservationHandler_handle value_lib id process payload1 metadata1 (no_faults (\<lambda>_. sampleUuid)) worker_db_init =
       (Returned True, wdb1) \<and>
     published ''orders.reserved'' (last (wd_outbox wdb1)) = (payload2, metadata2) \<and>
     OrderReservedHandler_handle value_lib id id payload2 metadata2 sampleEnv sampleEnv db1 = (Returned True, db2)"
proof -
  obtain i db1 where 1: "save value_lib id sampleOrder sampleEnv order_db_init = (i, db1)" by (rule prod.exhaust)
  obtain payload1 metadata1 where 2: "published ''orders.created'' (last (db_outbox db1)) = (payload1, metadata1)"
    by (rule prod.exhaust)
  obtain done1 wdb1 where 3: "OrderReservationHandler_handle value_lib id process payload1 metadata1 (no_faults (\<lambda>_. sampleUuid))
      worker_db_init = (done1, wdb1)" by (rule prod.exhaust)
  obtain payload2 metadata2 where 4: "published ''orders.reserved'' (last (wd_outbox wdb1)) = (payload2, metadata2)"
    by (rule prod.exhaust)
  obtain done2 db2 where 5: "OrderReservedHandler_handle value_lib id id payload2 metadata2 sampleEnv sampleEnv db1 = (done2, db2)"
    by (rule prod.exhaust)
  have db: "order_db_ok order_db_init" by (simp add: order_db_ok_def order_db_init_def outbox_ok_def)
  have jsonb: "jsonb_keeps value_lib v_ok id" using vj.parse_dump by (simp add: jsonb_keeps_def)
  have "o_status sampleOrder = Created" by (simp add: sampleOrder_def)
  from order_flow [OF vj.json_laws_axioms jsonb wf_sampleOrder _ db _ _ _ _ _ _ 1 [unfolded sampleEnv_def] this 2 3 4
      5 [unfolded sampleEnv_def]] 1 2 3 4 5
  show ?thesis by (simp add: order_db_init_def worker_db_init_def)
qed

section \<open>A request that is sent twice\<close>

lemma order_service_same:
  "toHttpRequest r = toHttpRequest r' \<Longrightarrow> order_service J jsonb scan env r db = order_service J jsonb scan env r' db"
  by (simp add: order_service_def handleRequest_def)

text \<open>The proxy sends a posted order again when the exchange over a pooled connection fails; when the order
  service had stored the order before the connection broke, it is stored twice.\<close>

lemma resent_post_stores_twice:
  assumes laws: "json_laws J ok obj utf8" and wf: "wf_Order order" "\<forall>item \<in> set (o_items order). utf8 (itemCode item)"
    and ids: "isValidUuid (uuids 0)" "pg_uuid (uuids 0) \<notin> ord_order_id ` set (db_orders db)" "pg_uuid (uuids 1) \<notin> ob_id ` set (db_outbox db)"
    and ids': "isValidUuid (uuids' 0)" "pg_uuid (uuids' 0) \<notin> ord_order_id ` set (db_orders db1)"
      "pg_uuid (uuids' 1) \<notin> ob_id ` set (db_outbox db1)"
    and request: "request = proxiedRequest \<lparr>rq_method = Post, rq_path = ''/orders'', rq_body = jl_dump J (Order_toJson J order)\<rparr> host"
    and first: "order_service J jsonb scan (no_faults uuids) request db = (response1, db1)"
    and second: "order_service J jsonb scan (no_faults uuids') request db1 = (response2, db2)"
  shows "length (db_orders db2) = length (db_orders db) + 2 \<and> length (db_outbox db2) = length (db_outbox db) + 2"
proof -
  have same: "toHttpRequest request =
      toHttpRequest (toBeastRequest \<lparr>rq_method = Post, rq_path = ''/orders'', rq_body = jl_dump J (Order_toJson J order)\<rparr>)"
    by (simp add: request proxiedRequest_def toHttpRequest_def Let_def)
  show ?thesis
    using json_laws.create_succeeds [OF laws wf ids, of jsonb scan] json_laws.create_succeeds [OF laws wf ids', of jsonb scan]
      first second
    by (auto simp: order_service_same [OF same] saved_def)
qed

end
