(* ===== verification/OutboxRelay.thy ===== *)
theory OutboxRelay
  imports Outbox
begin

text \<open>
  The outbox publisher beside the other users of its table: sending, storing by the broker, the
  acknowledgement and the marking of a row are separate steps, between which rows are added and other instances
  publish. A batch of \<open>OutboxPublisher\<close> is a sequence of these steps; a restart forgets what was sent and
  acknowledged. The broker stores what it acknowledges, and may store later, or twice, what it did not.
\<close>

record relay =
  rl_sent :: "OutboxEntry list"
  rl_topic :: "PublishRequest list"
  rl_acked :: "OutboxEntry list"

definition relay_init :: relay where
  "relay_init = \<lparr>rl_sent = [], rl_topic = [], rl_acked = []\<rparr>"

inductive relay_step :: "string \<Rightarrow> outbox_row list \<times> relay \<Rightarrow> outbox_row list \<times> relay \<Rightarrow> bool" for topic_name where
  send: "fetchUnpublished locked limit env rows = (Inr entries, rows') \<Longrightarrow>
    relay_step topic_name (rows, relay) (rows', relay\<lparr>rl_sent := rl_sent relay @ entries\<rparr>)"
| store: "entry \<in> set (rl_sent relay) \<Longrightarrow>
    relay_step topic_name (rows, relay) (rows, relay\<lparr>rl_topic := rl_topic relay @ [outboxRequest topic_name entry]\<rparr>)"
| ack: "entry \<in> set (rl_sent relay) \<Longrightarrow> outboxRequest topic_name entry \<in> set (rl_topic relay) \<Longrightarrow>
    relay_step topic_name (rows, relay) (rows, relay\<lparr>rl_acked := rl_acked relay @ [entry]\<rparr>)"
| mark: "entry \<in> set (rl_acked relay) \<Longrightarrow> markAsPublished (oe_id entry) env rows = (res, rows') \<Longrightarrow>
    relay_step topic_name (rows, relay) (rows', relay)"
| restart: "set sent \<subseteq> set (rl_sent relay) \<Longrightarrow> set acked \<subseteq> set (rl_acked relay) \<Longrightarrow>
    relay_step topic_name (rows, relay) (rows, relay\<lparr>rl_sent := sent, rl_acked := acked\<rparr>)"

section \<open>Invariant\<close>

text \<open>Entries and records are those of rows of the table; what is acknowledged or marked is in the topic.\<close>

definition request_of :: "string \<Rightarrow> outbox_row \<Rightarrow> PublishRequest" where
  "request_of topic_name row = outboxRequest topic_name (entry_of row)"

definition relay_ok :: "string \<Rightarrow> outbox_row list \<Rightarrow> relay \<Rightarrow> bool" where
  "relay_ok topic_name rows relay \<longleftrightarrow>
     set (rl_sent relay) \<subseteq> entry_of ` set rows \<and> set (rl_acked relay) \<subseteq> entry_of ` set rows \<and>
     set (rl_topic relay) \<subseteq> request_of topic_name ` set rows \<and>
     (\<forall>entry \<in> set (rl_acked relay). outboxRequest topic_name entry \<in> set (rl_topic relay)) \<and>
     (\<forall>row \<in> set rows. ob_published row \<longrightarrow> request_of topic_name row \<in> set (rl_topic relay))"

lemma relay_ok_init: "\<forall>row \<in> set rows. \<not> ob_published row \<Longrightarrow> relay_ok topic_name rows relay_init"
  by (auto simp: relay_ok_def relay_init_def)

lemma relay_ok_append:
  assumes "relay_ok topic_name rows relay" "\<not> ob_published row"
  shows "relay_ok topic_name (rows @ [row]) relay"
  using assms by (auto simp: relay_ok_def)

lemma entry_of_published [simp]: "entry_of (row\<lparr>ob_published := b\<rparr>) = entry_of row"
  by (simp add: entry_of_def)

lemma published_in_eq: "map entry_of (published_in ids rows) = map entry_of rows"
  by (simp add: published_in_def)

lemma published_in_entries:
  "entry_of ` set (published_in ids rows) = entry_of ` set rows" and
  published_in_requests: "request_of topic_name ` set (published_in ids rows) = request_of topic_name ` set rows"
proof -
  show entries: "entry_of ` set (published_in ids rows) = entry_of ` set rows"
    using published_in_eq [of ids rows] by (metis list.set_map)
  have "request_of topic_name ` R = outboxRequest topic_name ` entry_of ` R" for R
    by (simp add: request_of_def image_image)
  with entries show "request_of topic_name ` set (published_in ids rows) = request_of topic_name ` set rows" by simp
qed

lemma relay_ok_published_in:
  assumes "relay_ok topic_name rows relay" "\<forall>row \<in> set rows. ob_id row \<in> ids \<longrightarrow> request_of topic_name row \<in> set (rl_topic relay)"
  shows "relay_ok topic_name (published_in ids rows) relay"
  using assms unfolding relay_ok_def published_in_entries published_in_requests
  by (auto simp: published_in_def request_of_def)

text \<open>A row is determined by its id.\<close>

lemma outbox_ok_inj: "outbox_ok rows \<Longrightarrow> inj_on ob_id (set rows)"
  by (simp add: outbox_ok_def distinct_map)

text \<open>What every step does to the table: some rows become published.\<close>

lemma relay_step_rows:
  assumes "relay_step topic_name (rows, relay) (rows', relay')" "outbox_ok rows" "relay_ok topic_name rows relay"
  shows "(\<exists>ids. rows' = published_in ids rows) \<and> relay_ok topic_name rows' relay'"
  using assms(1)
proof (cases rule: relay_step.cases)
  case (send locked limit env entries)
  have "rows' = rows" using fetchUnpublished_rows [of locked limit env rows] send by simp
  moreover have "set entries \<subseteq> entry_of ` set rows"
    using fetchUnpublished_Inr [OF assms(2), of locked limit env entries] send by (auto dest: in_set_takeD)
  ultimately show ?thesis
    using send assms(3) by (auto simp: relay_ok_def intro!: exI [of _ "{}"])
next
  case (store entry)
  then show ?thesis using assms(3) by (auto simp: relay_ok_def request_of_def intro!: exI [of _ "{}"])
next
  case (ack entry)
  then show ?thesis using assms(3) by (auto simp: relay_ok_def intro!: exI [of _ "{}"])
next
  case (mark entry env res)
  obtain row where row: "row \<in> set rows" "entry = entry_of row" using mark assms(3) by (auto simp: relay_ok_def)
  then have id: "outboxEventId_value (oe_id entry) = ob_id row" by (simp add: entry_of_def)
  have "pg_uuid (ob_id row) = ob_id row" using assms(2) row(1) by (simp add: outbox_ok_def list_all_iff)
  then have "rows' = published_in {} rows \<or> rows' = published_in {ob_id row} rows"
    using markAsPublished_rows [of "oe_id entry" env rows] mark id by simp
  then obtain ids where "rows' = published_in ids rows" "ids \<subseteq> {ob_id row}" by blast
  moreover have "request_of topic_name row' \<in> set (rl_topic relay)" if "row' \<in> set rows" "ob_id row' = ob_id row" for row'
    using inj_onD [OF outbox_ok_inj [OF assms(2)] that(2,1) row(1)] mark row assms(3)
    by (auto simp: relay_ok_def request_of_def)
  ultimately show ?thesis
    using mark relay_ok_published_in [OF assms(3), of ids] by blast
next
  case (restart sent acked)
  then show ?thesis
    using assms(3) by (auto simp: relay_ok_def intro!: exI [of _ "{}"])
qed

section \<open>A batch as steps\<close>

lemma store_and_ack:
  "set entries \<subseteq> set (rl_sent relay) \<Longrightarrow>
   (relay_step topic_name)\<^sup>*\<^sup>* (rows, relay)
     (rows, relay\<lparr>rl_topic := rl_topic relay @ map (outboxRequest topic_name) entries, rl_acked := rl_acked relay @ entries\<rparr>)"
proof (induction entries arbitrary: relay)
  case (Cons entry entries)
  let ?stored = "relay\<lparr>rl_topic := rl_topic relay @ [outboxRequest topic_name entry]\<rparr>"
  let ?acked = "?stored\<lparr>rl_acked := rl_acked relay @ [entry]\<rparr>"
  have "relay_step topic_name (rows, relay) (rows, ?stored)"
    using Cons.prems by (intro relay_step.store) simp
  moreover have "relay_step topic_name (rows, ?stored) (rows, ?acked)"
    using Cons.prems relay_step.ack [of entry ?stored topic_name rows] by simp
  moreover have "(relay_step topic_name)\<^sup>*\<^sup>* (rows, ?acked) (rows, ?acked\<lparr>
      rl_topic := rl_topic ?acked @ map (outboxRequest topic_name) entries, rl_acked := rl_acked ?acked @ entries\<rparr>)"
    using Cons.prems by (intro Cons.IH) simp
  ultimately show ?case by (simp add: converse_rtranclp_into_rtranclp)
qed simp

lemma mark_pending_relay:
  assumes "\<forall>(entry, answer) \<in> set pending. answer = Ready (Inr ()) \<longrightarrow> entry \<in> set (rl_acked relay)"
  shows "(relay_step topic_name)\<^sup>*\<^sup>* (rows, relay) (snd (mark_pending markEnv pending n rows), relay)"
  using assms
proof (induction markEnv pending n rows rule: mark_pending.induct)
  case (4 markEnv entry u pending n rows)
  obtain res rows1 where marked: "markAsPublished (oe_id entry) (markEnv (oe_id entry)) rows = (res, rows1)" by fastforce
  have "relay_step topic_name (rows, relay) (rows1, relay)"
    using "4.prems" by (intro relay_step.mark [OF _ marked]) simp
  moreover have "(relay_step topic_name)\<^sup>*\<^sup>* (rows1, relay)
      (snd (mark_pending markEnv ((entry, Ready (Inr u)) # pending) n rows), relay)"
    using 4 marked by (cases res) auto
  ultimately show ?case by (rule converse_rtranclp_into_rtranclp)
qed auto

section \<open>Progress\<close>

text \<open>Every row can still reach the topic.\<close>

lemma relay_delivers:
  assumes "outbox_ok rows" "relay_ok topic_name rows relay" "row \<in> set rows"
  shows "\<exists>relay'. (relay_step topic_name)\<^sup>*\<^sup>* (rows, relay) (rows, relay') \<and> request_of topic_name row \<in> set (rl_topic relay')"
proof (cases "ob_published row")
  case True
  with assms(2,3) show ?thesis by (intro exI [of _ relay]) (simp add: relay_ok_def)
next
  case False
  let ?sent = "relay\<lparr>rl_sent := rl_sent relay @ map entry_of (unpublished rows)\<rparr>"
  have "length (unpublished rows) \<le> length rows" by (simp add: unpublished_def)
  then have "fetchUnpublished (\<lambda>_. False) (int (length rows)) (no_faults (\<lambda>_. [])) rows = (Inr (map entry_of (unpublished rows)), rows)"
    using fetchUnpublished_reliable [OF assms(1), of "int (length rows)" "\<lambda>_. []"] by simp
  then have "relay_step topic_name (rows, relay) (rows, ?sent)" by (rule relay_step.send)
  moreover have "relay_step topic_name (rows, ?sent) (rows, ?sent\<lparr>rl_topic := rl_topic ?sent @ [outboxRequest topic_name (entry_of row)]\<rparr>)"
    using assms(3) False by (intro relay_step.store) (simp add: unpublished_def)
  ultimately have "(relay_step topic_name)\<^sup>*\<^sup>* (rows, relay) (rows, ?sent\<lparr>rl_topic := rl_topic ?sent @ [outboxRequest topic_name (entry_of row)]\<rparr>)"
    by (rule converse_rtranclp_into_rtranclp [OF _ r_into_rtranclp])
  then show ?thesis by (intro exI conjI) (auto simp: request_of_def)
qed

section \<open>Properties\<close>

text \<open>What a batch is given by the outside: the entries that it fetches, those the broker acknowledges in time, and the
  transactions that mark a row and take effect (a commit in doubt may have been applied).\<close>

definition batch_entries :: "int \<Rightarrow> batch_env \<Rightarrow> outbox_row list \<Rightarrow> OutboxEntry list" where
  "batch_entries batchSize env rows =
     (case fst (fetchUnpublished (be_locked env) batchSize (be_fetch env) rows) of Inl _ \<Rightarrow> [] | Inr entries \<Rightarrow> entries)"

definition acked_entries :: "string \<Rightarrow> batch_env \<Rightarrow> OutboxEntry list \<Rightarrow> OutboxEntry list" where
  "acked_entries topic_name env entries = filter (\<lambda>entry. be_publish env (outboxRequest topic_name entry) = Ready (Inr ())) entries"

definition mark_applies :: "tx_env \<Rightarrow> bool" where
  "mark_applies env \<longleftrightarrow> tx_fault env 0 = None \<and> tx_fault env 1 = None \<and>
     (case tx_commit env of Committed \<Rightarrow> True | CommitFailed _ \<Rightarrow> False | CommitInDoubt applied \<Rightarrow> applied)"

lemma markAsPublished_applies:
  assumes "pg_uuid (outboxEventId_value i) = outboxEventId_value i"
  shows "snd (markAsPublished i env rows) = (if mark_applies env then published_in {outboxEventId_value i} rows else rows)"
proof (cases "filter (\<lambda>row. ob_id row = outboxEventId_value i) rows = []")
  case True
  then have "published_in {outboxEventId_value i} rows = rows"
    by (auto simp: published_in_def filter_empty_conv intro: map_idI)
  with markAsPublished_rows [OF assms, of env rows] show ?thesis by auto
next
  case False
  then show ?thesis
    by (auto simp: markAsPublished_def run_tx_def tx_bind_def tx_exec_def tx_return_def MARK_OUTBOX_PUBLISHED_def assms
        published_in_def mark_applies_def split: option.splits sum.splits tx_end.splits commit_result.splits)
qed

lemma mark_pending_rows:
  assumes "\<forall>entry \<in> set entries. pg_uuid (outboxEventId_value (oe_id entry)) = outboxEventId_value (oe_id entry)"
  shows "snd (mark_pending markEnv (map (\<lambda>entry. (entry, answer entry)) entries) n rows) =
    published_in {outboxEventId_value (oe_id entry) | entry. entry \<in> set entries \<and> answer entry = Ready (Inr ()) \<and>
      mark_applies (markEnv (oe_id entry))} rows"
  using assms
proof (induction entries arbitrary: n rows)
  case (Cons entry entries)
  let ?ids = "\<lambda>entries. {outboxEventId_value (oe_id entry) | entry. entry \<in> set entries \<and> answer entry = Ready (Inr ()) \<and>
      mark_applies (markEnv (oe_id entry))}"
  let ?i = "outboxEventId_value (oe_id entry)"
  show ?case
  proof (cases "answer entry = Ready (Inr ())")
    case True
    obtain res rows1 where marked: "markAsPublished (oe_id entry) (markEnv (oe_id entry)) rows = (res, rows1)" by fastforce
    then have rows1: "rows1 = (if mark_applies (markEnv (oe_id entry)) then published_in {?i} rows else rows)"
      using markAsPublished_applies [of "oe_id entry" "markEnv (oe_id entry)" rows] Cons.prems by simp
    have "?ids (entry # entries) = ?ids entries \<union> (if mark_applies (markEnv (oe_id entry)) then {?i} else {})"
      using True by auto
    with rows1 Cons marked True show ?thesis by (cases res) auto
  next
    case False
    then have "?ids (entry # entries) = ?ids entries" by auto
    moreover have "mark_pending markEnv (map (\<lambda>entry. (entry, answer entry)) (entry # entries)) n rows =
        mark_pending markEnv (map (\<lambda>entry. (entry, answer entry)) entries) n rows"
      using False by (cases "answer entry"; cases "case answer entry of Ready r \<Rightarrow> r | NotReady \<Rightarrow> Inr ()") auto
    ultimately show ?thesis using Cons by simp
  qed
qed simp

lemma batch_parts:
  assumes "processBatch topic_name batchSize env rows = (result, requests, rows')"
  defines "entries \<equiv> batch_entries batchSize env rows"
  shows "requests = map (outboxRequest topic_name) entries"
    and "rows' = snd (mark_pending (be_mark env) (map (\<lambda>entry. (entry, be_publish env (outboxRequest topic_name entry))) entries) 0 rows)"
    and "entries \<noteq> [] \<Longrightarrow> fetchUnpublished (be_locked env) batchSize (be_fetch env) rows = (Inr entries, rows)"
proof -
  have pending: "zip es (map (be_publish env \<circ> outboxRequest topic_name) es) =
      map (\<lambda>entry. (entry, be_publish env (outboxRequest topic_name entry))) es" for es
    by (induction es) simp_all
  have rows: "snd (fetchUnpublished (be_locked env) batchSize (be_fetch env) rows) = rows" by (rule fetchUnpublished_rows)
  show "requests = map (outboxRequest topic_name) entries"
    "rows' = snd (mark_pending (be_mark env) (map (\<lambda>entry. (entry, be_publish env (outboxRequest topic_name entry))) entries) 0 rows)"
    "entries \<noteq> [] \<Longrightarrow> fetchUnpublished (be_locked env) batchSize (be_fetch env) rows = (Inr entries, rows)"
    using assms(1) rows
    by (auto simp: processBatch_def entries_def batch_entries_def Let_def pending split: prod.splits sum.splits if_splits)
qed

text \<open>C25. A batch of the publisher, whatever fails in it, is a sequence of these steps with exactly this outcome: all that was
  fetched is sent, what the broker acknowledges is stored in the topic and acknowledged, nothing else is; and the rows that
  become published are those of the acknowledged entries whose marking transaction takes effect.\<close>

theorem batch_refines_relay:
  assumes "outbox_ok rows" "processBatch topic_name batchSize env rows = (result, requests, rows')"
  defines "entries \<equiv> batch_entries batchSize env rows"
  defines "acked \<equiv> acked_entries topic_name env entries"
  shows "(relay_step topic_name)\<^sup>*\<^sup>* (rows, relay)
      (rows', relay\<lparr>rl_sent := rl_sent relay @ entries, rl_topic := rl_topic relay @ map (outboxRequest topic_name) acked,
         rl_acked := rl_acked relay @ acked\<rparr>) \<and>
    requests = map (outboxRequest topic_name) entries \<and>
    rows' = published_in {outboxEventId_value (oe_id entry) | entry. entry \<in> set acked \<and> mark_applies (be_mark env (oe_id entry))} rows"
proof -
  note parts = batch_parts [OF assms(2), folded entries_def]
  let ?sent = "relay\<lparr>rl_sent := rl_sent relay @ entries\<rparr>"
  let ?done = "?sent\<lparr>rl_topic := rl_topic ?sent @ map (outboxRequest topic_name) acked, rl_acked := rl_acked ?sent @ acked\<rparr>"
  have "(relay_step topic_name)\<^sup>*\<^sup>* (rows, relay) (rows, ?sent)"
  proof (cases "entries = []")
    case False
    from relay_step.send [OF parts(3) [OF this]] show ?thesis by (rule r_into_rtranclp)
  qed simp
  also have "(relay_step topic_name)\<^sup>*\<^sup>* (rows, ?sent) (rows, ?done)"
    by (intro store_and_ack) (auto simp: acked_def acked_entries_def)
  also have "(relay_step topic_name)\<^sup>*\<^sup>* (rows, ?done) (rows', ?done)"
    unfolding parts(2) by (intro mark_pending_relay) (auto simp: acked_def acked_entries_def)
  finally (rtranclp_trans) have steps: "(relay_step topic_name)\<^sup>*\<^sup>* (rows, relay) (rows', ?done)" .
  have "entries \<noteq> [] \<Longrightarrow> set entries \<subseteq> entry_of ` set rows"
    using fetchUnpublished_Inr [OF assms(1), of "be_locked env" batchSize "be_fetch env" entries] parts(3)
    by (auto dest: in_set_takeD)
  then have "\<forall>entry \<in> set entries. pg_uuid (outboxEventId_value (oe_id entry)) = outboxEventId_value (oe_id entry)"
    using assms(1) by (cases "entries = []") (auto simp: outbox_ok_def list_all_iff entry_of_def)
  from mark_pending_rows [OF this, of "be_mark env" "\<lambda>entry. be_publish env (outboxRequest topic_name entry)" 0 rows] steps parts(1,2)
  show ?thesis by (simp add: acked_def acked_entries_def conj_assoc)
qed

text \<open>A row is sent, the broker does not answer in time, and the row stays as it is.\<close>

theorem batch_refines_relay_witness:
  "\<exists>rows' relay'. (relay_step ''orders'')\<^sup>*\<^sup>* (sampleRows, relay_init) (rows', relay') \<and>
     length (rl_sent relay') = 1 \<and> rl_topic relay' = [] \<and> rl_acked relay' = [] \<and> rows' = sampleRows"
proof -
  let ?env = "(reliable (\<lambda>_. []))\<lparr>be_publish := \<lambda>_. NotReady\<rparr>"
  obtain result requests rows' where run: "processBatch ''orders'' 10 ?env sampleRows = (result, requests, rows')"
    using prod_cases3 by blast
  have "batch_entries 10 ?env sampleRows = map entry_of sampleRows"
    using fetchUnpublished_reliable [OF outbox_ok_sampleRows, of 10 "\<lambda>_. []"]
    by (simp add: batch_entries_def reliable_def unpublished_def sampleRows_def)
  moreover have "acked_entries ''orders'' ?env es = []" for es by (simp add: acked_entries_def)
  ultimately show ?thesis
    using batch_refines_relay [OF outbox_ok_sampleRows run, of relay_init]
    by (intro exI conjI) (auto simp: relay_init_def sampleRows_def)
qed

end
