(* ===== verification/OrderSystem.thy ===== *)
theory OrderSystem
  imports OrderFlow OutboxRelay
begin

text \<open>
  The whole system as a transition system: the databases of the order service and of the worker, the topics
  between them with the publishers that fill them, and the confirmations that were read and not yet written.
  Every transaction is a step of its own; requests, publishers, handlers, redeliveries and restarts interleave
  in any order, and every step may fail in every way its operation can. Both topics are written by these publishers
  only. Here any record may be delivered at any time; the consumers that deliver them are put into this system in
  \<open>OrderDelivery\<close>.
\<close>

record system =
  sy_db :: order_db
  sy_created :: relay
  sy_worker :: worker_db
  sy_reserved :: relay
  sy_confirming :: "(OrderId \<times> OrderStatus \<times> OrderStatus) list"

definition system_init :: system where
  "system_init =
     \<lparr>sy_db = order_db_init, sy_created = relay_init, sy_worker = worker_db_init, sy_reserved = relay_init,
      sy_confirming = []\<rparr>"

text \<open>What the server promises: \<open>gen_random_uuid\<close> makes UUIDs, and the columns for text hold what it can store
  as such (\<open>text_ok\<close>: valid in its encoding and without the character 0).\<close>

definition uuids_ok :: "tx_env \<Rightarrow> bool" where
  "uuids_ok env \<longleftrightarrow> isValidUuid (tx_uuid env 0) \<and> isValidUuid (tx_uuid env 1)"

definition columns_ok :: "(string \<Rightarrow> bool) \<Rightarrow> order_db \<Rightarrow> bool" where
  "columns_ok text_ok db \<longleftrightarrow> list_all (\<lambda>row. text_ok (itm_price_currency_code row)) (db_order_items db)"

inductive system_step ::
  "'j json_lib \<Rightarrow> (string \<Rightarrow> string) \<Rightarrow> (item_row list \<Rightarrow> item_row list) \<Rightarrow> (string \<Rightarrow> bool) \<Rightarrow> system \<Rightarrow> system \<Rightarrow> bool"
  for J jsonb scan text_ok
where
  request: "order_service J jsonb scan env request (sy_db s) = (response, db) \<Longrightarrow> uuids_ok env \<Longrightarrow> columns_ok text_ok db \<Longrightarrow>
    system_step J jsonb scan text_ok s (s\<lparr>sy_db := db\<rparr>)"
| publish_created: "relay_step ''orders.created'' (db_outbox (sy_db s), sy_created s) (rows, relay) \<Longrightarrow>
    system_step J jsonb scan text_ok s (s\<lparr>sy_db := sy_db s\<lparr>db_outbox := rows\<rparr>, sy_created := relay\<rparr>)"
| reserve: "r \<in> set (rl_topic (sy_created s)) \<Longrightarrow>
    OrderReservationHandler_handle J jsonb process (pq_payload r) (pq_metadata r) env (sy_worker s) = (res, wdb) \<Longrightarrow> uuids_ok env \<Longrightarrow>
    system_step J jsonb scan text_ok s (s\<lparr>sy_worker := wdb\<rparr>)"
| publish_reserved: "relay_step ''orders.reserved'' (wd_outbox (sy_worker s), sy_reserved s) (rows, relay) \<Longrightarrow>
    system_step J jsonb scan text_ok s (s\<lparr>sy_worker := sy_worker s\<lparr>wd_outbox := rows\<rparr>, sy_reserved := relay\<rparr>)"
| read: "r \<in> set (rl_topic (sy_reserved s)) \<Longrightarrow>
    confirm_read J scan (pq_payload r) env (sy_db s) = Change i fromStatus toStatus \<Longrightarrow>
    system_step J jsonb scan text_ok s (s\<lparr>sy_confirming := sy_confirming s @ [(i, fromStatus, toStatus)]\<rparr>)"
| change: "(i, fromStatus, toStatus) \<in> set (sy_confirming s) \<Longrightarrow>
    confirm_change i fromStatus toStatus env (sy_db s) = (res, db) \<Longrightarrow>
    system_step J jsonb scan text_ok s (s\<lparr>sy_db := db\<rparr>)"
| restart: "set confirming \<subseteq> set (sy_confirming s) \<Longrightarrow>
    system_step J jsonb scan text_ok s (s\<lparr>sy_confirming := confirming\<rparr>)"

section \<open>Invariant\<close>

text \<open>Orders: in one of two statuses, readable; each with one event in the outbox, from which the worker reads its id.\<close>

definition order_readable :: "order_db \<Rightarrow> order_row \<Rightarrow> bool" where
  "order_readable db row \<longleftrightarrow>
     ord_status row \<in> {''Created'', ''Reserved''} \<and> isValidUuid (ord_order_id row) \<and> isValidUuid (ord_user_id row) \<and>
     (\<exists>items. items \<noteq> [] \<and> list_all wf_OrderItem items \<and>
        filter (\<lambda>item. itm_order_id item = ord_order_id row) (db_order_items db) = map (item_row_of (ord_order_id row)) items)"

definition event_readable :: "'j json_lib \<Rightarrow> outbox_row \<Rightarrow> bool" where
  "event_readable J row \<longleftrightarrow> map_option ce_orderId (eventOf J (ob_payload row)) = Some (OrderId (ob_aggregate_id row))"

definition orders_ok :: "'j json_lib \<Rightarrow> order_db \<Rightarrow> bool" where
  "orders_ok J db \<longleftrightarrow>
     order_db_ok db \<and> list_all (order_readable db) (db_orders db) \<and> list_all (event_readable J) (db_outbox db) \<and>
     map ob_aggregate_id (db_outbox db) = map ord_order_id (db_orders db)"

text \<open>Reservations: one for each processed event, which is an event of the order; the order service reads the order's id
  from it.\<close>

definition reservedOrder :: "'j json_lib \<Rightarrow> string \<Rightarrow> OrderId option" where
  "reservedOrder J payload =
     (case jl_parse J payload of
        Inl _ \<Rightarrow> None
      | Inr json \<Rightarrow> (case order_OrderReservedEvent_fromJson J json of Inl _ \<Rightarrow> None | Inr event \<Rightarrow> Some (ore_orderId event)))"

definition reserves :: "'j json_lib \<Rightarrow> outbox_row list \<Rightarrow> string \<Rightarrow> outbox_row \<Rightarrow> bool" where
  "reserves J events key row \<longleftrightarrow>
     (key, ob_aggregate_id row) \<in> (\<lambda>event. (ob_id event, ob_aggregate_id event)) ` set events \<and>
     reservedOrder J (ob_payload row) = Some (OrderId (ob_aggregate_id row))"

definition reservations_ok :: "'j json_lib \<Rightarrow> order_db \<Rightarrow> worker_db \<Rightarrow> bool" where
  "reservations_ok J db wdb \<longleftrightarrow>
     worker_db_ok wdb \<and> list_all2 (reserves J (db_outbox db)) (wd_processed wdb) (wd_outbox wdb)"

text \<open>Only orders with a reservation are confirmed.\<close>

definition confirmed_ok :: "system \<Rightarrow> bool" where
  "confirmed_ok s \<longleftrightarrow>
     (\<forall>(i, fromStatus, toStatus) \<in> set (sy_confirming s).
        fromStatus = Created \<and> toStatus = Reserved \<and> orderId_value i \<in> ob_aggregate_id ` set (wd_outbox (sy_worker s))) \<and>
     (\<forall>row \<in> set (db_orders (sy_db s)). ord_status row = ''Reserved'' \<longrightarrow>
        ord_order_id row \<in> ob_aggregate_id ` set (wd_outbox (sy_worker s)))"

definition system_inv :: "'j json_lib \<Rightarrow> system \<Rightarrow> bool" where
  "system_inv J s \<longleftrightarrow>
     orders_ok J (sy_db s) \<and> relay_ok ''orders.created'' (db_outbox (sy_db s)) (sy_created s) \<and>
     reservations_ok J (sy_db s) (sy_worker s) \<and> relay_ok ''orders.reserved'' (wd_outbox (sy_worker s)) (sy_reserved s) \<and>
     confirmed_ok s"

lemma system_inv_init: "system_inv J system_init"
  by (simp add: system_inv_def system_init_def orders_ok_def order_db_init_def order_db_ok_def outbox_ok_def relay_ok_init
      reservations_ok_def worker_db_ok_init confirmed_ok_def) (simp add: worker_db_init_def relay_ok_init)

section \<open>Tables whose rows are published\<close>

lemma published_in_aggregates [simp]:
  "map ob_aggregate_id (published_in ids rows) = map ob_aggregate_id rows"
  by (simp add: published_in_def)

lemma published_in_list_all:
  "(\<And>row b. P (row\<lparr>ob_published := b\<rparr>) = P row) \<Longrightarrow> list_all P (published_in ids rows) = list_all P rows"
  by (induction rows) (simp_all add: published_in_def)

lemma published_in_image:
  "(\<And>row b. f (row\<lparr>ob_published := b\<rparr>) = f row) \<Longrightarrow> f ` set (published_in ids rows) = f ` set rows"
  by (induction rows) (simp_all add: published_in_def)

lemma orders_ok_publish: "orders_ok J (db\<lparr>db_outbox := published_in ids (db_outbox db)\<rparr>) = orders_ok J db"
  by (simp add: orders_ok_def order_db_ok_def order_readable_def [abs_def] published_in_list_all event_readable_def)

lemma reserves_publish: "reserves J (published_in ids rows) = reserves J rows"
  by (simp add: reserves_def [abs_def] published_in_image)

lemma reservations_ok_publish:
  "reservations_ok J (db\<lparr>db_outbox := published_in ids (db_outbox db)\<rparr>) wdb = reservations_ok J db wdb"
  "reservations_ok J db (wdb\<lparr>wd_outbox := published_in ids (wd_outbox wdb)\<rparr>) = reservations_ok J db wdb"
proof -
  have "list_all2 (reserves J events) keys (published_in ids rows) = list_all2 (reserves J events) keys rows" for events keys rows
    unfolding published_in_def list_all2_map2 by (intro list.rel_cong) (auto simp: reserves_def)
  moreover have "length (published_in ids rows) = length rows" for rows by (simp add: published_in_def)
  ultimately show "reservations_ok J (db\<lparr>db_outbox := published_in ids (db_outbox db)\<rparr>) wdb = reservations_ok J db wdb"
    "reservations_ok J db (wdb\<lparr>wd_outbox := published_in ids (wd_outbox wdb)\<rparr>) = reservations_ok J db wdb"
    by (simp_all add: reservations_ok_def worker_db_ok_def reserves_publish)
qed

section \<open>Requests\<close>

text \<open>A request leaves the database as it is or stores one new order.\<close>

definition stores :: "'j json_lib \<Rightarrow> (string \<Rightarrow> string) \<Rightarrow> tx_env \<Rightarrow> order_db \<Rightarrow> order_db \<Rightarrow> bool" where
  "stores J jsonb env db db' \<longleftrightarrow>
     (\<exists>order. let oid = pg_uuid (tx_uuid env 0); bid = pg_uuid (tx_uuid env 1) in
        wf_Order order \<and> o_status order = Created \<and> isValidUuid oid \<and> oid \<notin> ord_order_id ` set (db_orders db) \<and>
        bid \<notin> ob_id ` set (db_outbox db) \<and> db' = saved J jsonb order oid bid db)"

lemma save_stores:
  assumes "save J jsonb order env db = (res, db')" "wf_Order order" "o_status order = Created"
  shows "db' = db \<or> stores J jsonb env db db'"
  using assms(1) unfolding save_def
proof (cases rule: run_tx_cases)
  case (committed a k)
  with save_body_Commit [OF committed(1)] assms(2,3) show ?thesis by (auto simp: stores_def Let_def)
next
  case (in_doubt a k)
  with save_body_Commit [OF in_doubt(1)] assms(2,3) show ?thesis by (auto simp: stores_def Let_def)
qed simp

context json_ranges
begin

lemma create_stores:
  assumes "CreateOrderHandler_handle J jsonb env request db = (res, db')"
  shows "db' = db \<or> stores J jsonb env db db'"
proof -
  have "o_status order = Created" if "Order_fromJson J json = Inr order" for json order
    using that by (auto simp: Order_fromJson_def and_then_Inr_iff Order_create_def split: if_splits)
  then show ?thesis
    using assms Order_fromJson_wf save_stores
    by (fastforce simp: CreateOrderHandler_handle_def Let_def split: sum.splits json_exception.splits prod.splits)
qed

lemma order_service_stores:
  assumes "order_service J jsonb scan env request db = (response, db')"
  shows "db' = db \<or> stores J jsonb env db db'"
proof (cases "findHandler buildRoutes (rq_method (toHttpRequest request)) (rq_path (toHttpRequest request))")
  case None
  with assms show ?thesis by (simp add: order_service_def handleRequest_def)
next
  case (Some endpoint)
  obtain res where handled: "order_handlers J jsonb scan env endpoint (toHttpRequest request) db = (res, db')"
    using assms Some by (auto simp: order_service_def handleRequest_def split: prod.splits sum.splits)
  then show ?thesis
  proof (cases endpoint)
    case CreateOrderHandler
    with handled create_stores show ?thesis by simp
  next
    case GetOrderHandler
    with handled Some routed_get_answers [of "toHttpRequest request" J scan env db] show ?thesis by auto
  qed simp
qed

end

lemma reservation_handler_ok:
  assumes "worker_db_ok wdb" "isValidUuid (tx_uuid env 0)"
    and "OrderReservationHandler_handle J jsonb proc payload metadata env wdb = (res, wdb')"
  shows "worker_db_ok wdb'"
proof (cases "reservation_of J (proc, payload, metadata)")
  case None
  with handle_None [OF None, of jsonb env wdb] assms show ?thesis by simp
next
  case (Some r)
  then obtain answer where "recordReservationIfNew jsonb r env wdb = (answer, wdb')"
    using handle_Some [OF Some, of jsonb env wdb] assms(3) by (auto split: prod.splits)
  with assms(1,2) show ?thesis by (rule recordReservation_keeps_ok)
qed

section \<open>The libraries\<close>

text \<open>The JSON library and the server's \<open>jsonb\<close> and order of rows, as the services rely on them.\<close>

locale service_libraries = json_laws J ok obj text_ok + json_ranges J
  for J :: "'j json_lib" and ok :: "'j \<Rightarrow> bool" and obj :: "'j \<Rightarrow> bool" and text_ok :: "string \<Rightarrow> bool" +
  fixes jsonb :: "string \<Rightarrow> string" and scan :: "item_row list \<Rightarrow> item_row list"
  assumes jsonb_value: "ok j \<Longrightarrow> jl_parse J (jsonb (jl_dump J j)) = Inr j"
    and scan_rows: "mset (scan rows) = mset rows"
begin

lemma created_event:
  assumes "wf_Order order" "o_orderId order = Some i" "\<forall>item \<in> set (o_items order). text_ok (itemCode item)"
  shows "map_option ce_orderId (eventOf J (jsonb (jl_dump J (Order_toJson J order)))) = Some i"
  using jsonb_value [OF Order_ok [OF assms(1,3)]] OrderCreatedEvent_of_order [OF assms(1,2)] by (simp add: eventOf_def)

lemma reserved_event:
  assumes "isValidUuid (orderId_value i)"
  shows "reservedOrder J (jsonb (jl_dump J (OrderReservedEvent_toJson J \<lparr>re_orderId = i\<rparr>))) = Some i"
  using jsonb_value [OF OrderReservedEvent_ok] OrderReservedEvent_handover [of "\<lparr>re_orderId = i\<rparr>"] assms
  by (simp add: reservedOrder_def)

lemma order_readable_saved:
  assumes "order_readable db row" "oid \<noteq> ord_order_id row"
  shows "order_readable (saved J jsonb order oid bid db) row"
proof -
  have "filter (\<lambda>item. itm_order_id item = ord_order_id row) (map (item_row_of oid) items) = []" for items
    using assms(2) by (simp add: filter_empty_conv item_row_of_def)
  with assms show ?thesis by (simp add: order_readable_def saved_def)
qed

lemma saved_readable:
  assumes "order_db_ok db" "wf_Order order" "o_status order = Created" "isValidUuid oid" "oid \<notin> ord_order_id ` set (db_orders db)"
  shows "order_readable (saved J jsonb order oid bid db)
    \<lparr>ord_order_id = oid, ord_user_id = pg_uuid (userId_value (o_userId order)), ord_status = OrderStatus_toString (o_status order)\<rparr>"
proof -
  have "oid \<notin> itm_order_id ` set (db_order_items db)" using assms(1,5) by (auto simp: order_db_ok_def)
  then have "filter (\<lambda>item. itm_order_id item = oid) (db_order_items (saved J jsonb order oid bid db)) =
      map (item_row_of oid) (o_items order)"
    by (auto simp: saved_def filter_empty_conv item_row_of_def intro!: filter_True)
  with assms show ?thesis by (auto simp: order_readable_def wf_Order_def isValidUuid_pg)
qed

lemma stores_orders_ok:
  assumes "orders_ok J db" "stores J jsonb env db db'" "uuids_ok env" "columns_ok text_ok db'"
  shows "orders_ok J db'"
proof -
  let ?oid = "pg_uuid (tx_uuid env 0)" and ?bid = "pg_uuid (tx_uuid env 1)"
  obtain order where order: "wf_Order order" "o_status order = Created" "isValidUuid ?oid"
      "?oid \<notin> ord_order_id ` set (db_orders db)" "?bid \<notin> ob_id ` set (db_outbox db)" "db' = saved J jsonb order ?oid ?bid db"
    using assms(2) by (auto simp: stores_def Let_def)
  have db: "order_db_ok db" using assms(1) by (simp add: orders_ok_def)
  have "order_db_ok db'"
    unfolding order(6) using db order(4,5) assms(3) by (intro saved_ok) (simp_all add: uuids_ok_def isValidUuid_pg)
  moreover have "order_readable db' row" if "row \<in> set (db_orders db)" for row
    unfolding order(6) using assms(1) that order(4) by (intro order_readable_saved) (auto simp: orders_ok_def list_all_iff)
  moreover have "map_option ce_orderId (eventOf J (jsonb (jl_dump J (Order_toJson J (assignId (OrderId ?oid) order))))) = Some (OrderId ?oid)"
  proof (rule created_event)
    show "wf_Order (assignId (OrderId ?oid) order)" using order(1,3) by (auto simp: wf_Order_def assignId_def)
    show "\<forall>item \<in> set (o_items (assignId (OrderId ?oid) order)). text_ok (itemCode item)"
      using assms(4) by (simp add: columns_ok_def order(6) saved_def assignId_def list_all_iff item_row_of_def itemCode_def ball_Un)
  qed (simp add: assignId_def)
  moreover note saved_readable [OF db order(1-4), of ?bid]
  ultimately show ?thesis
    using assms(1) unfolding order(6)
    by (auto simp: orders_ok_def list_all_iff event_readable_def saved_def)
qed

lemma reserves_mono: "reserves J events key row \<Longrightarrow> set events \<subseteq> set events' \<Longrightarrow> reserves J events' key row"
  by (auto simp: reserves_def)

lemma reservations_ok_mono:
  "reservations_ok J db wdb \<Longrightarrow> set (db_outbox db) \<subseteq> set (db_outbox db') \<Longrightarrow> reservations_ok J db' wdb"
  by (auto simp: reservations_ok_def intro: reserves_mono elim!: list_all2_mono)

lemma request_inv:
  assumes "system_inv J s" "stores J jsonb env (sy_db s) db" "uuids_ok env" "columns_ok text_ok db"
  shows "system_inv J (s\<lparr>sy_db := db\<rparr>)"
proof -
  obtain order oid bid where db: "db = saved J jsonb order oid bid (sy_db s)" "o_status order = Created"
    using assms(2) by (auto simp: stores_def Let_def)
  have "orders_ok J db" using assms(1) by (intro stores_orders_ok [OF _ assms(2-4)]) (simp add: system_inv_def)
  moreover have "relay_ok ''orders.created'' (db_outbox db) (sy_created s)"
    using assms(1) by (auto simp: db saved_def system_inv_def intro!: relay_ok_append)
  moreover have "reservations_ok J db (sy_worker s)"
    using assms(1) by (auto simp: system_inv_def db saved_def intro: reservations_ok_mono [of "sy_db s"])
  ultimately show ?thesis
    using assms(1) by (auto simp: system_inv_def confirmed_ok_def db saved_def)
qed

section \<open>Reservations\<close>

text \<open>A record of the topic \<open>orders.created\<close> asks for the reservation of the order that its row belongs to.\<close>

lemma created_record:
  assumes "orders_ok J db" "row \<in> set (db_outbox db)"
  shows "\<exists>r. reservation_of J (process, pq_payload (request_of t row), pq_metadata (request_of t row)) = Some r \<and>
    reservationKey r = ob_id row \<and> rr_aggregateId r = OrderId (ob_aggregate_id row) \<and>
    rr_eventType r = ''OrderReserved'' \<and>
    rr_payload r = jl_dump J (OrderReservedEvent_toJson J \<lparr>re_orderId = OrderId (ob_aggregate_id row)\<rparr>)"
proof -
  obtain event where event: "eventOf J (ob_payload row) = Some event" "ce_orderId event = OrderId (ob_aggregate_id row)"
    using assms by (auto simp: orders_ok_def list_all_iff event_readable_def)
  have "pg_uuid (ob_id row) = ob_id row"
    using assms by (auto simp: orders_ok_def order_db_ok_def outbox_ok_def list_all_iff)
  with event show ?thesis
    by (simp add: reservation_of_def request_of_def outboxRequest_def entry_of_def process_def reservationRecord_def
        reservationKey_def)
qed

lemma aggregate_valid:
  assumes "orders_ok J db" "row \<in> set (db_outbox db)"
  shows "isValidUuid (ob_aggregate_id row) \<and> pg_uuid (ob_aggregate_id row) = ob_aggregate_id row"
proof -
  have "ob_aggregate_id row \<in> set (map ord_order_id (db_orders db))"
    using assms unfolding orders_ok_def by (metis image_eqI list.set_map)
  then show ?thesis
    using assms(1) by (auto simp: orders_ok_def order_db_ok_def list_all_iff order_readable_def)
qed

definition new_reservation :: "outbox_row \<Rightarrow> string \<Rightarrow> outbox_row" where
  "new_reservation row uuid =
     \<lparr>ob_id = pg_uuid uuid, ob_aggregate_id = ob_aggregate_id row, ob_event_type = ''OrderReserved'',
      ob_payload = jsonb (jl_dump J (OrderReservedEvent_toJson J \<lparr>re_orderId = OrderId (ob_aggregate_id row)\<rparr>)),
      ob_published = False\<rparr>"

lemma reserve_cases:
  assumes "orders_ok J db" "row \<in> set (db_outbox db)"
    and "OrderReservationHandler_handle J jsonb process (pq_payload (request_of t row)) (pq_metadata (request_of t row)) env wdb = (res, wdb')"
  obtains (kept) "wdb' = wdb"
  | (reserved) "ob_id row \<notin> set (wd_processed wdb)" "wd_processed wdb' = wd_processed wdb @ [ob_id row]"
      "wd_outbox wdb' = wd_outbox wdb @ [new_reservation row (tx_uuid env 0)]"
proof -
  obtain r where r: "reservation_of J (process, pq_payload (request_of t row), pq_metadata (request_of t row)) = Some r"
      "reservationKey r = ob_id row" "rr_aggregateId r = OrderId (ob_aggregate_id row)" "rr_eventType r = ''OrderReserved''"
      "rr_payload r = jl_dump J (OrderReservedEvent_toJson J \<lparr>re_orderId = OrderId (ob_aggregate_id row)\<rparr>)"
    using created_record [OF assms(1,2), of t] by blast
  obtain answer where "recordReservationIfNew jsonb r env wdb = (answer, wdb')"
    using assms(3) handle_Some [OF r(1), of jsonb env wdb] by (auto split: prod.splits)
  then have "run_tx (recordReservation_body jsonb r) env wdb = (answer, wdb')" by (simp add: recordReservationIfNew_def)
  then show ?thesis
    by (cases rule: run_tx_cases)
      (use kept reserved r aggregate_valid [OF assms(1,2)] in
        \<open>auto dest!: recordReservation_Commit simp: new_reservation_def\<close>)
qed

lemma new_reservation_reserves:
  assumes "orders_ok J db" "row \<in> set (db_outbox db)"
  shows "reserves J (db_outbox db) (ob_id row) (new_reservation row uuid)"
  using assms(2) aggregate_valid [OF assms] reserved_event [of "OrderId (ob_aggregate_id row)"]
  by (auto simp: reserves_def new_reservation_def)

lemma reserve_inv:
  assumes "system_inv J s" "r \<in> set (rl_topic (sy_created s))" "uuids_ok env"
    and handled: "OrderReservationHandler_handle J jsonb process (pq_payload r) (pq_metadata r) env (sy_worker s) = (res, wdb)"
  shows "system_inv J (s\<lparr>sy_worker := wdb\<rparr>)"
proof -
  have orders: "orders_ok J (sy_db s)" using assms(1) by (simp add: system_inv_def)
  obtain row where row: "row \<in> set (db_outbox (sy_db s))" "r = request_of ''orders.created'' row"
    using assms(1,2) by (auto simp: system_inv_def relay_ok_def)
  from orders row(1) handled [unfolded row(2)] show ?thesis
  proof (cases rule: reserve_cases)
    case kept
    with assms(1) show ?thesis by simp
  next
    case reserved
    have "worker_db_ok wdb"
      using assms(1,3) by (intro reservation_handler_ok [OF _ _ handled]) (simp_all add: system_inv_def reservations_ok_def uuids_ok_def)
    then have "reservations_ok J (sy_db s) wdb"
      using assms(1) reserved new_reservation_reserves [OF orders row(1)]
      by (simp add: system_inv_def reservations_ok_def list_all2_appendI)
    moreover have "relay_ok ''orders.reserved'' (wd_outbox wdb) (sy_reserved s)"
      unfolding reserved(3) using assms(1) by (intro relay_ok_append) (simp_all add: system_inv_def new_reservation_def)
    ultimately show ?thesis
      using assms(1) reserved(3) by (auto simp: system_inv_def confirmed_ok_def)
  qed
qed

section \<open>Confirmations\<close>

lemma reservation_aggregate:
  assumes "orders_ok J db" "reservations_ok J db wdb" "row \<in> set (wd_outbox wdb)"
  shows "reservedOrder J (ob_payload row) = Some (OrderId (ob_aggregate_id row)) \<and>
    ob_aggregate_id row \<in> ord_order_id ` set (db_orders db)"
proof -
  obtain key where "reserves J (db_outbox db) key row"
    using assms(2,3) by (auto simp: reservations_ok_def list_all2_conv_all_nth in_set_conv_nth)
  moreover have "ob_aggregate_id ` set (db_outbox db) = ord_order_id ` set (db_orders db)"
    using assms(1) unfolding orders_ok_def by (metis list.set_map)
  ultimately show ?thesis by (auto simp: reserves_def)
qed

lemma read_inv:
  assumes "system_inv J s" "r \<in> set (rl_topic (sy_reserved s))"
    and "confirm_read J scan' (pq_payload r) env (sy_db s) = Change i fromStatus toStatus"
  shows "system_inv J (s\<lparr>sy_confirming := sy_confirming s @ [(i, fromStatus, toStatus)]\<rparr>)"
proof -
  obtain row where row: "row \<in> set (wd_outbox (sy_worker s))" "pq_payload r = ob_payload row"
    using assms(1,2) by (auto simp: system_inv_def relay_ok_def request_of_def outboxRequest_def entry_of_def)
  have "reservedOrder J (pq_payload r) = Some i" "fromStatus = Created" "toStatus = Reserved"
    using assms(3) by (auto simp: confirm_read_def reservedOrder_def markReserved_def split: sum.splits json_exception.splits if_splits)
  moreover have "reservedOrder J (ob_payload row) = Some (OrderId (ob_aggregate_id row))"
    using reservation_aggregate [OF _ _ row(1), of "sy_db s"] assms(1) by (simp add: system_inv_def)
  ultimately have "i = OrderId (ob_aggregate_id row)" by (simp add: row(2))
  with assms(1) row(1) \<open>fromStatus = Created\<close> \<open>toStatus = Reserved\<close> show ?thesis
    by (simp add: system_inv_def confirmed_ok_def)
qed

lemma orders_ok_reserved:
  assumes "orders_ok J db"
  shows "orders_ok J (reserved i db)"
proof -
  have "map ord_order_id (db_orders (reserved i db)) = map ord_order_id (db_orders db)" "db_order_items (reserved i db) = db_order_items db"
    "db_outbox (reserved i db) = db_outbox db"
    by (simp_all add: reserved_def)
  moreover from this have "order_db_ok (reserved i db)"
    using assms by (simp only: orders_ok_def order_db_ok_def flip: list.set_map)
  moreover have "list_all (order_readable (reserved i db)) (db_orders (reserved i db))"
    using assms by (auto simp: orders_ok_def reserved_def list_all_iff order_readable_def)
  ultimately show ?thesis using assms by (simp add: orders_ok_def)
qed

lemma confirming_reserved:
  assumes "system_inv J s" "(i, fromStatus, toStatus) \<in> set (sy_confirming s)"
  shows "fromStatus = Created" "toStatus = Reserved" "orderId_value i \<in> ob_aggregate_id ` set (wd_outbox (sy_worker s))"
    "pg_uuid (orderId_value i) = orderId_value i"
proof -
  show i: "fromStatus = Created" "toStatus = Reserved" "orderId_value i \<in> ob_aggregate_id ` set (wd_outbox (sy_worker s))"
    using assms by (auto simp: system_inv_def confirmed_ok_def)
  then have "orderId_value i \<in> ord_order_id ` set (db_orders (sy_db s))"
    using assms(1) reservation_aggregate by (auto simp: system_inv_def)
  then show "pg_uuid (orderId_value i) = orderId_value i"
    using assms(1) by (auto simp: system_inv_def orders_ok_def order_db_ok_def list_all_iff)
qed

lemma change_inv:
  assumes "system_inv J s" "(i, fromStatus, toStatus) \<in> set (sy_confirming s)"
    and "confirm_change i fromStatus toStatus env (sy_db s) = (res, db)"
  shows "system_inv J (s\<lparr>sy_db := db\<rparr>)"
proof -
  note i = confirming_reserved [OF assms(1,2)]
  have "db = sy_db s \<or> db = reserved i (sy_db s)"
    using assms(3) changeStatus_reserved i(1,2) by (auto simp: confirm_change_def split: prod.splits sum.splits)
  then show ?thesis
  proof
    assume db: "db = reserved i (sy_db s)"
    have "db_outbox db = db_outbox (sy_db s)" by (simp add: db reserved_def)
    with assms(1) orders_ok_reserved [of "sy_db s" i] show ?thesis
      using i(3,4)
      by (auto simp: system_inv_def reservations_ok_def confirmed_ok_def db reserved_def isCreated_def split: if_splits)
  qed (use assms(1) in simp)
qed

section \<open>Every step\<close>

lemma publish_created_inv:
  assumes "system_inv J s" "relay_step ''orders.created'' (db_outbox (sy_db s), sy_created s) (rows, relay)"
  shows "system_inv J (s\<lparr>sy_db := sy_db s\<lparr>db_outbox := rows\<rparr>, sy_created := relay\<rparr>)"
proof -
  have "outbox_ok (db_outbox (sy_db s))" using assms(1) by (simp add: system_inv_def orders_ok_def order_db_ok_def)
  with relay_step_rows [OF assms(2)] assms(1) obtain ids where
    "rows = published_in ids (db_outbox (sy_db s))" "relay_ok ''orders.created'' rows relay" by (auto simp: system_inv_def)
  with assms(1) show ?thesis by (auto simp: system_inv_def orders_ok_publish reservations_ok_publish confirmed_ok_def)
qed

lemma publish_reserved_inv:
  assumes "system_inv J s" "relay_step ''orders.reserved'' (wd_outbox (sy_worker s), sy_reserved s) (rows, relay)"
  shows "system_inv J (s\<lparr>sy_worker := sy_worker s\<lparr>wd_outbox := rows\<rparr>, sy_reserved := relay\<rparr>)"
proof -
  have "outbox_ok (wd_outbox (sy_worker s))" using assms(1) by (simp add: system_inv_def reservations_ok_def worker_db_ok_def)
  with relay_step_rows [OF assms(2)] assms(1) obtain ids where
    "rows = published_in ids (wd_outbox (sy_worker s))" "relay_ok ''orders.reserved'' rows relay" by (auto simp: system_inv_def)
  with assms(1) show ?thesis
    by (auto simp: system_inv_def reservations_ok_publish confirmed_ok_def published_in_image)
qed

lemma system_step_inv:
  assumes "system_step J jsonb scan text_ok s s'" "system_inv J s"
  shows "system_inv J s'"
  using assms(1)
proof cases
  case (request env r response db)
  with order_service_stores [OF request(2)] request_inv [OF assms(2)] assms(2) show ?thesis by auto
next
  case (restart confirming)
  with assms(2) show ?thesis by (fastforce simp: system_inv_def confirmed_ok_def)
qed (use assms(2) in \<open>simp_all add: reserve_inv read_inv change_inv publish_created_inv publish_reserved_inv\<close>)

lemma reachable_inv:
  assumes "(system_step J jsonb scan text_ok)\<^sup>*\<^sup>* system_init s"
  shows "system_inv J s"
  using assms by (induction rule: rtranclp_induct) (auto intro: system_inv_init system_step_inv)

end

interpretation sl: service_libraries value_lib v_ok v_obj "\<lambda>_. True" id id
  by (rule service_libraries.intro [OF vj.json_laws_axioms vr.json_ranges_axioms])
    (simp add: service_libraries_axioms_def vj.parse_dump)

text \<open>A posted order, and the state after it.\<close>

lemma sample_posted: "system_step value_lib id id (\<lambda>_. True) system_init (system_init\<lparr>sy_db := sampleDb\<rparr>)"
proof (rule system_step.request)
  let ?uuids = "\<lambda>n :: nat. if n = 0 then sampleUuid else ''00000000-0000-4000-8000-000000000001''"
  have "pg_uuid ''00000000-0000-4000-8000-000000000001'' = ''00000000-0000-4000-8000-000000000001''" by code_simp
  moreover have "sampleOrder\<lparr>o_orderId := None, o_status := Created\<rparr> = sampleOrder" by (simp add: sampleOrder_def)
  ultimately show "order_service value_lib id id (no_faults ?uuids)
      (toBeastRequest \<lparr>rq_method = Post, rq_path = ''/orders'', rq_body = jl_dump value_lib (Order_toJson value_lib sampleOrder)\<rparr>)
      (sy_db system_init) =
    (toBeastResponse \<lparr>rs_status = Status_Created,
       rs_body = jl_dump value_lib (jl_set value_lib ORDER_ID (jl_of_string value_lib (pg_uuid sampleUuid)) (jl_null value_lib))\<rparr>, sampleDb)"
    using vj.create_succeeds [OF wf_sampleOrder _ _ _ _, of ?uuids order_db_init id id]
    by (simp add: system_init_def order_db_init_def sampleDb_def)
  show "uuids_ok (no_faults ?uuids)" by (simp add: uuids_ok_def no_faults_def) code_simp
qed (simp add: columns_ok_def list_all_iff)

end
