(* ===== verification/OrderLifecycle.thy ===== *)
theory OrderLifecycle
  imports OrderSystem
begin

text \<open>
  What holds of the orders in every state of the system: each is reserved at most once and confirmed only after its
  reservation, and none is lost on its way. The life of an order is specified as
  \<open>lifecycle_step\<close>, which the system refines.
\<close>

section \<open>The specification\<close>

datatype phase = Placed | Reserving | Confirmed

inductive lifecycle_step :: "(string \<rightharpoonup> phase) \<Rightarrow> (string \<rightharpoonup> phase) \<Rightarrow> bool" where
  place: "phases i = None \<Longrightarrow> lifecycle_step phases (phases(i \<mapsto> Placed))"
| reserve: "phases i = Some Placed \<Longrightarrow> lifecycle_step phases (phases(i \<mapsto> Reserving))"
| confirm: "phases i = Some Reserving \<Longrightarrow> lifecycle_step phases (phases(i \<mapsto> Confirmed))"

text \<open>The phases of the orders in a state of the system.\<close>

definition statusOf :: "order_db \<Rightarrow> string \<rightharpoonup> string" where
  "statusOf db = map_of (map (\<lambda>row. (ord_order_id row, ord_status row)) (db_orders db))"

definition reservedIds :: "worker_db \<Rightarrow> string list" where
  "reservedIds wdb = map ob_aggregate_id (wd_outbox wdb)"

definition phases_of :: "system \<Rightarrow> string \<rightharpoonup> phase" where
  "phases_of s i =
     map_option (\<lambda>status. if status = ''Reserved'' then Confirmed else if i \<in> set (reservedIds (sy_worker s)) then Reserving else Placed)
       (statusOf (sy_db s) i)"

section \<open>Tables as maps\<close>

lemma statusOf_dom: "statusOf db i = None \<longleftrightarrow> i \<notin> ord_order_id ` set (db_orders db)"
  by (auto simp: statusOf_def map_of_eq_None_iff image_image)

lemma statusOf_row:
  assumes "order_db_ok db"
  shows "statusOf db i = Some status \<longleftrightarrow> (\<exists>row \<in> set (db_orders db). ord_order_id row = i \<and> ord_status row = status)"
proof -
  have "distinct (map fst (map (\<lambda>row. (ord_order_id row, ord_status row)) (db_orders db)))"
    using assms by (simp add: order_db_ok_def comp_def)
  from map_of_eq_Some_iff [OF this] show ?thesis by (auto simp: statusOf_def)
qed

lemma statusOf_saved:
  assumes "oid \<notin> ord_order_id ` set (db_orders db)"
  shows "statusOf (saved J jsonb order oid bid db) = (statusOf db)(oid \<mapsto> OrderStatus_toString (o_status order))"
proof
  fix i
  have "statusOf db oid = None" using assms by (simp add: statusOf_dom)
  then show "statusOf (saved J jsonb order oid bid db) i = ((statusOf db)(oid \<mapsto> OrderStatus_toString (o_status order))) i"
    by (auto simp: statusOf_def saved_def map_add_def split: option.splits)
qed


lemma filter_key: "distinct (map f xs) \<Longrightarrow> x \<in> set xs \<Longrightarrow> filter (\<lambda>y. f y = f x) xs = [x]"
  by (induction xs) (auto simp: filter_empty_conv image_iff)

section \<open>Consequences of the invariant\<close>

lemma confirmed_reserved:
  assumes "order_db_ok (sy_db s)" "confirmed_ok s" "statusOf (sy_db s) i = Some ''Reserved''"
  shows "i \<in> set (reservedIds (sy_worker s))"
proof -
  obtain row where "row \<in> set (db_orders (sy_db s))" "ord_order_id row = i" "ord_status row = ''Reserved''"
    using assms(3) statusOf_row [OF assms(1)] by blast
  with assms(2) show ?thesis by (auto simp: confirmed_ok_def reservedIds_def)
qed

context service_libraries
begin

lemma event_of_order:
  assumes "orders_ok J db" "i \<in> ord_order_id ` set (db_orders db)"
  obtains event where "event \<in> set (db_outbox db)" "ob_aggregate_id event = i"
  using assms unfolding orders_ok_def by (metis (no_types, lifting) image_iff list.set_map)

lemma aggregates_inj:
  assumes "orders_ok J db"
  shows "inj_on ob_aggregate_id (set (db_outbox db))"
proof -
  have "distinct (map ob_aggregate_id (db_outbox db))"
    using assms by (simp add: orders_ok_def order_db_ok_def)
  then show ?thesis by (simp add: distinct_map)
qed

text \<open>Reservations of different events are of different orders.\<close>

lemma reserves_key:
  assumes "orders_ok J db" "reserves J (db_outbox db) key row" "event \<in> set (db_outbox db)"
  shows "key = ob_id event \<longleftrightarrow> ob_aggregate_id row = ob_aggregate_id event"
proof -
  obtain event' where event': "event' \<in> set (db_outbox db)" "key = ob_id event'" "ob_aggregate_id row = ob_aggregate_id event'"
    using assms(2) by (auto simp: reserves_def)
  have "ob_id event' = ob_id event \<longleftrightarrow> event' = event"
    using inj_on_eq_iff [OF outbox_ok_inj event'(1) assms(3)] assms(1) by (simp add: orders_ok_def order_db_ok_def)
  moreover have "ob_aggregate_id event' = ob_aggregate_id event \<longleftrightarrow> event' = event"
    by (rule inj_on_eq_iff [OF aggregates_inj [OF assms(1)] event'(1) assms(3)])
  ultimately show ?thesis by (simp add: event'(2,3))
qed

lemma reserves_keys:
  assumes "orders_ok J db" "list_all2 (reserves J (db_outbox db)) keys rows" "event \<in> set (db_outbox db)"
  shows "ob_id event \<in> set keys \<longleftrightarrow> ob_aggregate_id event \<in> set (map ob_aggregate_id rows)"
  using assms(2)
proof (induction rule: list_all2_induct)
  case (Cons key keys row rows)
  with reserves_key [OF assms(1) Cons.hyps(1) assms(3)] show ?case by auto
qed simp

lemma reserves_distinct:
  assumes "orders_ok J db" "list_all2 (reserves J (db_outbox db)) keys rows" "distinct keys"
  shows "distinct (map ob_aggregate_id rows)"
  using assms(2,3)
proof (induction rule: list_all2_induct)
  case (Cons key keys row rows)
  obtain event where "event \<in> set (db_outbox db)" "key = ob_id event" "ob_aggregate_id row = ob_aggregate_id event"
    using Cons.hyps(1) by (auto simp: reserves_def)
  with reserves_keys [OF assms(1) Cons.hyps(2), of event] Cons show ?case by simp
qed simp

lemma reservations_distinct:
  assumes "orders_ok J db" "reservations_ok J db wdb"
  shows "distinct (reservedIds wdb)"
  using reserves_distinct [OF assms(1)] assms(2) by (auto simp: reservedIds_def reservations_ok_def worker_db_ok_def)

lemma reservations_of_orders:
  assumes "orders_ok J db" "reservations_ok J db wdb"
  shows "set (reservedIds wdb) \<subseteq> ord_order_id ` set (db_orders db)"
  using reservation_aggregate [OF assms] by (auto simp: reservedIds_def)

text \<open>An event is processed exactly when its order has a reservation.\<close>

lemma processed_iff:
  assumes "orders_ok J db" "reservations_ok J db wdb" "event \<in> set (db_outbox db)"
  shows "ob_id event \<in> set (wd_processed wdb) \<longleftrightarrow> ob_aggregate_id event \<in> set (reservedIds wdb)"
  using reserves_keys [OF assms(1) _ assms(3)] assms(2) by (simp add: reservedIds_def reservations_ok_def)

section \<open>Refinement\<close>

lemma phases_same:
  "statusOf (sy_db s') = statusOf (sy_db s) \<Longrightarrow> reservedIds (sy_worker s') = reservedIds (sy_worker s) \<Longrightarrow> phases_of s' = phases_of s"
  by (simp add: phases_of_def fun_eq_iff)

lemma request_refines:
  assumes "system_inv J s" "stores J jsonb env (sy_db s) db"
  shows "lifecycle_step (phases_of s) (phases_of (s\<lparr>sy_db := db\<rparr>))"
proof -
  let ?oid = "pg_uuid (tx_uuid env 0)"
  obtain order bid where new: "?oid \<notin> ord_order_id ` set (db_orders (sy_db s))" "o_status order = Created"
      "db = saved J jsonb order ?oid bid (sy_db s)"
    using assms(2) by (auto simp: stores_def Let_def)
  then have "statusOf (sy_db s) ?oid = None" "?oid \<notin> set (reservedIds (sy_worker s))"
    using reservations_of_orders [of "sy_db s" "sy_worker s"] assms(1) by (auto simp: statusOf_dom system_inv_def)
  then have "phases_of s ?oid = None" "phases_of (s\<lparr>sy_db := db\<rparr>) = (phases_of s)(?oid \<mapsto> Placed)"
    using new by (auto simp: phases_of_def fun_eq_iff statusOf_saved)
  then show ?thesis by (simp add: lifecycle_step.place)
qed

lemma reserve_refines:
  assumes "system_inv J s" "r \<in> set (rl_topic (sy_created s))"
    and handled: "OrderReservationHandler_handle J jsonb process (pq_payload r) (pq_metadata r) env (sy_worker s) = (res, wdb)"
  shows "phases_of (s\<lparr>sy_worker := wdb\<rparr>) = phases_of s \<or> lifecycle_step (phases_of s) (phases_of (s\<lparr>sy_worker := wdb\<rparr>))"
proof -
  have inv: "orders_ok J (sy_db s)" "reservations_ok J (sy_db s) (sy_worker s)" "order_db_ok (sy_db s)" "confirmed_ok s"
    using assms(1) by (auto simp: system_inv_def orders_ok_def)
  obtain row where row: "row \<in> set (db_outbox (sy_db s))" "r = request_of ''orders.created'' row"
    using assms(1,2) by (auto simp: system_inv_def relay_ok_def)
  let ?i = "ob_aggregate_id row"
  from inv(1) row(1) handled [unfolded row(2)] show ?thesis
  proof (cases rule: reserve_cases)
    case reserved
    then have new: "?i \<notin> set (reservedIds (sy_worker s))" "set (reservedIds wdb) = insert ?i (set (reservedIds (sy_worker s)))"
      using processed_iff [OF inv(1,2) row(1)] by (auto simp: reservedIds_def new_reservation_def)
    have "?i \<in> ord_order_id ` set (db_orders (sy_db s))"
      using inv(1) row(1) unfolding orders_ok_def by (metis image_eqI list.set_map)
    then obtain status where status: "statusOf (sy_db s) ?i = Some status" using statusOf_dom [of "sy_db s" ?i] by fastforce
    then have "status \<noteq> ''Reserved''" using new(1) confirmed_reserved [OF inv(3,4)] by blast
    then have "phases_of s ?i = Some Placed" "phases_of (s\<lparr>sy_worker := wdb\<rparr>) = (phases_of s)(?i \<mapsto> Reserving)"
      using status new by (auto simp: phases_of_def fun_eq_iff)
    then show ?thesis by (simp add: lifecycle_step.reserve)
  qed simp
qed

lemma statusOf_reserved:
  assumes "pg_uuid (orderId_value i) = orderId_value i"
  shows "statusOf (reserved i db) = (statusOf db)(orderId_value i :=
    map_option (\<lambda>status. if status = ''Created'' then ''Reserved'' else status) (statusOf db (orderId_value i)))"
proof -
  have "map_of (map (\<lambda>row. (ord_order_id row, ord_status row))
        (map (\<lambda>row. if isCreated i row then row\<lparr>ord_status := ''Reserved''\<rparr> else row) rows)) j =
      (if j = orderId_value i
       then map_option (\<lambda>status. if status = ''Created'' then ''Reserved'' else status)
         (map_of (map (\<lambda>row. (ord_order_id row, ord_status row)) rows) j)
       else map_of (map (\<lambda>row. (ord_order_id row, ord_status row)) rows) j)" for rows j
    by (induction rows) (auto simp: isCreated_def assms)
  then show ?thesis by (simp add: statusOf_def reserved_def fun_eq_iff)
qed

lemma change_refines:
  assumes "system_inv J s" "(i, fromStatus, toStatus) \<in> set (sy_confirming s)"
    and "confirm_change i fromStatus toStatus env (sy_db s) = (res, db)"
  shows "phases_of (s\<lparr>sy_db := db\<rparr>) = phases_of s \<or> lifecycle_step (phases_of s) (phases_of (s\<lparr>sy_db := db\<rparr>))"
proof -
  let ?i = "orderId_value i"
  note confirming = confirming_reserved [OF assms(1,2)]
  have "db = sy_db s \<or> db = reserved i (sy_db s)"
    using assms(3) changeStatus_reserved confirming by (auto simp: confirm_change_def split: prod.splits sum.splits)
  then show ?thesis
  proof
    assume db: "db = reserved i (sy_db s)"
    note status = statusOf_reserved [OF confirming(4), of "sy_db s"]
    show ?thesis
    proof (cases "statusOf (sy_db s) ?i = Some ''Created''")
      case True
      have "?i \<in> set (reservedIds (sy_worker s))" using confirming(3) by (simp add: reservedIds_def)
      with True have "phases_of s ?i = Some Reserving" "phases_of (s\<lparr>sy_db := db\<rparr>) = (phases_of s)(?i \<mapsto> Confirmed)"
        by (simp_all add: phases_of_def fun_eq_iff db status)
      then show ?thesis by (simp add: lifecycle_step.confirm)
    next
      case False
      then have "statusOf db = statusOf (sy_db s)"
        unfolding db status by (cases "statusOf (sy_db s) ?i") auto
      then show ?thesis by (intro disjI1 phases_same) simp_all
    qed
  qed simp
qed

lemma system_step_refines:
  assumes "system_step J jsonb scan text_ok s s'" "system_inv J s"
  shows "phases_of s' = phases_of s \<or> lifecycle_step (phases_of s) (phases_of s')"
  using assms(1)
proof cases
  case (request env r response db)
  then show ?thesis
    using order_service_stores [OF request(2)] request_refines [OF assms(2)] by auto
next
  case (publish_created rows relay)
  then show ?thesis by (intro disjI1 phases_same) (simp_all add: statusOf_def)
next
  case (reserve r env res wdb)
  then show ?thesis using reserve_refines [OF assms(2) reserve(2)] by simp
next
  case (publish_reserved rows relay)
  have "outbox_ok (wd_outbox (sy_worker s))"
    using assms(2) by (simp add: system_inv_def reservations_ok_def worker_db_ok_def)
  with relay_step_rows [OF publish_reserved(2)] assms(2) obtain ids where
    "rows = published_in ids (wd_outbox (sy_worker s))" by (auto simp: system_inv_def)
  with publish_reserved(1) show ?thesis by (intro disjI1 phases_same) (simp_all add: reservedIds_def)
next
  case (change i fromStatus toStatus env res db)
  then show ?thesis using change_refines [OF assms(2) change(2)] by simp
qed (auto intro!: phases_same)

section \<open>Progress\<close>

text \<open>The order of a row is found.\<close>

lemma readable_found:
  assumes "orders_ok J db" "row \<in> set (db_orders db)"
  shows "\<exists>order. found scan (OrderId (ord_order_id row)) db = Inr order \<and> OrderStatus_toString (o_status order) = ord_status row"
proof -
  let ?oid = "ord_order_id row"
  have db: "order_db_ok db" "order_readable db row" using assms by (auto simp: orders_ok_def list_all_iff)
  then obtain items where items: "items \<noteq> []" "list_all wf_OrderItem items"
      "filter (\<lambda>item. itm_order_id item = ?oid) (db_order_items db) = map (item_row_of ?oid) items"
    and row: "ord_status row \<in> {''Created'', ''Reserved''}" "isValidUuid ?oid" "isValidUuid (ord_user_id row)"
    unfolding order_readable_def by blast
  obtain status where status: "ord_status row = OrderStatus_toString status"
    using row(1) by (metis OrderStatus_toString.simps(1,2) insertE singletonD)
  have canon: "pg_uuid ?oid = ?oid" using db(1) assms(2) by (simp add: order_db_ok_def list_all_iff)
  have "filter (\<lambda>row. ord_order_id row = ?oid) (db_orders db) = [row]"
    using db(1) assms(2) by (intro filter_key) (simp_all add: order_db_ok_def)
  moreover obtain items' where "traverse OrderItem_fromRow (scan (map (item_row_of ?oid) items)) = Inr items'"
      "mset items' = mset (map canonicalItem items)"
    using traverse_fromRow [OF items(2), of "scan (map (item_row_of ?oid) items)" ?oid] scan_rows by auto
  moreover from this(2) have "items' \<noteq> []" using items(1) by auto
  ultimately show ?thesis
    using row(2,3) items(3) canon
    by (simp add: found_def Order_fromRows_def id_create_defs StrongID_create_valid status Order_restore_def)
qed

abbreviation reaches :: "system \<Rightarrow> system \<Rightarrow> bool" where
  "reaches \<equiv> (system_step J jsonb scan text_ok)\<^sup>*\<^sup>*"

lemma reaches_inv: "reaches s s' \<Longrightarrow> system_inv J s \<Longrightarrow> system_inv J s'"
  by (induction rule: rtranclp_induct) (auto intro: system_step_inv)

lemma publish_created_reaches:
  "(relay_step ''orders.created'')\<^sup>*\<^sup>* (db_outbox (sy_db s), sy_created s) (rows, relay) \<Longrightarrow>
   reaches s (s\<lparr>sy_db := sy_db s\<lparr>db_outbox := rows\<rparr>, sy_created := relay\<rparr>)"
proof (induction rule: rtranclp_induct2)
  case (step rows relay rows' relay')
  have "system_step J jsonb scan text_ok (s\<lparr>sy_db := sy_db s\<lparr>db_outbox := rows\<rparr>, sy_created := relay\<rparr>)
      (s\<lparr>sy_db := sy_db s\<lparr>db_outbox := rows'\<rparr>, sy_created := relay'\<rparr>)"
    using system_step.publish_created [of "s\<lparr>sy_db := sy_db s\<lparr>db_outbox := rows\<rparr>, sy_created := relay\<rparr>" rows' relay'] step.hyps(2)
    by simp
  with step.IH show ?case by (rule rtranclp.rtrancl_into_rtrancl)
qed simp

lemma publish_reserved_reaches:
  "(relay_step ''orders.reserved'')\<^sup>*\<^sup>* (wd_outbox (sy_worker s), sy_reserved s) (rows, relay) \<Longrightarrow>
   reaches s (s\<lparr>sy_worker := sy_worker s\<lparr>wd_outbox := rows\<rparr>, sy_reserved := relay\<rparr>)"
proof (induction rule: rtranclp_induct2)
  case (step rows relay rows' relay')
  have "system_step J jsonb scan text_ok (s\<lparr>sy_worker := sy_worker s\<lparr>wd_outbox := rows\<rparr>, sy_reserved := relay\<rparr>)
      (s\<lparr>sy_worker := sy_worker s\<lparr>wd_outbox := rows'\<rparr>, sy_reserved := relay'\<rparr>)"
    using system_step.publish_reserved [of "s\<lparr>sy_worker := sy_worker s\<lparr>wd_outbox := rows\<rparr>, sy_reserved := relay\<rparr>" rows' relay'] step.hyps(2)
    by simp
  with step.IH show ?case by (rule rtranclp.rtrancl_into_rtrancl)
qed simp

section \<open>Every reachable state\<close>

lemma inv_reserved_once:
  assumes "system_inv J s"
  shows "distinct (map ob_aggregate_id (wd_outbox (sy_worker s))) \<and>
    ob_aggregate_id ` set (wd_outbox (sy_worker s)) \<subseteq> ord_order_id ` set (db_orders (sy_db s)) \<and>
    (\<forall>row \<in> set (db_orders (sy_db s)). ord_status row = ''Created'' \<or>
       ord_status row = ''Reserved'' \<and> ord_order_id row \<in> ob_aggregate_id ` set (wd_outbox (sy_worker s)))"
proof -
  have inv: "orders_ok J (sy_db s)" "reservations_ok J (sy_db s) (sy_worker s)" "confirmed_ok s"
    using assms by (simp_all add: system_inv_def)
  have "\<forall>row \<in> set (db_orders (sy_db s)). ord_status row \<in> {''Created'', ''Reserved''}"
    using inv(1) by (simp add: orders_ok_def list_all_iff order_readable_def)
  with inv(3) reservations_distinct [OF inv(1,2)] reservations_of_orders [OF inv(1,2)] show ?thesis
    by (auto simp: confirmed_ok_def reservedIds_def)
qed

lemma inv_no_order_lost:
  assumes "system_inv J s" "row \<in> set (db_orders (sy_db s))"
  shows "\<exists>event \<in> set (db_outbox (sy_db s)). ob_aggregate_id event = ord_order_id row \<and>
    (ob_published event \<longrightarrow> request_of ''orders.created'' event \<in> set (rl_topic (sy_created s))) \<and>
    (if ob_id event \<in> set (wd_processed (sy_worker s))
     then \<exists>res \<in> set (wd_outbox (sy_worker s)). ob_aggregate_id res = ord_order_id row \<and>
       (ob_published res \<longrightarrow> request_of ''orders.reserved'' res \<in> set (rl_topic (sy_reserved s)))
     else ord_status row = ''Created'')"
proof -
  have inv: "orders_ok J (sy_db s)" "reservations_ok J (sy_db s) (sy_worker s)"
    "relay_ok ''orders.created'' (db_outbox (sy_db s)) (sy_created s)" "relay_ok ''orders.reserved'' (wd_outbox (sy_worker s)) (sy_reserved s)"
    using assms(1) by (simp_all add: system_inv_def)
  obtain event where event: "event \<in> set (db_outbox (sy_db s))" "ob_aggregate_id event = ord_order_id row"
    using event_of_order [OF inv(1), of "ord_order_id row"] assms(2) by blast
  note processed = processed_iff [OF inv(1,2) event(1)]
  show ?thesis
  proof (intro bexI [of _ event] conjI)
    show "ob_published event \<longrightarrow> request_of ''orders.created'' event \<in> set (rl_topic (sy_created s))"
      using inv(3) event(1) by (simp add: relay_ok_def)
    show "if ob_id event \<in> set (wd_processed (sy_worker s))
      then \<exists>res \<in> set (wd_outbox (sy_worker s)). ob_aggregate_id res = ord_order_id row \<and>
        (ob_published res \<longrightarrow> request_of ''orders.reserved'' res \<in> set (rl_topic (sy_reserved s)))
      else ord_status row = ''Created''"
      using inv(4) inv_reserved_once [OF assms(1)] assms(2) processed event(2) by (auto simp: relay_ok_def reservedIds_def)
  qed (use event in simp_all)
qed

end

section \<open>Properties\<close>

lemmas reachable = service_libraries.reachable_inv

text \<open>C2. In every state that requests, publishers, handlers, redeliveries, failures and restarts can lead to, the
  worker has reserved no order twice and only orders that the order service stored; and an order is in status
  \<open>Reserved\<close> only when its reservation was made.\<close>

theorem orders_reserved_once:
  assumes "service_libraries J ok obj text_ok jsonb scan" "(system_step J jsonb scan text_ok)\<^sup>*\<^sup>* system_init s"
  shows "distinct (map ob_aggregate_id (wd_outbox (sy_worker s))) \<and>
    ob_aggregate_id ` set (wd_outbox (sy_worker s)) \<subseteq> ord_order_id ` set (db_orders (sy_db s)) \<and>
    (\<forall>row \<in> set (db_orders (sy_db s)). ord_status row = ''Created'' \<or>
       ord_status row = ''Reserved'' \<and> ord_order_id row \<in> ob_aggregate_id ` set (wd_outbox (sy_worker s)))"
  by (rule service_libraries.inv_reserved_once [OF assms(1) reachable [OF assms]])

theorem orders_reserved_once_witness:
  "list_all (\<lambda>row. ord_status row = ''Created'' \<or> ord_status row = ''Reserved'') (db_orders sampleDb)"
  using orders_reserved_once [OF sl.service_libraries_axioms r_into_rtranclp [of "system_step value_lib id id (\<lambda>_. True)", OF sample_posted]]
  by (auto simp: list_all_iff)

text \<open>C5. No order is lost between the services, in every such state: its event is still to be published or is in the
  topic of created orders; once the event is processed there is a reservation, still to be published or in the topic of
  reserved orders; and until then the order is in status \<open>Created\<close>.\<close>

theorem no_order_lost:
  assumes "service_libraries J ok obj text_ok jsonb scan" "(system_step J jsonb scan text_ok)\<^sup>*\<^sup>* system_init s"
    and "row \<in> set (db_orders (sy_db s))"
  shows "\<exists>event \<in> set (db_outbox (sy_db s)). ob_aggregate_id event = ord_order_id row \<and>
    (ob_published event \<longrightarrow> request_of ''orders.created'' event \<in> set (rl_topic (sy_created s))) \<and>
    (if ob_id event \<in> set (wd_processed (sy_worker s))
     then \<exists>res \<in> set (wd_outbox (sy_worker s)). ob_aggregate_id res = ord_order_id row \<and>
       (ob_published res \<longrightarrow> request_of ''orders.reserved'' res \<in> set (rl_topic (sy_reserved s)))
     else ord_status row = ''Created'')"
  by (rule service_libraries.inv_no_order_lost [OF assms(1) reachable [OF assms(1,2)] assms(3)])

lemma sampleDb_order: "\<exists>row. row \<in> set (db_orders sampleDb) \<and> ord_order_id row = pg_uuid sampleUuid"
  by (simp add: sampleDb_def saved_def order_db_init_def)

theorem no_order_lost_witness: "\<exists>event \<in> set (db_outbox sampleDb). ob_aggregate_id event = pg_uuid sampleUuid"
proof -
  obtain row where "row \<in> set (db_orders sampleDb)" "ord_order_id row = pg_uuid sampleUuid" using sampleDb_order by blast
  with no_order_lost [OF sl.service_libraries_axioms r_into_rtranclp [of "system_step value_lib id id (\<lambda>_. True)", OF sample_posted], of row]
  show ?thesis by auto
qed

text \<open>C11. The system refines the life of orders as specified: whatever step is taken in such a state, nothing changes
  for the orders, or one new order is placed, one placed order gets its reservation, or one with a reservation is
  confirmed.\<close>

theorem system_refines_lifecycle:
  assumes "service_libraries J ok obj text_ok jsonb scan" "(system_step J jsonb scan text_ok)\<^sup>*\<^sup>* system_init s"
    and "system_step J jsonb scan text_ok s s'"
  shows "phases_of s' = phases_of s \<or> lifecycle_step (phases_of s) (phases_of s')"
  by (rule service_libraries.system_step_refines [OF assms(1,3) reachable [OF assms(1,2)]])

theorem system_refines_lifecycle_witness:
  "phases_of (system_init\<lparr>sy_db := sampleDb\<rparr>) = phases_of system_init \<or>
   lifecycle_step (phases_of system_init) (phases_of (system_init\<lparr>sy_db := sampleDb\<rparr>))"
  using system_refines_lifecycle [OF sl.service_libraries_axioms _ sample_posted] by simp

end
