(* ===== verification/OrderDelivery.thy ===== *)
theory OrderDelivery
  imports Delivery OrderLifecycle
begin

text \<open>
  The two consumers of the system with their handlers: the worker, which reads \<open>orders.created\<close>, and the order
  service, which reads \<open>orders.reserved\<close>. The state that a handler works on is the whole system; what others do to it meanwhile
  are the steps of \<open>OrderSystem\<close>, and each call of a handler is such steps too. Both keep the promise \<open>event_handler\<close>, so
  that what a service has committed to the broker has been done; and what it has not committed can be delivered again.
\<close>

section \<open>The handlers on the system\<close>

definition worker_handle ::
  "'j json_lib \<Rightarrow> (string \<Rightarrow> string) \<Rightarrow> string \<Rightarrow> MessageMetadata \<Rightarrow> tx_env \<Rightarrow> system \<Rightarrow> handler_result \<times> system" where
  "worker_handle J jsonb payload metadata env s =
     (case OrderReservationHandler_handle J jsonb process payload metadata env (sy_worker s) of
        (res, wdb) \<Rightarrow> (res, s\<lparr>sy_worker := wdb\<rparr>))"

text \<open>Between the two transactions of the order service's handler others go on (\<open>meanwhile\<close>).\<close>

type_synonym confirm_env = "tx_env \<times> tx_env \<times> (system \<Rightarrow> system)"

definition order_handle ::
  "'j json_lib \<Rightarrow> (item_row list \<Rightarrow> item_row list) \<Rightarrow> string \<Rightarrow> MessageMetadata \<Rightarrow> confirm_env \<Rightarrow> system \<Rightarrow> handler_result \<times> system" where
  "order_handle J scan payload metadata env s =
     (case env of (findEnv, changeEnv, meanwhile) \<Rightarrow>
        case confirm_read J scan payload findEnv (sy_db s) of
          Answer res \<Rightarrow> (res, s)
        | Change i fromStatus toStatus \<Rightarrow>
            let s1 = meanwhile (s\<lparr>sy_confirming := sy_confirming s @ [(i, fromStatus, toStatus)]\<rparr>) in
            (case confirm_change i fromStatus toStatus changeEnv (sy_db s1) of (res, db) \<Rightarrow> (res, s1\<lparr>sy_db := db\<rparr>)))"

text \<open>What others do are steps of the system, in which this process is not restarted.\<close>

definition confirm_env_ok ::
  "'j json_lib \<Rightarrow> (item_row list \<Rightarrow> item_row list) \<Rightarrow> (system \<Rightarrow> system \<Rightarrow> bool) \<Rightarrow> string \<Rightarrow> confirm_env \<Rightarrow> system \<Rightarrow> bool" where
  "confirm_env_ok J scan others payload env s \<longleftrightarrow>
     (case env of (findEnv, changeEnv, meanwhile) \<Rightarrow>
        case confirm_read J scan payload findEnv (sy_db s) of
          Answer _ \<Rightarrow> True
        | Change i fromStatus toStatus \<Rightarrow>
            let s0 = s\<lparr>sy_confirming := sy_confirming s @ [(i, fromStatus, toStatus)]\<rparr> in
            others s0 (meanwhile s0) \<and> (i, fromStatus, toStatus) \<in> set (sy_confirming (meanwhile s0)))"

text \<open>A record of a topic, at some partition and offset, and the effects of the two kinds of records.\<close>

definition in_topic :: "PublishRequest list \<Rightarrow> IncomingRecord \<Rightarrow> bool" where
  "in_topic requests rec \<longleftrightarrow> (\<exists>request \<in> set requests. \<exists>p off. rec = incoming_of (delivered (producerRecord request) p off))"

lemma in_topic_mono: "in_topic requests rec \<Longrightarrow> set requests \<subseteq> set requests' \<Longrightarrow> in_topic requests' rec"
  unfolding in_topic_def by blast

definition order_is_reserved :: "IncomingRecord \<Rightarrow> system \<Rightarrow> bool" where
  "order_is_reserved rec s \<longleftrightarrow>
     (\<exists>event \<in> set (db_outbox (sy_db s)). ir_eventId rec = Some (ob_id event) \<and>
        ob_aggregate_id event \<in> set (reservedIds (sy_worker s)))"

definition order_is_confirmed :: "IncomingRecord \<Rightarrow> system \<Rightarrow> bool" where
  "order_is_confirmed rec s \<longleftrightarrow>
     (\<exists>reservation \<in> set (wd_outbox (sy_worker s)). ir_eventId rec = Some (ob_id reservation) \<and>
        statusOf (sy_db s) (ob_aggregate_id reservation) = Some ''Reserved'')"

section \<open>What the steps of the system keep\<close>

abbreviation outbox_ids :: "outbox_row list \<Rightarrow> (string \<times> string) set" where
  "outbox_ids rows \<equiv> (\<lambda>row. (ob_id row, ob_aggregate_id row)) ` set rows"

lemma order_is_reserved_iff:
  "order_is_reserved rec s \<longleftrightarrow>
     (\<exists>key i. ir_eventId rec = Some key \<and> (key, i) \<in> outbox_ids (db_outbox (sy_db s)) \<and> i \<in> set (reservedIds (sy_worker s)))"
  by (auto simp: order_is_reserved_def)

lemma order_is_confirmed_iff:
  "order_is_confirmed rec s \<longleftrightarrow>
     (\<exists>key i. ir_eventId rec = Some key \<and> (key, i) \<in> outbox_ids (wd_outbox (sy_worker s)) \<and> statusOf (sy_db s) i = Some ''Reserved'')"
  by (auto simp: order_is_confirmed_def)

lemma reservedIds_ids: "set (reservedIds wdb) = snd ` outbox_ids (wd_outbox wdb)"
  by (simp add: reservedIds_def image_image)

definition system_grows :: "system \<Rightarrow> system \<Rightarrow> bool" where
  "system_grows s s' \<longleftrightarrow>
     outbox_ids (db_outbox (sy_db s)) \<subseteq> outbox_ids (db_outbox (sy_db s')) \<and>
     outbox_ids (wd_outbox (sy_worker s)) \<subseteq> outbox_ids (wd_outbox (sy_worker s')) \<and>
     set (rl_topic (sy_created s)) \<subseteq> set (rl_topic (sy_created s')) \<and>
     set (rl_topic (sy_reserved s)) \<subseteq> set (rl_topic (sy_reserved s')) \<and>
     (\<forall>i. statusOf (sy_db s) i = Some ''Reserved'' \<longrightarrow> statusOf (sy_db s') i = Some ''Reserved'')"

lemma relay_step_topic: "relay_step t (rows, relay) (rows', relay') \<Longrightarrow> set (rl_topic relay) \<subseteq> set (rl_topic relay')"
  by (erule relay_step.cases) auto

lemma statusOf_outbox [simp]: "statusOf (db\<lparr>db_outbox := rows\<rparr>) = statusOf db"
  by (simp add: statusOf_def)

context service_libraries
begin

lemma stores_grows:
  assumes "stores J jsonb env (sy_db s) db"
  shows "system_grows s (s\<lparr>sy_db := db\<rparr>)"
proof -
  obtain order oid bid where "oid \<notin> ord_order_id ` set (db_orders (sy_db s))" "db = saved J jsonb order oid bid (sy_db s)"
    using assms by (auto simp: stores_def Let_def)
  moreover from this(1) have "statusOf (sy_db s) oid = None" by (simp add: statusOf_dom)
  moreover have "set (db_outbox (sy_db s)) \<subseteq> set (db_outbox (saved J jsonb order oid bid (sy_db s)))" by (auto simp: saved_def)
  ultimately show ?thesis by (auto simp: system_grows_def statusOf_saved)
qed

lemma system_step_grows:
  assumes "system_step J jsonb scan text_ok s s'" "system_inv J s"
  shows "system_grows s s'"
  using assms(1)
proof cases
  case (request env r response db)
  from order_service_stores [OF request(2)] request(1) show ?thesis
    by (auto intro: stores_grows) (simp add: system_grows_def)
next
  case (publish_created rows relay)
  have "outbox_ok (db_outbox (sy_db s))" using assms(2) by (simp add: system_inv_def orders_ok_def order_db_ok_def)
  with relay_step_rows [OF publish_created(2)] assms(2) obtain ids where "rows = published_in ids (db_outbox (sy_db s))"
    by (auto simp: system_inv_def)
  then show ?thesis
    using publish_created(1) relay_step_topic [OF publish_created(2)] by (simp add: system_grows_def published_in_image)
next
  case (reserve r env res wdb)
  obtain row where row: "row \<in> set (db_outbox (sy_db s))" "r = request_of ''orders.created'' row"
    using assms(2) reserve(2) by (auto simp: system_inv_def relay_ok_def)
  have "orders_ok J (sy_db s)" using assms(2) by (simp add: system_inv_def)
  from this row(1) reserve(3) [unfolded row(2)] show ?thesis
    by (cases rule: reserve_cases) (use reserve(1) in \<open>auto simp: system_grows_def\<close>)
next
  case (publish_reserved rows relay)
  have "outbox_ok (wd_outbox (sy_worker s))" using assms(2) by (simp add: system_inv_def reservations_ok_def worker_db_ok_def)
  with relay_step_rows [OF publish_reserved(2)] assms(2) obtain ids where "rows = published_in ids (wd_outbox (sy_worker s))"
    by (auto simp: system_inv_def)
  then show ?thesis
    using publish_reserved(1) relay_step_topic [OF publish_reserved(2)] by (simp add: system_grows_def published_in_image)
next
  case (change i fromStatus toStatus env res db)
  note confirming = confirming_reserved [OF assms(2) change(2)]
  have "db = sy_db s \<or> db = reserved i (sy_db s)"
    using change(3) changeStatus_reserved confirming by (auto simp: confirm_change_def split: prod.splits sum.splits)
  moreover have "db_outbox (reserved i (sy_db s)) = db_outbox (sy_db s)" by (simp add: reserved_def)
  moreover have "statusOf (reserved i (sy_db s)) j = Some ''Reserved''" if "statusOf (sy_db s) j = Some ''Reserved''" for j
    using that by (cases "j = orderId_value i") (simp_all add: statusOf_reserved [OF confirming(4)])
  ultimately show ?thesis using change(1) by (auto simp: system_grows_def)
qed (simp_all add: system_grows_def)

lemma reaches_grows: "reaches s s' \<Longrightarrow> system_inv J s \<Longrightarrow> system_grows s s'"
proof (induction rule: rtranclp_induct)
  case (step s1 s2)
  then have "system_grows s1 s2" by (intro system_step_grows reaches_inv [of s s1])
  with step show ?case unfolding system_grows_def by (meson subset_trans)
qed (simp add: system_grows_def)

lemma topic_row:
  assumes "relay_ok t rows relay" "outbox_ok rows" "in_topic (rl_topic relay) rec"
  shows "\<exists>row \<in> set rows. request_of t row \<in> set (rl_topic relay) \<and> ir_payload rec = ob_payload row \<and> ir_eventId rec = Some (ob_id row) \<and>
    eventIdOf rec = Some (OutboxEventId (ob_id row)) \<and>
    pq_metadata (request_of t row) = \<lparr>mm_eventId = OutboxEventId (ob_id row), mm_eventType = ir_eventType rec\<rparr>"
proof -
  obtain request p off where request: "request \<in> set (rl_topic relay)" "rec = incoming_of (delivered (producerRecord request) p off)"
    using assms(3) by (auto simp: in_topic_def)
  then obtain row where row: "row \<in> set rows" "request = request_of t row" using assms(1) by (auto simp: relay_ok_def)
  then have "isValidUuid (ob_id row)" using assms(2) by (auto simp: outbox_ok_def list_all_iff)
  with request row show ?thesis
    by (intro bexI [of _ row]) (simp_all add: incoming_delivered request_of_def outboxRequest_def entry_of_def eventIdOf_def
        OutboxEventId_create_def StrongID_create_valid)
qed

lemma worker_record:
  assumes "system_inv J s" "in_topic (rl_topic (sy_created s)) rec"
  obtains row where "row \<in> set (db_outbox (sy_db s))" "request_of ''orders.created'' row \<in> set (rl_topic (sy_created s))"
    "ir_payload rec = pq_payload (request_of ''orders.created'' row)" "ir_eventId rec = Some (ob_id row)"
    "eventIdOf rec = Some (OutboxEventId (ob_id row))"
    "pq_metadata (request_of ''orders.created'' row) = \<lparr>mm_eventId = OutboxEventId (ob_id row), mm_eventType = ir_eventType rec\<rparr>"
proof -
  have "relay_ok ''orders.created'' (db_outbox (sy_db s)) (sy_created s)" "outbox_ok (db_outbox (sy_db s))"
    using assms(1) by (simp_all add: system_inv_def orders_ok_def order_db_ok_def)
  from topic_row [OF this assms(2)] that show ?thesis by (auto simp: request_of_def outboxRequest_def entry_of_def)
qed

text \<open>A call of the worker's handler is a step of the system, and when it answers \<open>true\<close> the order has its reservation.\<close>

lemma worker_handle_step:
  assumes "system_inv J s" "in_topic (rl_topic (sy_created s)) rec" "eventIdOf rec = Some i" "uuids_ok env"
    and "worker_handle J jsonb (ir_payload rec) \<lparr>mm_eventId = i, mm_eventType = ir_eventType rec\<rparr> env s = (res, s')"
  shows "system_step J jsonb scan text_ok s s'" and "res = Returned True \<Longrightarrow> order_is_reserved rec s'"
proof -
  obtain row where row: "row \<in> set (db_outbox (sy_db s))" "request_of ''orders.created'' row \<in> set (rl_topic (sy_created s))"
      "ir_payload rec = pq_payload (request_of ''orders.created'' row)" "ir_eventId rec = Some (ob_id row)"
      "eventIdOf rec = Some (OutboxEventId (ob_id row))"
      "pq_metadata (request_of ''orders.created'' row) = \<lparr>mm_eventId = OutboxEventId (ob_id row), mm_eventType = ir_eventType rec\<rparr>"
    by (rule worker_record [OF assms(1,2)])
  let ?r = "request_of ''orders.created'' row"
  obtain wdb where handled: "OrderReservationHandler_handle J jsonb process (pq_payload ?r) (pq_metadata ?r) env (sy_worker s) = (res, wdb)"
    and s': "s' = s\<lparr>sy_worker := wdb\<rparr>"
    using assms(3,5) row(3,5,6) by (auto simp: worker_handle_def split: prod.splits)
  show step: "system_step J jsonb scan text_ok s s'" unfolding s' by (rule system_step.reserve [OF row(2) handled assms(4)])
  have orders: "orders_ok J (sy_db s)" using assms(1) by (simp add: system_inv_def)
  obtain r where r: "reservation_of J (process, pq_payload ?r, pq_metadata ?r) = Some r" "reservationKey r = ob_id row"
    using created_record [OF orders row(1)] by blast
  show "order_is_reserved rec s'" if true: "res = Returned True"
  proof -
    obtain answer where answer: "recordReservationIfNew jsonb r env (sy_worker s) = (answer, wdb)" "res = Returned (has_value answer)"
      using handled handle_Some [OF r(1), of jsonb env "sy_worker s"] by (auto split: prod.splits)
    then obtain b where "recordReservationIfNew jsonb r env (sy_worker s) = (Inr b, wdb)"
      using true by (cases answer) auto
    then have "ob_id row \<in> set (wd_processed wdb)"
      using wr.new [of jsonb r env "sy_worker s" wdb] wr.duplicate [of jsonb r env "sy_worker s" wdb] r(2) by (cases b) auto
    moreover have "orders_ok J (sy_db s')" "reservations_ok J (sy_db s') (sy_worker s')"
      using system_step_inv [OF step assms(1)] by (simp_all add: system_inv_def)
    ultimately show ?thesis
      using processed_iff [of "sy_db s" wdb row] row(1,4) by (auto simp: order_is_reserved_def s')
  qed
qed

lemma worker_event_handler:
  "event_handler (worker_handle J jsonb) (\<lambda>_ env _. uuids_ok env) reaches (\<lambda>rec s. in_topic (rl_topic (sy_created s)) rec)
     order_is_reserved (system_inv J)"
proof unfold_locales
  fix s s' rec
  assume step: "reaches s s'" "system_inv J s"
  note grows = reaches_grows [OF step]
  show "system_inv J s'" by (rule reaches_inv [OF step])
  show "in_topic (rl_topic (sy_created s')) rec" if "in_topic (rl_topic (sy_created s)) rec"
    using that grows in_topic_mono by (auto simp: system_grows_def)
  show "order_is_reserved rec s'" if "order_is_reserved rec s"
    using that grows unfolding order_is_reserved_iff reservedIds_ids system_grows_def by blast
qed (use worker_handle_step in \<open>blast+\<close>)

section \<open>The order service\<close>

lemma order_record:
  assumes "system_inv J s" "in_topic (rl_topic (sy_reserved s)) rec"
  obtains row where "row \<in> set (wd_outbox (sy_worker s))" "request_of ''orders.reserved'' row \<in> set (rl_topic (sy_reserved s))"
    "ir_payload rec = ob_payload row" "ir_eventId rec = Some (ob_id row)"
    "reservedOrder J (ob_payload row) = Some (OrderId (ob_aggregate_id row))"
    "ob_aggregate_id row \<in> ord_order_id ` set (db_orders (sy_db s))"
proof -
  have inv: "relay_ok ''orders.reserved'' (wd_outbox (sy_worker s)) (sy_reserved s)" "outbox_ok (wd_outbox (sy_worker s))"
    "orders_ok J (sy_db s)" "reservations_ok J (sy_db s) (sy_worker s)"
    using assms(1) by (simp_all add: system_inv_def reservations_ok_def worker_db_ok_def)
  from topic_row [OF inv(1,2) assms(2)] that reservation_aggregate [OF inv(3,4)] show ?thesis by blast
qed

text \<open>The first transaction, on the order of a reservation: it is found \<open>Reserved\<close>, or is to be changed, or cannot be read now.\<close>

lemma confirm_read_cases:
  assumes "orders_ok J db" "reservedOrder J payload = Some (OrderId i)" "i \<in> ord_order_id ` set (db_orders db)"
  obtains (confirmed) "confirm_read J scan payload env db = Answer (Returned True)" "statusOf db i = Some ''Reserved''"
  | (created) "confirm_read J scan payload env db = Change (OrderId i) Created Reserved"
  | (unreadable) "confirm_read J scan payload env db = Answer (Returned False)"
proof -
  obtain json event where event: "jl_parse J payload = Inr json" "order_OrderReservedEvent_fromJson J json = Inr event" "ore_orderId event = OrderId i"
    using assms(2) by (auto simp: reservedOrder_def split: sum.splits)
  obtain row where row: "row \<in> set (db_orders db)" "ord_order_id row = i" using assms(3) by auto
  obtain order where order: "found scan (OrderId i) db = Inr order" "OrderStatus_toString (o_status order) = ord_status row"
    using readable_found [OF assms(1) row(1)] row(2) by auto
  have status: "statusOf db i = Some (ord_status row)" "ord_status row \<in> {''Created'', ''Reserved''}"
    using row statusOf_row [of db i] assms(1) by (auto simp: orders_ok_def list_all_iff order_readable_def)
  consider "fst (findById scan (OrderId i) env db) = Inr order" | e where "fst (findById scan (OrderId i) env db) = Inl (mapPqxxException e)"
    using findById_cases [of scan "OrderId i" env db] order(1) by (metis prod.collapse)
  then show ?thesis
  proof cases
    case 1
    then show ?thesis
      using event order(2) status confirmed created
      by (cases "o_status order") (auto simp: confirm_read_def markReserved_def)
  next
    case (2 e)
    then show ?thesis using event unreadable mapPqxxException_not_NotFound [of e] by (simp add: confirm_read_def)
  qed
qed

text \<open>The second transaction: when it answers \<open>true\<close> the order is \<open>Reserved\<close>.\<close>

lemma confirm_change_true:
  assumes "system_inv J s" "(OrderId i, Created, Reserved) \<in> set (sy_confirming s)"
    and "confirm_change (OrderId i) Created Reserved env (sy_db s) = (Returned True, db)"
  shows "statusOf db i = Some ''Reserved''"
proof -
  have "changeStatus (OrderId i) Created Reserved env (sy_db s) = (Inr True, db)"
    using assms(3) by (auto simp: confirm_change_def split: prod.splits sum.splits)
  from changeStatus_reserved [OF this]
  have db: "db = reserved (OrderId i) (sy_db s)" "list_ex (isCreated (OrderId i)) (db_orders (sy_db s))" by simp_all
  have id: "pg_uuid i = i" using confirming_reserved(4) [OF assms(1,2)] by simp
  have "statusOf (sy_db s) i = Some ''Created''"
    using db(2) id assms(1) statusOf_row [of "sy_db s" i] by (auto simp: list_ex_iff isCreated_def system_inv_def orders_ok_def)
  then show ?thesis using statusOf_reserved [of "OrderId i" "sy_db s"] id by (simp add: db(1))
qed

lemma order_handle_steps:
  assumes "system_inv J s" "in_topic (rl_topic (sy_reserved s)) rec"
    and "confirm_env_ok J scan reaches (ir_payload rec) env s" "order_handle J scan (ir_payload rec) metadata env s = (res, s')"
  shows "reaches s s' \<and> (res = Returned True \<longrightarrow> order_is_confirmed rec s')"
proof -
  obtain row where row: "row \<in> set (wd_outbox (sy_worker s))" "request_of ''orders.reserved'' row \<in> set (rl_topic (sy_reserved s))"
      "ir_payload rec = ob_payload row" "ir_eventId rec = Some (ob_id row)"
      "reservedOrder J (ob_payload row) = Some (OrderId (ob_aggregate_id row))"
      "ob_aggregate_id row \<in> ord_order_id ` set (db_orders (sy_db s))"
    by (rule order_record [OF assms(1,2)])
  let ?i = "ob_aggregate_id row"
  obtain findEnv changeEnv meanwhile where env: "env = (findEnv, changeEnv, meanwhile)" by (cases env)
  have orders: "orders_ok J (sy_db s)" using assms(1) by (simp add: system_inv_def)
  from orders row(5,6) show ?thesis
  proof (cases rule: confirm_read_cases [of _ _ _ findEnv])
    case confirmed
    then show ?thesis
      using assms(4) row(1,3,4) by (auto simp: order_handle_def env order_is_confirmed_def)
  next
    case unreadable
    then show ?thesis using assms(4) row(3) by (auto simp: order_handle_def env)
  next
    case created
    let ?s0 = "s\<lparr>sy_confirming := sy_confirming s @ [(OrderId ?i, Created, Reserved)]\<rparr>"
    let ?s1 = "meanwhile ?s0"
    have meanwhile: "reaches ?s0 ?s1" "(OrderId ?i, Created, Reserved) \<in> set (sy_confirming ?s1)"
      using assms(3) created row(3) by (simp_all add: confirm_env_ok_def env Let_def)
    obtain db where change: "confirm_change (OrderId ?i) Created Reserved changeEnv (sy_db ?s1) = (res, db)" "s' = ?s1\<lparr>sy_db := db\<rparr>"
      using assms(4) created row(3) by (auto simp: order_handle_def env Let_def split: prod.splits)
    have "system_step J jsonb scan text_ok s ?s0"
      using system_step.read [OF row(2), of J scan findEnv] created by (simp add: request_of_def outboxRequest_def entry_of_def)
    then have s1: "reaches s ?s1" using meanwhile(1) by (rule converse_rtranclp_into_rtranclp)
    moreover have step: "system_step J jsonb scan text_ok ?s1 s'" unfolding change(2) by (rule system_step.change [OF meanwhile(2) change(1)])
    ultimately have s': "reaches s s'" by (rule rtranclp.rtrancl_into_rtrancl)
    have "order_is_confirmed rec s'" if true: "res = Returned True"
    proof -
      have "statusOf (sy_db s') ?i = Some ''Reserved''"
        using confirm_change_true [OF reaches_inv [OF s1 assms(1)] meanwhile(2) change(1) [unfolded true]] by (simp add: change(2))
      moreover have "(ob_id row, ?i) \<in> outbox_ids (wd_outbox (sy_worker s'))"
        using reaches_grows [OF s' assms(1)] row(1) by (force simp: system_grows_def)
      ultimately show ?thesis using row(4) by (auto simp: order_is_confirmed_iff)
    qed
    with s' show ?thesis by blast
  qed
qed

lemma order_event_handler:
  "event_handler (order_handle J scan) (confirm_env_ok J scan reaches) reaches (\<lambda>rec s. in_topic (rl_topic (sy_reserved s)) rec)
     order_is_confirmed (system_inv J)"
proof unfold_locales
  fix s s' rec
  assume step: "reaches s s'" "system_inv J s"
  note grows = reaches_grows [OF step]
  show "system_inv J s'" by (rule reaches_inv [OF step])
  show "in_topic (rl_topic (sy_reserved s')) rec" if "in_topic (rl_topic (sy_reserved s)) rec"
    using that grows in_topic_mono by (auto simp: system_grows_def)
  show "order_is_confirmed rec s'" if "order_is_confirmed rec s"
    using that grows unfolding order_is_confirmed_iff system_grows_def by blast
qed (use order_handle_steps in \<open>blast+\<close>)

text \<open>When nothing fails both handlers answer \<open>true\<close>.\<close>

lemma worker_handle_succeeds:
  assumes "system_inv J s" "row \<in> set (db_outbox (sy_db s))" "pg_uuid uuid \<notin> ob_id ` set (wd_outbox (sy_worker s))"
  shows "fst (worker_handle J jsonb (pq_payload (request_of t row)) (pq_metadata (request_of t row)) (no_faults (\<lambda>_. uuid)) s) = Returned True"
proof -
  have "orders_ok J (sy_db s)" using assms(1) by (simp add: system_inv_def)
  then obtain r where r: "reservation_of J (process, pq_payload (request_of t row), pq_metadata (request_of t row)) = Some r"
    using created_record [OF _ assms(2), of t] by blast
  have "\<exists>b. fst (recordReservationIfNew jsonb r (no_faults (\<lambda>_. uuid)) (sy_worker s)) = Inr b"
  proof (cases "reservationKey r \<in> set (wd_processed (sy_worker s))")
    case True
    then show ?thesis by (auto simp: recordReservation_duplicate)
  next
    case False
    with assms(3) show ?thesis by (auto simp: recordReservation_ok)
  qed
  then show ?thesis
    using handle_Some [OF r, of jsonb "no_faults (\<lambda>_. uuid)" "sy_worker s"] by (auto simp: worker_handle_def split: prod.splits)
qed

lemma order_handle_succeeds:
  assumes "system_inv J s" "reservation \<in> set (wd_outbox (sy_worker s))"
  shows "fst (order_handle J scan (ob_payload reservation) metadata (no_faults uuids, no_faults uuids', id) s) = Returned True"
    and "confirm_env_ok J scan reaches (ob_payload reservation) (no_faults uuids, no_faults uuids', id) s"
proof -
  let ?i = "ob_aggregate_id reservation"
  have inv: "orders_ok J (sy_db s)" "reservations_ok J (sy_db s) (sy_worker s)" "order_db_ok (sy_db s)"
    using assms(1) by (simp_all add: system_inv_def orders_ok_def)
  note res = reservation_aggregate [OF inv(1,2) assms(2)]
  then obtain row where row: "row \<in> set (db_orders (sy_db s))" "ord_order_id row = ?i" by auto
  have i: "pg_uuid ?i = ?i" using inv(3) row by (auto simp: order_db_ok_def list_all_iff)
  show "confirm_env_ok J scan reaches (ob_payload reservation) (no_faults uuids, no_faults uuids', id) s"
    by (simp add: confirm_env_ok_def Let_def split: confirmation.split)
  have found: "fst (findById scan (OrderId ?i) (no_faults uuids) (sy_db s)) = found scan (OrderId ?i) (sy_db s)"
    by (simp add: findById_no_faults)
  from inv(1) res [THEN conjunct1] res [THEN conjunct2]
  show "fst (order_handle J scan (ob_payload reservation) metadata (no_faults uuids, no_faults uuids', id) s) = Returned True"
  proof (cases rule: confirm_read_cases [of _ _ _ "no_faults uuids"])
    case created
    obtain order where order: "found scan (OrderId ?i) (sy_db s) = Inr order" "OrderStatus_toString (o_status order) = ord_status row"
      using readable_found [OF inv(1) row(1)] row(2) by auto
    have "o_status order = Created"
      using created res [THEN conjunct1] found order(1)
      by (auto simp: confirm_read_def reservedOrder_def split: sum.splits prod.splits if_splits)
    then have "list_ex (isCreated (OrderId ?i)) (db_orders (sy_db s))"
      using order(2) row i by (auto simp: list_ex_iff isCreated_def)
    then show ?thesis
      using created by (simp add: order_handle_def confirm_change_def changeStatus_no_faults)
  next
    case unreadable
    then show ?thesis
      using res [THEN conjunct1] found readable_found [OF inv(1) row(1)] row(2)
      by (auto simp: confirm_read_def reservedOrder_def split: sum.splits prod.splits if_splits)
  qed (simp add: order_handle_def)
qed

end

text \<open>Both services keep the promise of a handler.\<close>

sublocale service_libraries \<subseteq> worker_consumer: event_handler "worker_handle J jsonb" "\<lambda>_ env _. uuids_ok env" reaches
  "\<lambda>rec s. in_topic (rl_topic (sy_created s)) rec" order_is_reserved "system_inv J"
  by (rule worker_event_handler)

sublocale service_libraries \<subseteq> order_consumer: event_handler "order_handle J scan" "confirm_env_ok J scan reaches" reaches
  "\<lambda>rec s. in_topic (rl_topic (sy_reserved s)) rec" order_is_confirmed "system_inv J"
  by (rule order_event_handler)

section \<open>The services\<close>

text \<open>The consumer of each service in the system.\<close>

definition worker_service_step ::
  "'j json_lib \<Rightarrow> (string \<Rightarrow> string) \<Rightarrow> (item_row list \<Rightarrow> item_row list) \<Rightarrow> (string \<Rightarrow> bool) \<Rightarrow>
   system consumer_state \<Rightarrow> system consumer_state \<Rightarrow> bool" where
  "worker_service_step J jsonb scan text_ok =
     delivery_step (worker_handle J jsonb) (\<lambda>_ env _. uuids_ok env) (system_step J jsonb scan text_ok)\<^sup>*\<^sup>*
       (\<lambda>rec s. in_topic (rl_topic (sy_created s)) rec)"

definition order_service_step ::
  "'j json_lib \<Rightarrow> (string \<Rightarrow> string) \<Rightarrow> (item_row list \<Rightarrow> item_row list) \<Rightarrow> (string \<Rightarrow> bool) \<Rightarrow>
   system consumer_state \<Rightarrow> system consumer_state \<Rightarrow> bool" where
  "order_service_step J jsonb scan text_ok =
     delivery_step (order_handle J scan) (confirm_env_ok J scan (system_step J jsonb scan text_ok)\<^sup>*\<^sup>*) (system_step J jsonb scan text_ok)\<^sup>*\<^sup>*
       (\<lambda>rec s. in_topic (rl_topic (sy_reserved s)) rec)"

text \<open>A service that nobody disturbs: no records arrive, and others do nothing, also not while its handler runs.\<close>

definition worker_alone :: "'j json_lib \<Rightarrow> (string \<Rightarrow> string) \<Rightarrow> system consumer_state \<Rightarrow> system consumer_state \<Rightarrow> bool" where
  "worker_alone J jsonb = delivery_step (worker_handle J jsonb) (\<lambda>_ env _. uuids_ok env) (\<lambda>_ _. False) (\<lambda>_ _. False)"

definition order_alone :: "'j json_lib \<Rightarrow> (item_row list \<Rightarrow> item_row list) \<Rightarrow> system consumer_state \<Rightarrow> system consumer_state \<Rightarrow> bool" where
  "order_alone J scan = delivery_step (order_handle J scan) (confirm_env_ok J scan (=)) (\<lambda>_ _. False) (\<lambda>_ _. False)"

lemmas service_step_defs = worker_service_step_def order_service_step_def

text \<open>Records of the topics have event ids, so that none is skipped.\<close>

lemma in_topic_eventId:
  assumes "in_topic (rl_topic relay) rec" "relay_ok t rows relay" "outbox_ok rows"
  shows "eventIdOf rec \<noteq> None"
proof -
  obtain request p off where request: "request \<in> set (rl_topic relay)" "rec = incoming_of (delivered (producerRecord request) p off)"
    using assms(1) by (auto simp: in_topic_def)
  then obtain row where "row \<in> set rows" "request = request_of t row" using assms(2) by (auto simp: relay_ok_def)
  with request(2) assms(3) show ?thesis
    by (auto simp: incoming_delivered request_of_def outboxRequest_def entry_of_def eventIdOf_def OutboxEventId_create_def
        StrongID_create_valid outbox_ok_def list_all_iff)
qed

lemma system_inv_outboxes:
  assumes "system_inv J s"
  shows "relay_ok ''orders.created'' (db_outbox (sy_db s)) (sy_created s)" "outbox_ok (db_outbox (sy_db s))"
    and "relay_ok ''orders.reserved'' (wd_outbox (sy_worker s)) (sy_reserved s)" "outbox_ok (wd_outbox (sy_worker s))"
  using assms by (simp_all add: system_inv_def orders_ok_def order_db_ok_def reservations_ok_def worker_db_ok_def)

section \<open>A run\<close>

text \<open>A published event as the record that the sample run of the consumer reads.\<close>

definition sampleUuid1 :: string where
  "sampleUuid1 = ''00000000-0000-4000-8000-000000000001''"

lemma sampleUuid1_ok: "isValidUuid sampleUuid1" "pg_uuid sampleUuid1 = sampleUuid1"
  by code_simp+

lemma sample_record:
  assumes "ob_id row = sampleUuid1"
  shows "deliveredMetadata (ob_event_type row) = pq_metadata (request_of t row)"
    and "request_of t row \<in> set requests \<Longrightarrow> in_topic requests (sampleIncoming t (ob_payload row) (ob_event_type row))"
  using assms
  by (auto simp: deliveredMetadata_def sampleIncoming_def sampleUuid1_def request_of_def outboxRequest_def entry_of_def in_topic_def
      incoming_delivered intro!: bexI [of _ "request_of t row"] exI [of _ "0 :: int"] exI [of _ "7 :: int"])

text \<open>The sample order is published, \<close>

lemma sample_published:
  obtains s event where "sl.reaches system_init s" "system_inv value_lib s" "sy_db s = sampleDb" "sy_worker s = worker_db_init"
    "event \<in> set (db_outbox sampleDb)" "ob_id event = sampleUuid1" "request_of ''orders.created'' event \<in> set (rl_topic (sy_created s))"
proof -
  let ?s = "system_init\<lparr>sy_db := sampleDb\<rparr>"
  note posted = r_into_rtranclp [of "system_step value_lib id id (\<lambda>_. True)", OF sample_posted]
  note inv = sl.reaches_inv [OF posted system_inv_init]
  obtain event where event: "event \<in> set (db_outbox sampleDb)" "ob_id event = sampleUuid1"
    by (auto simp: sampleDb_def saved_def order_db_init_def sampleUuid1_def)
  then obtain relay where relay:
      "(relay_step ''orders.created'')\<^sup>*\<^sup>* (db_outbox (sy_db ?s), sy_created ?s) (db_outbox (sy_db ?s), relay)"
      "request_of ''orders.created'' event \<in> set (rl_topic relay)"
    using relay_delivers [OF system_inv_outboxes(2,1) [OF inv]] by auto
  let ?s' = "?s\<lparr>sy_created := relay\<rparr>"
  have step: "sl.reaches system_init ?s'" using posted sl.publish_created_reaches [OF relay(1)] by simp
  show ?thesis
    by (rule that [OF step sl.reaches_inv [OF step system_inv_init] _ _ event]) (simp_all add: relay(2) system_init_def)
qed

text \<open>and the worker reserves it.\<close>

lemma sample_worker:
  obtains s event s' where "sl.reaches system_init s" "system_inv value_lib s" "ob_id event = sampleUuid1"
    "request_of ''orders.created'' event \<in> set (rl_topic (sy_created s))"
    "worker_handle value_lib id (ob_payload event) (deliveredMetadata (ob_event_type event)) (no_faults (\<lambda>_. sampleUuid1)) s = (Returned True, s')"
    "sl.reaches system_init s'" "list_ex (\<lambda>reservation. ob_id reservation = sampleUuid1) (wd_outbox (sy_worker s'))"
proof -
  let ?env = "no_faults (\<lambda>_. sampleUuid1)"
  obtain s event where s: "sl.reaches system_init s" "system_inv value_lib s" "sy_db s = sampleDb" "sy_worker s = worker_db_init"
      "event \<in> set (db_outbox sampleDb)" "ob_id event = sampleUuid1" "request_of ''orders.created'' event \<in> set (rl_topic (sy_created s))"
    by (rule sample_published)
  let ?r = "request_of ''orders.created'' event"
  have payload: "pq_payload ?r = ob_payload event" by (simp add: request_of_def outboxRequest_def entry_of_def)
  obtain wdb where wdb: "OrderReservationHandler_handle value_lib id process (pq_payload ?r) (pq_metadata ?r) ?env (sy_worker s) =
      (Returned True, wdb)"
    using sl.worker_handle_succeeds [of s event sampleUuid1 "''orders.created''"] s(2-5)
    by (auto simp: worker_handle_def worker_db_init_def split: prod.splits)
  have "worker_handle value_lib id (ob_payload event) (deliveredMetadata (ob_event_type event)) ?env s = (Returned True, s\<lparr>sy_worker := wdb\<rparr>)"
    using wdb by (simp add: worker_handle_def sample_record(1) [OF s(6), of "''orders.created''"] payload)
  moreover have "uuids_ok ?env" by (simp add: uuids_ok_def no_faults_def sampleUuid1_ok)
  then have "sl.reaches system_init (s\<lparr>sy_worker := wdb\<rparr>)"
    by (rule rtranclp.rtrancl_into_rtrancl [OF s(1) system_step.reserve [OF s(7) wdb]])
  moreover have "list_ex (\<lambda>reservation. ob_id reservation = sampleUuid1) (wd_outbox wdb)"
  proof -
    have "orders_ok value_lib (sy_db s)" using s(2) by (simp add: system_inv_def)
    from sl.created_record [OF this, of event] s(3,5)
    obtain r where r: "reservation_of value_lib (process, pq_payload ?r, pq_metadata ?r) = Some r" by auto
    have "fst (recordReservationIfNew id r ?env (sy_worker s)) = Inr True"
      by (rule recordReservation_ok) (simp_all add: s(4) worker_db_init_def)
    then have "recordReservationIfNew id r ?env (sy_worker s) = (Inr True, wdb)"
      using wdb handle_Some [OF r, of id ?env "sy_worker s"] by (auto split: prod.splits)
    then show ?thesis unfolding recordReservationIfNew_def
      by (auto dest!: run_tx_Inr recordReservation_Commit recordReservation_Rollback simp: no_faults_def sampleUuid1_ok)
  qed
  ultimately show ?thesis using that [OF s(1,2,6,7), of "s\<lparr>sy_worker := wdb\<rparr>"] by simp
qed

text \<open>The reservation is published too.\<close>

lemma sample_reservation:
  obtains s reservation where "sl.reaches system_init s" "system_inv value_lib s" "reservation \<in> set (wd_outbox (sy_worker s))"
    "ob_id reservation = sampleUuid1" "request_of ''orders.reserved'' reservation \<in> set (rl_topic (sy_reserved s))"
proof -
  obtain s where s: "sl.reaches system_init s" "list_ex (\<lambda>reservation. ob_id reservation = sampleUuid1) (wd_outbox (sy_worker s))"
    by (rule sample_worker)
  then obtain reservation where reservation: "reservation \<in> set (wd_outbox (sy_worker s))" "ob_id reservation = sampleUuid1"
    by (auto simp: list_ex_iff)
  note inv = sl.reaches_inv [OF s(1) system_inv_init]
  obtain relay where relay:
      "(relay_step ''orders.reserved'')\<^sup>*\<^sup>* (wd_outbox (sy_worker s), sy_reserved s) (wd_outbox (sy_worker s), relay)"
      "request_of ''orders.reserved'' reservation \<in> set (rl_topic relay)"
    using relay_delivers [OF system_inv_outboxes(4,3) [OF inv] reservation(1)] by blast
  have "sl.reaches system_init (s\<lparr>sy_reserved := relay\<rparr>)"
    using s(1) sl.publish_reserved_reaches [OF relay(1)] by simp
  from this sl.reaches_inv [OF this system_inv_init] show ?thesis by (rule that [OF _ _ _ reservation(2)]) (simp_all add: relay reservation)
qed

section \<open>Properties\<close>

text \<open>C3. What the worker has committed is done: over all failures, rebalances, redeliveries, restarts and steps of the rest of the
  system, every record of \<open>orders.created\<close> before an offset committed to the broker has led to the reservation of
  its order, or is in the dead-letter queue.\<close>

theorem committed_orders_reserved:
  assumes "service_libraries J ok obj text_ok jsonb scan"
    and "(worker_service_step J jsonb scan text_ok)\<^sup>*\<^sup>* (delivery_init config system_init) d"
    and "rec \<in> set (dv_log d)" "ir_offset rec < dv_committed d (ir_partition rec)"
  shows "order_is_reserved rec (dv_db d) \<or> dead_lettered d rec"
proof -
  note handler = service_libraries.worker_event_handler [OF assms(1)]
  from event_handler.committed_dealt [OF handler assms(2) [unfolded service_step_defs] system_inv_init assms(3,4)]
  have dealt: "system_inv J (dv_db d)" "in_topic (rl_topic (sy_created (dv_db d))) rec" "dealt order_is_reserved d rec" by simp_all
  have "eventIdOf rec \<noteq> None"
    by (rule in_topic_eventId [OF dealt(2) system_inv_outboxes(1,2) [OF dealt(1)]])
  with dealt(3) show ?thesis by (simp add: dealt_def)
qed

theorem committed_orders_reserved_witness:
  "\<exists>d rec. (worker_service_step value_lib id id (\<lambda>_. True))\<^sup>*\<^sup>* (delivery_init PipelineConfiguration_default system_init) d \<and>
     rec \<in> set (dv_log d) \<and> ir_offset rec < dv_committed d (ir_partition rec) \<and> order_is_reserved rec (dv_db d)"
proof -
  obtain s event s' where s: "sl.reaches system_init s" "system_inv value_lib s" "ob_id event = sampleUuid1"
      "request_of ''orders.created'' event \<in> set (rl_topic (sy_created s))"
      "worker_handle value_lib id (ob_payload event) (deliveredMetadata (ob_event_type event)) (no_faults (\<lambda>_. sampleUuid1)) s =
        (Returned True, s')"
    by (rule sample_worker)
  let ?rec = "sampleIncoming ''orders.created'' (ob_payload event) (ob_event_type event)"
  have "uuids_ok (no_faults (\<lambda>_. sampleUuid1))" by (simp add: uuids_ok_def no_faults_def sampleUuid1_ok)
  from sample_delivery [where acceptable = "\<lambda>rec s. in_topic (rl_topic (sy_created s)) rec" and env_ok = "\<lambda>_ env _. uuids_ok env"
      and others = sl.reaches and handle = "worker_handle value_lib id",
      OF s(1) sample_record(2) [OF s(3,4)] this s(5)]
  obtain d where d: "(worker_service_step value_lib id id (\<lambda>_. True))\<^sup>*\<^sup>* (delivery_init PipelineConfiguration_default system_init) d"
      "?rec \<in> set (dv_log d)" "dv_committed d (PartitionKey ''orders.created'' 0) = 8" "dv_deadLetters d = []"
    unfolding service_step_defs by blast
  have offset: "ir_offset ?rec < dv_committed d (ir_partition ?rec)" using d(3) by (simp add: sampleIncoming_def)
  from committed_orders_reserved [OF sl.service_libraries_axioms d(1,2) offset] d offset show ?thesis
    by (intro exI [of _ d] exI [of _ ?rec]) (simp add: dead_lettered_def)
qed

text \<open>C4. What the order service has committed is done, in the same sense: every record of \<open>orders.reserved\<close> before a committed
  offset has led to its order being \<open>Reserved\<close> in the database, or is in the dead-letter queue.\<close>

theorem committed_reservations_confirmed:
  assumes "service_libraries J ok obj text_ok jsonb scan"
    and "(order_service_step J jsonb scan text_ok)\<^sup>*\<^sup>* (delivery_init config system_init) d"
    and "rec \<in> set (dv_log d)" "ir_offset rec < dv_committed d (ir_partition rec)"
  shows "order_is_confirmed rec (dv_db d) \<or> dead_lettered d rec"
proof -
  note handler = service_libraries.order_event_handler [OF assms(1)]
  from event_handler.committed_dealt [OF handler assms(2) [unfolded service_step_defs] system_inv_init assms(3,4)]
  have dealt: "system_inv J (dv_db d)" "in_topic (rl_topic (sy_reserved (dv_db d))) rec" "dealt order_is_confirmed d rec" by simp_all
  have "eventIdOf rec \<noteq> None"
    by (rule in_topic_eventId [OF dealt(2) system_inv_outboxes(3,4) [OF dealt(1)]])
  with dealt(3) show ?thesis by (simp add: dealt_def)
qed

theorem committed_reservations_confirmed_witness:
  "\<exists>d rec. (order_service_step value_lib id id (\<lambda>_. True))\<^sup>*\<^sup>* (delivery_init PipelineConfiguration_default system_init) d \<and>
     rec \<in> set (dv_log d) \<and> ir_offset rec < dv_committed d (ir_partition rec) \<and> order_is_confirmed rec (dv_db d)"
proof -
  obtain s reservation where s: "sl.reaches system_init s" "system_inv value_lib s" "reservation \<in> set (wd_outbox (sy_worker s))"
      "ob_id reservation = sampleUuid1" "request_of ''orders.reserved'' reservation \<in> set (rl_topic (sy_reserved s))"
    by (rule sample_reservation)
  let ?rec = "sampleIncoming ''orders.reserved'' (ob_payload reservation) (ob_event_type reservation)"
  let ?env = "(no_faults (\<lambda>_. []), no_faults (\<lambda>_. []), id)"
  note handled = sl.order_handle_succeeds [OF s(2,3)]
  obtain s' where s': "order_handle value_lib id (ob_payload reservation) (deliveredMetadata (ob_event_type reservation)) ?env s =
      (Returned True, s')"
    by (metis handled(1) prod.collapse)
  from sample_delivery [where acceptable = "\<lambda>rec s. in_topic (rl_topic (sy_reserved s)) rec"
      and env_ok = "confirm_env_ok value_lib id sl.reaches" and others = sl.reaches and handle = "order_handle value_lib id",
      OF s(1) sample_record(2) [OF s(4,5)] handled(2) s']
  obtain d where d: "(order_service_step value_lib id id (\<lambda>_. True))\<^sup>*\<^sup>* (delivery_init PipelineConfiguration_default system_init) d"
      "?rec \<in> set (dv_log d)" "dv_committed d (PartitionKey ''orders.reserved'' 0) = 8" "dv_deadLetters d = []"
    unfolding service_step_defs by blast
  have offset: "ir_offset ?rec < dv_committed d (ir_partition ?rec)" using d(3) by (simp add: sampleIncoming_def)
  from committed_reservations_confirmed [OF sl.service_libraries_axioms d(1,2) offset] d offset show ?thesis
    by (intro exI [of _ d] exI [of _ ?rec]) (simp add: dead_lettered_def)
qed

text \<open>C9. What the worker has not committed is not lost: from every state that it can come to, after any failures, rebalances and thrown
  tasks, the first record of a partition that is not committed can be delivered again, by the worker alone: it is restarted, reads
  the record, makes the reservation unless it was made before, and commits the record. The database only has to have an
  unused UUID.\<close>

theorem uncommitted_orders_redelivered:
  assumes "service_libraries J ok obj text_ok jsonb scan"
    and "(worker_service_step J jsonb scan text_ok)\<^sup>*\<^sup>* (delivery_init config system_init) d" "first_uncommitted rec d"
    and "isValidUuid uuid" "pg_uuid uuid \<notin> ob_id ` set (wd_outbox (sy_worker (dv_db d)))"
  shows "\<exists>d'. (worker_alone J jsonb)\<^sup>*\<^sup>* d d' \<and> order_is_reserved rec (dv_db d') \<and> dv_committed d' (ir_partition rec) = ir_offset rec + 1"
proof -
  note handler = service_libraries.worker_event_handler [OF assms(1)]
  note inv = delivery_invD [OF event_handler.reachable_inv [OF handler assms(2) [unfolded service_step_defs] system_inv_init]]
  have rec: "rec \<in> set (dv_log d)" using assms(3) by (simp add: first_uncommitted_def)
  then have accepted: "in_topic (rl_topic (sy_created (dv_db d))) rec" "legalOffset (ir_offset rec)" using inv(2,3) by (auto simp: log_ok_def)
  obtain row where row: "row \<in> set (db_outbox (sy_db (dv_db d)))" "ir_payload rec = pq_payload (request_of ''orders.created'' row)"
      "eventIdOf rec = Some (OutboxEventId (ob_id row))"
      "pq_metadata (request_of ''orders.created'' row) = \<lparr>mm_eventId = OutboxEventId (ob_id row), mm_eventType = ir_eventType rec\<rparr>"
    using service_libraries.worker_record [OF assms(1) inv(1) accepted(1)] by metis
  let ?env = "no_faults (\<lambda>_. uuid)"
  have env: "uuids_ok ?env" using assms(4) by (simp add: uuids_ok_def no_faults_def)
  obtain s where handled: "worker_handle J jsonb (ir_payload rec) \<lparr>mm_eventId = OutboxEventId (ob_id row), mm_eventType = ir_eventType rec\<rparr> ?env
      (dv_db d) = (Returned True, s)"
    using service_libraries.worker_handle_succeeds [OF assms(1) inv(1) row(1) assms(5), of "''orders.created''"] row(2,4)
    by (metis prod.collapse)
  have "order_is_reserved rec s"
    using service_libraries.worker_handle_step(2) [OF assms(1) inv(1) accepted(1) row(3) env handled] by simp
  with redelivers [where handle = "worker_handle J jsonb" and env_ok = "\<lambda>_ env _. uuids_ok env" and env = ?env
      and others = "\<lambda>_ _. False" and acceptable = "\<lambda>_ _. False", OF assms(3) row(3) accepted(2) env handled]
  show ?thesis unfolding worker_alone_def by metis
qed

theorem uncommitted_orders_redelivered_witness:
  "\<exists>d rec d'. (worker_service_step value_lib id id (\<lambda>_. True))\<^sup>*\<^sup>* (delivery_init PipelineConfiguration_default system_init) d \<and>
     dv_committed d (ir_partition rec) = 0 \<and> (worker_alone value_lib id)\<^sup>*\<^sup>* d d' \<and> order_is_reserved rec (dv_db d') \<and>
     dv_committed d' (ir_partition rec) = 8"
proof -
  obtain s event where s: "sl.reaches system_init s" "sy_worker s = worker_db_init" "ob_id event = sampleUuid1"
      "request_of ''orders.created'' event \<in> set (rl_topic (sy_created s))"
    by (rule sample_published)
  let ?rec = "sampleIncoming ''orders.created'' (ob_payload event) (ob_event_type event)"
  let ?d = "(delivery_init PipelineConfiguration_default system_init)\<lparr>dv_db := s, dv_log := [?rec]\<rparr>"
  have d: "(worker_service_step value_lib id id (\<lambda>_. True))\<^sup>*\<^sup>* (delivery_init PipelineConfiguration_default system_init) ?d"
      "first_uncommitted ?rec ?d"
    unfolding service_step_defs
    using sample_appended [where acceptable = "\<lambda>rec s. in_topic (rl_topic (sy_created s)) rec" and others = sl.reaches
        and config = PipelineConfiguration_default, OF s(1) sample_record(2) [OF s(3,4)]] by blast+
  have "pg_uuid sampleUuid1 \<notin> ob_id ` set (wd_outbox (sy_worker (dv_db ?d)))" by (simp add: s(2) worker_db_init_def)
  from uncommitted_orders_redelivered [OF sl.service_libraries_axioms d sampleUuid1_ok(1) this]
  obtain d' where "(worker_alone value_lib id)\<^sup>*\<^sup>* ?d d'" "order_is_reserved ?rec (dv_db d')" "dv_committed d' (ir_partition ?rec) = ir_offset ?rec + 1"
    by blast
  moreover have "dv_committed ?d (ir_partition ?rec) = 0" "ir_offset ?rec + 1 = 8" by (simp_all add: delivery_init_def sampleIncoming_def)
  ultimately show ?thesis using d(1) by metis
qed

text \<open>C10. The same for the order service: the first record of a partition of \<open>orders.reserved\<close> that is not committed can be delivered again, by
  the order service alone; the order is then \<open>Reserved\<close> and the record committed.\<close>

theorem uncommitted_reservations_redelivered:
  assumes "service_libraries J ok obj text_ok jsonb scan"
    and "(order_service_step J jsonb scan text_ok)\<^sup>*\<^sup>* (delivery_init config system_init) d" "first_uncommitted rec d"
  shows "\<exists>d'. (order_alone J scan)\<^sup>*\<^sup>* d d' \<and> order_is_confirmed rec (dv_db d') \<and> dv_committed d' (ir_partition rec) = ir_offset rec + 1"
proof -
  note handler = service_libraries.order_event_handler [OF assms(1)]
  note inv = delivery_invD [OF event_handler.reachable_inv [OF handler assms(2) [unfolded service_step_defs] system_inv_init]]
  have rec: "rec \<in> set (dv_log d)" using assms(3) by (simp add: first_uncommitted_def)
  then have accepted: "in_topic (rl_topic (sy_reserved (dv_db d))) rec" "legalOffset (ir_offset rec)" using inv(2,3) by (auto simp: log_ok_def)
  obtain i where i: "eventIdOf rec = Some i"
    using in_topic_eventId [OF accepted(1) system_inv_outboxes(3,4) [OF inv(1)]] by auto
  obtain row where row: "row \<in> set (wd_outbox (sy_worker (dv_db d)))" "ir_payload rec = ob_payload row"
    using service_libraries.order_record [OF assms(1) inv(1) accepted(1)] by metis
  let ?env = "(no_faults (\<lambda>_. []), no_faults (\<lambda>_. []), id)" and ?metadata = "\<lparr>mm_eventId = i, mm_eventType = ir_eventType rec\<rparr>"
  note succeeds = service_libraries.order_handle_succeeds [OF assms(1) inv(1) row(1)]
  obtain s where handled: "order_handle J scan (ir_payload rec) ?metadata ?env (dv_db d) = (Returned True, s)"
    using succeeds(1) row(2) by (metis prod.collapse)
  have env: "confirm_env_ok J scan (=) (ir_payload rec) ?env (dv_db d)"
    by (simp add: confirm_env_ok_def Let_def split: confirmation.split)
  have "order_is_confirmed rec s"
    using service_libraries.order_handle_steps [OF assms(1) inv(1) accepted(1) _ handled] succeeds(2) row(2) by simp
  with redelivers [where handle = "order_handle J scan" and env_ok = "confirm_env_ok J scan (=)" and env = ?env
      and others = "\<lambda>_ _. False" and acceptable = "\<lambda>_ _. False", OF assms(3) i accepted(2) env handled]
  show ?thesis unfolding order_alone_def by metis
qed

theorem uncommitted_reservations_redelivered_witness:
  "\<exists>d rec d'. (order_service_step value_lib id id (\<lambda>_. True))\<^sup>*\<^sup>* (delivery_init PipelineConfiguration_default system_init) d \<and>
     dv_committed d (ir_partition rec) = 0 \<and> (order_alone value_lib id)\<^sup>*\<^sup>* d d' \<and> order_is_confirmed rec (dv_db d') \<and>
     dv_committed d' (ir_partition rec) = 8"
proof -
  obtain s reservation where s: "sl.reaches system_init s" "ob_id reservation = sampleUuid1"
      "request_of ''orders.reserved'' reservation \<in> set (rl_topic (sy_reserved s))"
    by (rule sample_reservation)
  let ?rec = "sampleIncoming ''orders.reserved'' (ob_payload reservation) (ob_event_type reservation)"
  let ?d = "(delivery_init PipelineConfiguration_default system_init)\<lparr>dv_db := s, dv_log := [?rec]\<rparr>"
  have d: "(order_service_step value_lib id id (\<lambda>_. True))\<^sup>*\<^sup>* (delivery_init PipelineConfiguration_default system_init) ?d"
      "first_uncommitted ?rec ?d"
    unfolding service_step_defs
    using sample_appended [where acceptable = "\<lambda>rec s. in_topic (rl_topic (sy_reserved s)) rec" and others = sl.reaches
        and config = PipelineConfiguration_default, OF s(1) sample_record(2) [OF s(2,3)]] by blast+
  from uncommitted_reservations_redelivered [OF sl.service_libraries_axioms d]
  obtain d' where "(order_alone value_lib id)\<^sup>*\<^sup>* ?d d'" "order_is_confirmed ?rec (dv_db d')" "dv_committed d' (ir_partition ?rec) = ir_offset ?rec + 1"
    by blast
  moreover have "dv_committed ?d (ir_partition ?rec) = 0" "ir_offset ?rec + 1 = 8" by (simp_all add: delivery_init_def sampleIncoming_def)
  ultimately show ?thesis using d(1) by metis
qed

end
