(* ===== verification/PollingLoop.thy ===== *)
theory PollingLoop
  imports Delivery
begin

text \<open>
  What one turn of \<open>KafkaEventConsumer::run\<close> does, read off the state of the pipeline before and after it: which
  partitions are assigned, which of the polled records are accepted, which offsets are sent and remembered as committed, and
  when the partitions are paused. The lemmas follow the turn: the rebalance callbacks, the records, the pump with the
  back pressure, the periodic commit.
\<close>

section \<open>Reading the state\<close>

text \<open>The position the tracker of a partition remembers as committed.\<close>

definition committedAt :: "PartitionKey \<Rightarrow> ConsumerPipeline \<Rightarrow> int option" where
  "committedAt p pl =
     (case kv_find p (r_partitions (cl_registry pl)) of None \<Rightarrow> None | Some st \<Rightarrow> t_committed (ps_tracker st))"

text \<open>The partitions that the callbacks of a poll name, and whether one is assigned after them.\<close>

definition touched :: "rebalance list \<Rightarrow> PartitionKey set" where
  "touched rbs = (\<Union>rb \<in> set rbs. set (toKeys (rb_partitions rb)))"

fun assignedAfter :: "rebalance list \<Rightarrow> PartitionKey \<Rightarrow> bool \<Rightarrow> bool" where
  "assignedAfter [] p a = a"
| "assignedAfter (rb # rbs) p a =
     assignedAfter rbs p (if p \<in> set (toKeys (rb_partitions rb)) then rb_type rb = PartitionsAssigned else a)"

definition polled :: "turn_input \<Rightarrow> ConsumerRecord list" where
  "polled input = (case ti_poll input of None \<Rightarrow> [] | Some records \<Rightarrow> records)"

text \<open>A ticket stands for a polled record without error that lies above the records of its partition before it in the
  poll.\<close>

definition carries :: "ConsumerRecord \<Rightarrow> RecordTicket \<Rightarrow> bool" where
  "carries rec t \<longleftrightarrow> \<not> cr_error rec \<and> is_record_of (incoming_of rec) t"

definition above_earlier :: "ConsumerRecord list \<Rightarrow> RecordTicket \<Rightarrow> bool" where
  "above_earlier before t \<longleftrightarrow>
     (\<forall>rec \<in> set before. \<not> cr_error rec \<and> ir_partition (incoming_of rec) = rt_partition t \<longrightarrow> cr_offset rec < rt_offset t)"

definition first_seen :: "ConsumerRecord list \<Rightarrow> RecordTicket \<Rightarrow> bool" where
  "first_seen records t \<longleftrightarrow>
     (\<exists>before rec after. records = before @ rec # after \<and> carries rec t \<and> above_earlier before t)"

text \<open>A ticket of a partition lies above those issued before in the current assignment.\<close>

definition above_issued :: "event list \<Rightarrow> PartitionRegistry \<Rightarrow> RecordTicket \<Rightarrow> bool" where
  "above_issued tr r t \<longleftrightarrow>
     (\<forall>t'. EvIssued t' \<in> set tr \<and> isCurrent t' r \<and> rt_partition t' = rt_partition t \<longrightarrow> rt_offset t' < rt_offset t)"

text \<open>What a periodic commit confirmed: nothing when \<open>commitSync\<close> threw.\<close>

definition confirmedBy :: "bool \<Rightarrow> offsets list \<Rightarrow> PartitionKey \<Rightarrow> int option" where
  "confirmedBy accepted sent p =
     (case sent of [] \<Rightarrow> None | offs # _ \<Rightarrow> if accepted then kv_find p offs else None)"

text \<open>The turn reaches the commit: \<open>poll\<close> returned and the call that pauses or resumes did not throw; the commit is due
  when the interval has passed.\<close>

definition reaches_commit :: "turn_input \<Rightarrow> flow_call list \<Rightarrow> bool" where
  "reaches_commit input calls \<longleftrightarrow> ti_poll input \<noteq> None \<and> (calls = [] \<or> \<not> ti_flowThrows input)"

definition commit_due :: "turn_input \<Rightarrow> flow_call list \<Rightarrow> KafkaEventConsumer \<Rightarrow> bool" where
  "commit_due input calls kc \<longleftrightarrow> reaches_commit input calls \<and> COMMIT_INTERVAL \<le> ti_now input - kc_lastCommit kc"

lemma isAssigned_current: "isAssigned p r \<longleftrightarrow> (\<exists>t. isCurrent t r \<and> rt_partition t = p)"
proof
  assume "isAssigned p r"
  then obtain st where "kv_find p (r_partitions r) = Some st" by (auto simp: isAssigned_def)
  then have "isCurrent \<lparr>rt_partition = p, rt_offset = 0, rt_generation = ps_generation st\<rparr> r" by (simp add: isCurrent_def)
  then show "\<exists>t. isCurrent t r \<and> rt_partition t = p" by (metis RecordTicket.select_convs(1))
qed (auto simp: isAssigned_def isCurrent_def split: option.splits)

section \<open>The callbacks\<close>

lemma assign_reset:
  "q \<in> set ps \<Longrightarrow> \<exists>st. kv_find q (r_partitions (assign ps r)) = Some st \<and> ps_tracker st = OffsetTracker_init"
proof (induction ps r rule: assign.induct)
  case (2 p ps r)
  then show ?case by (cases "q \<in> set ps") (auto simp: Let_def assign_other)
qed simp

lemma onRebalance_effect:
  assumes "snd (onRebalance type partitions accepted (Some pl)) = Some pl'"
  shows "isAssigned p (cl_registry pl') = (if p \<in> set (toKeys partitions) then type = PartitionsAssigned else isAssigned p (cl_registry pl))"
    and "committedAt p pl' = (if p \<in> set (toKeys partitions) then None else committedAt p pl)"
proof -
  let ?keys = "toKeys partitions" and ?r = "cl_registry pl"
  have reg: "cl_registry pl' = (if type = PartitionsAssigned then assign ?keys ?r else snd (revoke ?keys ?r))"
    using assms by (auto simp: onRebalance_def onPartitionsAssigned_def onPartitionsRevoked_def Let_def split: if_splits prod.splits)
  have "t_committed OffsetTracker_init = None" by (simp add: OffsetTracker_init_def)
  with reg show "isAssigned p (cl_registry pl') =
      (if p \<in> set ?keys then type = PartitionsAssigned else isAssigned p ?r)"
    and "committedAt p pl' = (if p \<in> set ?keys then None else committedAt p pl)"
    using assign_reset [of p ?keys ?r] by (auto simp: isAssigned_def committedAt_def assign_other revoke_find)
qed

lemma run_callbacks_effect:
  assumes "snd (run_callbacks rbs (Some pl)) = Some pl'"
  shows "isAssigned p (cl_registry pl') = assignedAfter rbs p (isAssigned p (cl_registry pl)) \<and>
    committedAt p pl' = (if p \<in> touched rbs then None else committedAt p pl)"
  using assms
proof (induction rbs arbitrary: pl)
  case (Cons rb rbs)
  obtain pl1 where pl1: "snd (onRebalance (rb_type rb) (rb_partitions rb) (rb_commitAccepted rb) (Some pl)) = Some pl1"
    by (cases "rb_type rb"; cases "onPartitionsRevoked (toKeys (rb_partitions rb)) pl") (simp_all add: onRebalance_def Let_def)
  then have "snd (run_callbacks rbs (Some pl1)) = Some pl'"
    using Cons.prems by (auto split: prod.splits)
  from Cons.IH [OF this] onRebalance_effect [OF pl1] show ?case by (auto simp: touched_def)
qed (simp add: touched_def)

section \<open>The records\<close>

lemma incoming_of_key:
  "ir_partition (incoming_of rec) = PartitionKey (cr_topic rec) (cr_partition rec)" "ir_offset (incoming_of rec) = cr_offset rec"
proof -
  have "ir_partition (foldl read_header r hs) = ir_partition r \<and> ir_offset (foldl read_header r hs) = ir_offset r" for r hs
    by (induction hs arbitrary: r) (auto simp: read_header_def split: prod.split)
  then show "ir_partition (incoming_of rec) = PartitionKey (cr_topic rec) (cr_partition rec)" "ir_offset (incoming_of rec) = cr_offset rec"
    by (simp_all add: incoming_of_def)
qed

lemma current_unique:
  "isCurrent t r \<Longrightarrow> isCurrent t' r \<Longrightarrow> rt_partition t = rt_partition t' \<Longrightarrow> rt_offset t = rt_offset t' \<Longrightarrow> t = t'"
  by (cases t; cases t') (auto simp: isCurrent_def split: option.splits)

lemma ingest_keeps:
  assumes "ingest rec pl = (outcome, pl')"
  shows "isCurrent t (cl_registry pl') = isCurrent t (cl_registry pl)" and "committedAt p pl' = committedAt p pl"
proof -
  have keeps: "t_committed (snd (registerRecord off tk)) = t_committed tk" "t_committed (snd (OffsetTracker.complete off tk)) = t_committed tk" for off tk
    by (auto simp: registerRecord_def OffsetTracker.complete_def Let_def)
  let ?at = "\<lambda>r. case kv_find p (r_partitions r) of None \<Rightarrow> None | Some st \<Rightarrow> t_committed (ps_tracker st)"
  have "?at (snd (registry_registerRecord q off r)) = ?at r" "?at (snd (registry_complete tick r)) = ?at r" for q off tick r
    using keeps by (auto simp: registry_registerRecord_def registry_complete_def split: option.splits prod.splits) (metis snd_conv)+
  then have at: "registry_registerRecord q off r = (a, r') \<Longrightarrow> ?at r' = ?at r"
    "registry_complete tick r = (b, r') \<Longrightarrow> ?at r' = ?at r" for q off tick r r' a b
    by (metis snd_conv)+
  have cur: "registry_registerRecord q off r = (a, r') \<Longrightarrow> isCurrent t r' = isCurrent t r"
    "registry_complete tick r = (b, r') \<Longrightarrow> isCurrent t r' = isCurrent t r" for q off tick r r' a b
    by (metis isCurrent_kept(1,2) snd_conv)+
  show "isCurrent t (cl_registry pl') = isCurrent t (cl_registry pl)"
    using assms by (auto simp: ingest_def Let_def cur split: sum.splits prod.splits)
  show "committedAt p pl' = committedAt p pl"
    using assms by (auto simp: ingest_def Let_def committedAt_def at split: sum.splits prod.splits)
qed

text \<open>A record gets a ticket exactly when its partition is assigned and its offset lies above those issued.\<close>

lemma ingest_issued_iff:
  assumes "pipeline_inv pl tr" "legalOffset (ir_offset rec)" "ingest rec pl = (outcome, pl')"
  shows "EvIssued t \<in> set (ingest_events outcome) \<longleftrightarrow>
    is_record_of rec t \<and> isCurrent t (cl_registry pl) \<and> above_issued tr (cl_registry pl) t"
proof
  assume issued: "EvIssued t \<in> set (ingest_events outcome)"
  note tracks = pipeline_invD(1) [OF assms(1)]
  obtain r where reg: "registry_registerRecord (ir_partition rec) (ir_offset rec) (cl_registry pl) = (Inr t, r)"
    using assms(3) issued
    by (auto simp: ingest_def ingest_events_def completion_events_def Let_def split: sum.splits prod.splits)
  then obtain st where st: "kv_find (ir_partition rec) (r_partitions (cl_registry pl)) = Some st"
    "fst (registerRecord (ir_offset rec) (ps_tracker st)) = Inr ()"
    "t = \<lparr>rt_partition = ir_partition rec, rt_offset = ir_offset rec, rt_generation = ps_generation st\<rparr>"
    by (auto simp: registry_registerRecord_def transform_def split: option.splits prod.splits sum.splits)
  have "\<forall>off \<in> issuedIn tr (ir_partition rec) (ps_generation st). off < ir_offset rec"
    using ot.register_iff [OF registry_tracksD(3) [OF tracks st(1)]] st(2) by blast
  then have "above_issued tr (cl_registry pl) t"
    using st(1,3) by (auto simp: above_issued_def isCurrent_def issued_def simp flip: issued_issuedIn)
  with st show "is_record_of rec t \<and> isCurrent t (cl_registry pl) \<and> above_issued tr (cl_registry pl) t"
    by (simp add: is_record_of_def isCurrent_def)
next
  assume t: "is_record_of rec t \<and> isCurrent t (cl_registry pl) \<and> above_issued tr (cl_registry pl) t"
  then have "isAssigned (ir_partition rec) (cl_registry pl)" by (auto simp: isAssigned_current is_record_of_def)
  moreover have "\<forall>t'. EvIssued t' \<in> set tr \<and> isCurrent t' (cl_registry pl) \<and> rt_partition t' = ir_partition rec \<longrightarrow> rt_offset t' < ir_offset rec"
    using t by (auto simp: above_issued_def is_record_of_def)
  ultimately obtain ticket where "is_record_of rec ticket" "isCurrent ticket (cl_registry pl)"
    "EvIssued ticket \<in> set (ingest_events outcome)"
    using ingest_accepts [OF assms(1,2) _ _ assms(3)] by metis
  then show "EvIssued t \<in> set (ingest_events outcome)"
    using t current_unique [of t "cl_registry pl" ticket] by (simp add: is_record_of_def)
qed

lemma first_seen_snoc: "first_seen (records @ [rec]) t \<longleftrightarrow> first_seen records t \<or> carries rec t \<and> above_earlier records t"
proof
  assume "first_seen (records @ [rec]) t"
  then obtain before rec' after where seen: "records @ [rec] = before @ rec' # after" "carries rec' t" "above_earlier before t"
    by (auto simp: first_seen_def)
  then show "first_seen records t \<or> carries rec t \<and> above_earlier records t"
    by (cases after rule: rev_cases) (auto simp: first_seen_def)
next
  have "records = before @ rec' # after \<Longrightarrow> records @ [rec] = before @ rec' # (after @ [rec])" for before rec' after by simp
  then have "first_seen records t \<Longrightarrow> first_seen (records @ [rec]) t" unfolding first_seen_def by metis
  moreover have "carries rec t \<and> above_earlier records t \<Longrightarrow> first_seen (records @ [rec]) t" unfolding first_seen_def by blast
  ultimately show "first_seen records t \<or> carries rec t \<and> above_earlier records t \<Longrightarrow> first_seen (records @ [rec]) t" by blast
qed

text \<open>A ticket lies above those issued for the records so far exactly when it lies above the records themselves: a record
  without a ticket lies below one that has a ticket.\<close>

lemma above_seen:
  assumes "isCurrent t r" "above_issued tr r t"
  shows "(\<forall>t'. isCurrent t' r \<and> above_issued tr r t' \<and> first_seen records t' \<and> rt_partition t' = rt_partition t \<longrightarrow> rt_offset t' < rt_offset t) \<longleftrightarrow>
    above_earlier records t"
proof
  assume "above_earlier records t"
  then show "\<forall>t'. isCurrent t' r \<and> above_issued tr r t' \<and> first_seen records t' \<and> rt_partition t' = rt_partition t \<longrightarrow> rt_offset t' < rt_offset t"
    by (auto simp: above_earlier_def first_seen_def carries_def is_record_of_def incoming_of_key)
next
  assume below: "\<forall>t'. isCurrent t' r \<and> above_issued tr r t' \<and> first_seen records t' \<and> rt_partition t' = rt_partition t \<longrightarrow> rt_offset t' < rt_offset t"
  let ?P = "\<lambda>rec. \<not> cr_error rec \<and> ir_partition (incoming_of rec) = rt_partition t \<and> rt_offset t \<le> cr_offset rec"
  show "above_earlier records t"
  proof (rule ccontr)
    assume "\<not> above_earlier records t"
    then have "\<exists>rec \<in> set records. ?P rec" by (auto simp: above_earlier_def not_less)
    then obtain before rec after where split: "records = before @ rec # after" "?P rec" "\<forall>rec \<in> set before. \<not> ?P rec"
      using split_list_first_prop [of records ?P] by blast
    let ?t = "t\<lparr>rt_offset := cr_offset rec\<rparr>"
    have "isCurrent ?t r" using assms(1) by (auto simp: isCurrent_def split: option.splits)
    moreover have "above_issued tr r ?t" using assms(2) split(2) by (fastforce simp: above_issued_def)
    moreover have "carries rec ?t" using split(2) by (simp add: carries_def is_record_of_def incoming_of_key)
    moreover have "above_earlier before ?t" using split(2,3) by (force simp: above_earlier_def)
    ultimately have "first_seen records ?t" "isCurrent ?t r" "above_issued tr r ?t"
      using split(1) unfolding first_seen_def by blast+
    then show False using below split(2) by force
  qed
qed

lemma ingest_all_effect:
  assumes "pipeline_history pl tr" "\<forall>rec \<in> set records. legalOffset (cr_offset rec)"
  shows "\<exists>evs. pipeline_history (foldl (\<lambda>pl rec. consumer_ingest rec pl) pl records) (tr @ evs) \<and>
    (\<forall>t. EvIssued t \<in> set evs \<longleftrightarrow> isCurrent t (cl_registry pl) \<and> above_issued tr (cl_registry pl) t \<and> first_seen records t) \<and>
    (\<forall>t. isCurrent t (cl_registry (foldl (\<lambda>pl rec. consumer_ingest rec pl) pl records)) = isCurrent t (cl_registry pl)) \<and>
    (\<forall>p. committedAt p (foldl (\<lambda>pl rec. consumer_ingest rec pl) pl records) = committedAt p pl)"
  using assms(2)
proof (induction records rule: rev_induct)
  case Nil
  then show ?case using assms(1) by (auto simp: first_seen_def intro: exI [of _ "[]"])
next
  case (snoc rec records)
  let ?pl = "foldl (\<lambda>pl rec. consumer_ingest rec pl) pl records" and ?r = "cl_registry pl"
  obtain evs where IH: "pipeline_history ?pl (tr @ evs)"
    "\<And>t. EvIssued t \<in> set evs \<longleftrightarrow> isCurrent t ?r \<and> above_issued tr ?r t \<and> first_seen records t"
    "\<And>t. isCurrent t (cl_registry ?pl) = isCurrent t ?r" "\<And>p. committedAt p ?pl = committedAt p pl"
    using snoc by auto
  show ?case
  proof (cases "cr_error rec")
    case True
    with IH show ?thesis
      by (intro exI [of _ evs]) (simp add: consumer_ingest_def first_seen_snoc carries_def)
  next
    case False
    obtain outcome pl' where ing: "ingest (incoming_of rec) ?pl = (outcome, pl')" by fastforce
    have legal: "legalOffset (ir_offset (incoming_of rec))" using snoc.prems by (simp add: incoming_of_key)
    note step = pipeline_history.hist_step [OF IH(1) pipeline_step.Ingested [OF legal ing]]
    note new = ingest_issued_iff [OF pipeline_history_inv [OF IH(1)] legal ing]
    have above: "isCurrent t ?r \<Longrightarrow> above_issued (tr @ evs) (cl_registry ?pl) t \<longleftrightarrow> above_issued tr ?r t \<and> above_earlier records t" for t
      using above_seen [of t ?r tr records] IH(2,3) unfolding above_issued_def by auto
    have "EvIssued t \<in> set (evs @ ingest_events outcome) \<longleftrightarrow>
        isCurrent t ?r \<and> above_issued tr ?r t \<and> first_seen (records @ [rec]) t" for t
      using IH(2) [of t] new [of t] above [of t] IH(3) [of t] False
      by (auto simp: first_seen_snoc carries_def)
    with step ingest_keeps [OF ing] IH(3,4) False ing show ?thesis
      by (intro exI [of _ "evs @ ingest_events outcome"]) (simp add: consumer_ingest_def)
  qed
qed

section \<open>The pump\<close>

lemma pump_registry: "cl_registry (snd (pump pl)) = cl_registry pl"
proof (induction pl rule: pump.induct)
  case (1 pl)
  obtain res pl' where turn: "pump_turn pl = (res, pl')" by fastforce
  from items_pumped [OF turn] "1.IH" [OF turn [symmetric]] turn show ?case
    by (cases res) (simp_all add: pump.simps [of pl])
qed

lemma applyBackpressure_eq:
  "applyBackpressure throws drained paused =
    (let calls = (if \<not> drained then [Pause] else if paused then [Resume] else []) in
     (calls, if calls = [] \<or> \<not> throws then Some (\<not> drained) else None))"
  by (simp add: applyBackpressure_def)

text \<open>The records and the pump together.\<close>

lemma records_effect:
  assumes "pipeline_history pl tr" "\<forall>rec \<in> set records. legalOffset (cr_offset rec)"
    and "pump (foldl (\<lambda>pl rec. consumer_ingest rec pl) pl records) = (drained, pl')"
  obtains evs where "pipeline_history pl' (tr @ evs)" "drained \<longleftrightarrow> cl_backlog pl' = []"
    "\<And>t. EvIssued t \<in> set evs \<longleftrightarrow> isCurrent t (cl_registry pl') \<and> above_issued tr (cl_registry pl') t \<and> first_seen records t"
    "\<And>p. isAssigned p (cl_registry pl') = isAssigned p (cl_registry pl)" "\<And>p. committedAt p pl' = committedAt p pl"
proof -
  let ?pl = "foldl (\<lambda>pl rec. consumer_ingest rec pl) pl records"
  obtain evs where ing: "pipeline_history ?pl (tr @ evs)"
    "\<forall>t. EvIssued t \<in> set evs \<longleftrightarrow> isCurrent t (cl_registry pl) \<and> above_issued tr (cl_registry pl) t \<and> first_seen records t"
    "\<forall>t. isCurrent t (cl_registry ?pl) = isCurrent t (cl_registry pl)" "\<forall>p. committedAt p ?pl = committedAt p pl"
    using ingest_all_effect [OF assms(1,2)] by blast
  have reg: "cl_registry pl' = cl_registry ?pl" using pump_registry [of ?pl] by (simp add: assms(3))
  then have cur: "isCurrent t (cl_registry pl') = isCurrent t (cl_registry pl)" for t using ing(3) by simp
  show ?thesis
  proof (rule that)
    show "pipeline_history pl' (tr @ evs)" using pump_pipeline [OF ing(1)] by (simp add: assms(3))
    show "drained \<longleftrightarrow> cl_backlog pl' = []" using pump_exact [OF assms(3)] by blast
    show "committedAt p pl' = committedAt p pl" for p using ing(4) [rule_format, of p] reg by (simp add: committedAt_def)
  qed (use ing(2) in \<open>simp_all add: cur above_issued_def isAssigned_current\<close>)
qed

section \<open>The commit\<close>

text \<open>Confirming the candidate remembers it and leaves nothing to commit.\<close>

lemma confirm_candidate:
  assumes "tracks t R D" "commitCandidate t = Some p"
  shows "t_committed (snd (confirmCommit p t)) = Some p \<and> commitCandidate (snd (confirmCommit p t)) = None"
proof -
  let ?es = "t_entries t" and ?n = "t_prefixDone t"
  note inv = tracksD(1) [OF assms(1)]
  have n: "0 < ?n" "?n \<le> length ?es" and p: "p = wrap_i64 (e_offset (?es ! (?n - 1)) + 1)"
    using assms(2) inv length_takeWhile_le [of e_done ?es] by (auto simp: commitCandidate_def tracker_inv_def split: if_splits)
  have last: "?es ! (?n - 1) \<in> set ?es" using n by simp
  then have "legalOffset (e_offset (?es ! (?n - 1)))" using assms(1) by (auto simp: tracks_def)
  then have p': "p = e_offset (?es ! (?n - 1)) + 1"
    unfolding p by (intro wrap_i64_id) (simp add: legalOffset_def in_i64_def)
  have "e_offset (?es ! i) < p" if "i < ?n" for i
  proof (cases "i = ?n - 1")
    case False
    with that n have "i < ?n - 1" "?n - 1 < length ?es" by linarith+
    from entries_nth_less [OF inv this] show ?thesis unfolding p' by linarith
  qed (simp add: p')
  then have all: "?n \<le> length (takeWhile (\<lambda>e. e_offset e < p) ?es)" using n(2) by (intro le_length_takeWhile) auto
  have "\<forall>c. t_committed t = Some c \<longrightarrow> c < p" using inv last by (auto simp: p' tracker_inv_def)
  with inv show ?thesis
    by (cases rule: confirmCommit_cases [of t p]) (use assms(2) all in \<open>auto simp: commitCandidate_def\<close>)
qed

lemma confirm_all:
  assumes "distinct (map cp_partition cps)"
  shows "p \<notin> cp_partition ` set cps \<Longrightarrow>
      kv_find p (r_partitions (cl_registry (foldl (\<lambda>pl cp. pipeline_confirmCommit cp pl) pl cps))) = kv_find p (r_partitions (cl_registry pl))"
    and "cp \<in> set cps \<Longrightarrow> kv_find (cp_partition cp) (r_partitions (cl_registry pl)) = Some st \<Longrightarrow> ps_generation st = cp_generation cp \<Longrightarrow>
      kv_find (cp_partition cp) (r_partitions (cl_registry (foldl (\<lambda>pl cp. pipeline_confirmCommit cp pl) pl cps))) =
        Some (st\<lparr>ps_tracker := snd (confirmCommit (cp_offset cp) (ps_tracker st))\<rparr>)"
proof -
  have other: "p \<notin> cp_partition ` set cps \<Longrightarrow>
      kv_find p (r_partitions (cl_registry (foldl (\<lambda>pl cp. pipeline_confirmCommit cp pl) pl cps))) = kv_find p (r_partitions (cl_registry pl))" for p cps pl
    by (induction cps arbitrary: pl)
      (auto simp: pipeline_confirmCommit_def registry_confirmCommit_def split: option.splits prod.splits)
  then show "p \<notin> cp_partition ` set cps \<Longrightarrow>
      kv_find p (r_partitions (cl_registry (foldl (\<lambda>pl cp. pipeline_confirmCommit cp pl) pl cps))) = kv_find p (r_partitions (cl_registry pl))" .
  show "cp \<in> set cps \<Longrightarrow> kv_find (cp_partition cp) (r_partitions (cl_registry pl)) = Some st \<Longrightarrow> ps_generation st = cp_generation cp \<Longrightarrow>
      kv_find (cp_partition cp) (r_partitions (cl_registry (foldl (\<lambda>pl cp. pipeline_confirmCommit cp pl) pl cps))) =
        Some (st\<lparr>ps_tracker := snd (confirmCommit (cp_offset cp) (ps_tracker st))\<rparr>)"
    using assms
  proof (induction cps arbitrary: pl)
    case (Cons c cps)
    let ?pl = "pipeline_confirmCommit c pl"
    show ?case
    proof (cases "c = cp")
      case True
      with Cons.prems have "kv_find (cp_partition cp) (r_partitions (cl_registry ?pl)) =
          Some (st\<lparr>ps_tracker := snd (confirmCommit (cp_offset cp) (ps_tracker st))\<rparr>)"
        by (simp add: pipeline_confirmCommit_def registry_confirmCommit_def split: prod.split)
      with True Cons.prems(4) other [of "cp_partition cp" cps ?pl] show ?thesis by simp
    next
      case False
      with Cons.prems have "cp \<in> set cps" "cp_partition c \<noteq> cp_partition cp" by auto
      moreover from this have "kv_find (cp_partition cp) (r_partitions (cl_registry ?pl)) = Some st"
        using Cons.prems(2) other [of "cp_partition cp" "[c]" pl] by simp
      ultimately show ?thesis using Cons.IH [of ?pl] Cons.prems by simp
    qed
  qed simp
qed

lemma offsets_of_distinct:
  assumes "distinct (map cp_partition cps)"
  shows "kv_find p (offsets_of cps) = Some off \<longleftrightarrow> (\<exists>cp \<in> set cps. cp_partition cp = p \<and> cp_offset cp = off)"
  using assms
proof (induction cps rule: rev_induct)
  case (snoc cp cps)
  have "p = cp_partition cp \<Longrightarrow> \<forall>cp' \<in> set cps. cp_partition cp' \<noteq> p" using snoc.prems by (auto simp: image_iff)
  with snoc show ?case by (auto simp: offsets_of_def)
qed (simp add: offsets_of_def kv_find_def)

text \<open>What is sent for a partition is its candidate, and confirming all candidates confirms each in its tracker.\<close>

lemma candidates_confirmed:
  assumes "pipeline_history pl tr"
  shows "kv_find q (offsets_of (commitCandidates (cl_registry pl))) =
      Option.bind (kv_find q (r_partitions (cl_registry pl))) (\<lambda>st. commitCandidate (ps_tracker st))" (is ?sent)
    and "kv_find q (r_partitions (cl_registry (foldl (\<lambda>pl cp. pipeline_confirmCommit cp pl) pl (commitCandidates (cl_registry pl))))) =
      map_option (\<lambda>st. case commitCandidate (ps_tracker st) of None \<Rightarrow> st | Some off \<Rightarrow> st\<lparr>ps_tracker := snd (confirmCommit off (ps_tracker st))\<rparr>)
        (kv_find q (r_partitions (cl_registry pl)))" (is ?confirmed)
proof -
  let ?r = "cl_registry pl"
  let ?cps = "commitCandidates ?r"
  note sorted = registry_tracksD(1) [OF pipeline_invD(1) [OF pipeline_history_inv [OF assms]]]
  note cand = commitCandidates_iff [OF sorted]
  have distinct: "distinct (map cp_partition ?cps)" using commitCandidates_ordered [OF sorted] by (simp add: strict_sorted_iff)
  have "?sent \<and> ?confirmed"
  proof (cases "q \<in> cp_partition ` set ?cps")
    case True
    then obtain cp st where cp: "cp \<in> set ?cps" "cp_partition cp = q" "kv_find q (r_partitions ?r) = Some st"
      "ps_generation st = cp_generation cp" "commitCandidate (ps_tracker st) = Some (cp_offset cp)" using cand by auto
    then show ?thesis using confirm_all(2) [OF distinct, of cp pl st] offsets_of_distinct [OF distinct, of q "cp_offset cp"] by auto
  next
    case False
    have "commitCandidate (ps_tracker st) = None" if "kv_find q (r_partitions ?r) = Some st" for st
    proof (rule ccontr)
      assume "commitCandidate (ps_tracker st) \<noteq> None"
      then obtain off where "commitCandidate (ps_tracker st) = Some off" by blast
      with that have "\<lparr>cp_partition = q, cp_offset = off, cp_generation = ps_generation st\<rparr> \<in> set ?cps" by (simp add: cand)
      with False show False by force
    qed
    moreover have "kv_find q (offsets_of ?cps) = None"
      using False offsets_of_distinct [OF distinct, of q] by (metis imageI not_None_eq)
    ultimately show ?thesis using confirm_all(1) [OF distinct False, of pl] by (cases "kv_find q (r_partitions ?r)") simp_all
  qed
  then show ?sent ?confirmed by blast+
qed

lemma commitReady_effect:
  assumes "pipeline_history pl tr" "commitReady False now accepted pl lastCommit = (sent, pl', lastCommit')"
  shows "committedAt p pl' = (case confirmedBy accepted sent p of Some off \<Rightarrow> Some off | None \<Rightarrow> committedAt p pl)"
    and "sent \<noteq> [] \<Longrightarrow> COMMIT_INTERVAL \<le> now - lastCommit"
    and "COMMIT_INTERVAL \<le> now - lastCommit \<Longrightarrow> accepted \<Longrightarrow> commitCandidates (cl_registry pl') = []"
    and "lastCommit' = (if sent = [] then lastCommit else now)"
    and "cl_backlog pl' = cl_backlog pl" and "length sent \<le> 1"
proof -
  let ?cps = "commitCandidates (cl_registry pl)"
  let ?pl = "foldl (\<lambda>pl cp. pipeline_confirmCommit cp pl) pl ?cps"
  let ?due = "COMMIT_INTERVAL \<le> now - lastCommit"
  note tracks = registry_tracksD(3) [OF pipeline_invD(1) [OF pipeline_history_inv [OF assms(1)]]]
  note conf = candidates_confirmed [OF assms(1)]
  have res: "if ?due \<and> ?cps \<noteq> [] then sent = [offsets_of ?cps] \<and> pl' = (if accepted then ?pl else pl) \<and> lastCommit' = now
      else sent = [] \<and> pl' = pl \<and> lastCommit' = lastCommit"
    using assms(2) by (auto simp: commitReady_def commitOffsets_def pipeline_commitCandidates_def Let_def split: if_splits)
  have "committedAt p ?pl = (case kv_find p (offsets_of ?cps) of Some off \<Rightarrow> Some off | None \<Rightarrow> committedAt p pl)"
    using confirm_candidate [OF tracks, of p] unfolding committedAt_def conf
    by (auto split: option.split)
  then show "committedAt p pl' = (case confirmedBy accepted sent p of Some off \<Rightarrow> Some off | None \<Rightarrow> committedAt p pl)"
    using res by (auto simp: confirmedBy_def split: if_splits)
  show "sent \<noteq> [] \<Longrightarrow> ?due" "length sent \<le> 1" "lastCommit' = (if sent = [] then lastCommit else now)" using res by (auto split: if_splits)
  have "cl_backlog (foldl (\<lambda>pl cp. pipeline_confirmCommit cp pl) pl cps) = cl_backlog pl" for cps
    by (induction cps rule: rev_induct) (simp_all add: pipeline_confirmCommit_def)
  then show "cl_backlog pl' = cl_backlog pl" using res by (auto split: if_splits)
  have hist: "pipeline_history pl' tr"
    using commitReady_pipeline [OF assms(1), of False now accepted lastCommit] assms(2) by simp
  note sorted = registry_tracksD(1) [OF pipeline_invD(1) [OF pipeline_history_inv [OF hist]]]
  have none: "cp \<notin> set (commitCandidates (cl_registry pl'))" if "pl' = ?pl" for cp
  proof
    assume "cp \<in> set (commitCandidates (cl_registry pl'))"
    then obtain st' where st': "kv_find (cp_partition cp) (r_partitions (cl_registry pl')) = Some st'" "commitCandidate (ps_tracker st') \<noteq> None"
      using commitCandidates_iff [OF sorted] by auto
    from st'(1) [unfolded that conf(2)] obtain st where st: "kv_find (cp_partition cp) (r_partitions (cl_registry pl)) = Some st"
      "st' = (case commitCandidate (ps_tracker st) of None \<Rightarrow> st | Some off \<Rightarrow> st\<lparr>ps_tracker := snd (confirmCommit off (ps_tracker st))\<rparr>)"
      by blast
    with st'(2) confirm_candidate [OF tracks [OF st(1)]] show False by (cases "commitCandidate (ps_tracker st)") simp_all
  qed
  have "commitCandidates (cl_registry pl') = []" if "pl' = ?pl"
    using none [OF that] by (metis hd_in_set)
  then show "?due \<Longrightarrow> accepted \<Longrightarrow> commitCandidates (cl_registry pl') = []"
    using res by (auto split: if_splits)
qed

section \<open>Properties\<close>

text \<open>C31. What a turn of the polling loop does to a reachable consumer, whatever the client answers and whichever
  call throws (the broker's offsets lie below the maximum, and the generation counter is not exhausted). The pipeline moves along its
  transitions, and:
  after the callbacks exactly the partitions are assigned whose last callback assigned them, the others as before;
  exactly those polled records get a ticket of the current assignment that carry no error, belong to an assigned partition and lie above
  the records accepted before; the client is paused exactly when the backlog did not drain, and resumed when it did after a pause;
  after the callbacks' own commits one map at most is sent, only when the interval has passed, and the time is then remembered; a partition
  counts as committed what an accepted commit sent for it, and otherwise what it did before, nothing when a callback named it; after an accepted due commit nothing is left to
  commit.\<close>

theorem run_turn_effect:
  assumes "kc_pipeline kc = Some pl" "pipeline_history pl tr"
    and "generations_left (callback_partitions (ti_callbacks input)) pl"
    and "\<forall>rec \<in> set (polled input). legalOffset (cr_offset rec)"
    and "run_turn input kc = ((calls, sent), kc')"
  shows "\<exists>pl' evs sent'. kc_pipeline kc' = Some pl' \<and> pipeline_history pl' (tr @ evs) \<and>
    (\<forall>p. isAssigned p (cl_registry pl') = assignedAfter (ti_callbacks input) p (isAssigned p (cl_registry pl))) \<and>
    (\<forall>t. EvIssued t \<in> set evs \<longleftrightarrow>
       isCurrent t (cl_registry pl') \<and> above_issued tr (cl_registry pl') t \<and> first_seen (polled input) t) \<and>
    calls = (if ti_poll input = None then [] else if cl_backlog pl' \<noteq> [] then [Pause] else if kc_paused kc then [Resume] else []) \<and>
    kc_paused kc' = (if reaches_commit input calls then cl_backlog pl' \<noteq> [] else kc_paused kc) \<and>
    sent = fst (run_callbacks (ti_callbacks input) (Some pl)) @ sent' \<and> length sent' \<le> 1 \<and>
    (sent' \<noteq> [] \<longrightarrow> commit_due input calls kc) \<and>
    kc_lastCommit kc' = (if sent' = [] then kc_lastCommit kc else ti_now input) \<and>
    (\<forall>p. committedAt p pl' = (case confirmedBy (ti_commitAccepted input) sent' p of Some off \<Rightarrow> Some off
       | None \<Rightarrow> if p \<in> touched (ti_callbacks input) then None else committedAt p pl)) \<and>
    (commit_due input calls kc \<and> ti_commitAccepted input \<longrightarrow> pipeline_commitCandidates pl' = [])"
proof -
  obtain sent0 pl1 where cb: "run_callbacks (ti_callbacks input) (Some pl) = (sent0, Some pl1)" "pipeline_history pl1 tr"
    using run_callbacks_pipeline [OF assms(2,3)] by (metis prod.collapse)
  have eff: "isAssigned p (cl_registry pl1) = assignedAfter (ti_callbacks input) p (isAssigned p (cl_registry pl)) \<and>
      committedAt p pl1 = (if p \<in> touched (ti_callbacks input) then None else committedAt p pl)" for p
    using run_callbacks_effect [of "ti_callbacks input" pl pl1 p] cb(1) by simp
  show ?thesis
  proof (cases "ti_poll input")
    case None
    then have "calls = [] \<and> sent = sent0 \<and> kc' = kc\<lparr>kc_pipeline := Some pl1\<rparr>"
      using assms(1,5) cb(1) by (simp add: run_turn_def)
    with None eff cb show ?thesis
      by (intro exI [of _ pl1] exI [of _ "[]"])
        (simp add: polled_def first_seen_def reaches_commit_def commit_due_def confirmedBy_def)
  next
    case (Some records)
    obtain drained pl2 where pump: "pump (foldl (\<lambda>pl rec. consumer_ingest rec pl) pl1 records) = (drained, pl2)" by fastforce
    obtain evs where rec: "pipeline_history pl2 (tr @ evs)" "drained \<longleftrightarrow> cl_backlog pl2 = []"
      "\<And>t. EvIssued t \<in> set evs \<longleftrightarrow> isCurrent t (cl_registry pl2) \<and> above_issued tr (cl_registry pl2) t \<and> first_seen records t"
      "\<And>p. isAssigned p (cl_registry pl2) = isAssigned p (cl_registry pl1)" "\<And>p. committedAt p pl2 = committedAt p pl1"
      using records_effect [OF cb(2) _ pump] assms(4) Some by (metis polled_def option.simps(5))
    define flow where "flow = (if cl_backlog pl2 \<noteq> [] then [Pause] else if kc_paused kc then [Resume] else [])"
    have bp: "applyBackpressure (ti_flowThrows input) drained (kc_paused kc) =
        (flow, if reaches_commit input flow then Some (cl_backlog pl2 \<noteq> []) else None)"
      using Some rec(2) by (simp add: applyBackpressure_eq flow_def reaches_commit_def)
    show ?thesis
    proof (cases "reaches_commit input flow")
      case False
      then have "calls = flow \<and> sent = sent0 \<and> kc' = kc\<lparr>kc_pipeline := Some pl2\<rparr>"
        using assms(1,5) cb(1) Some pump bp by (simp add: run_turn_def)
      with False Some eff cb(1) rec show ?thesis
        by (intro exI [of _ pl2] exI [of _ evs] exI [of _ "[]"])
          (simp add: polled_def flow_def commit_due_def confirmedBy_def)
    next
      case True
      obtain sent' pl3 last where ready: "commitReady False (ti_now input) (ti_commitAccepted input) pl2 (kc_lastCommit kc) = (sent', pl3, last)"
        by (metis prod_cases3)
      have turn: "calls = flow \<and> sent = sent0 @ sent' \<and>
          kc' = kc\<lparr>kc_pipeline := Some pl3, kc_paused := cl_backlog pl2 \<noteq> [], kc_lastCommit := last\<rparr>"
        using assms(1,5) cb(1) Some pump bp True ready by (simp add: run_turn_def)
      have "pipeline_history pl3 (tr @ evs)"
        using commitReady_pipeline [OF rec(1), of False "ti_now input" "ti_commitAccepted input" "kc_lastCommit kc"] ready by simp
      moreover have "isCurrent t (cl_registry pl3) = isCurrent t (cl_registry pl2)" for t using items_ready [OF ready] by blast
      moreover have "committedAt p pl3 = (case confirmedBy (ti_commitAccepted input) sent' p of Some off \<Rightarrow> Some off
          | None \<Rightarrow> if p \<in> touched (ti_callbacks input) then None else committedAt p pl)" for p
        using commitReady_effect(1) [OF rec(1) ready, of p] rec(5) [of p] eff [of p] by (simp split: option.split)
      moreover note commitReady_effect(2-6) [OF rec(1) ready]
      ultimately show ?thesis using turn True Some eff cb(1) rec(3,4)
        by (intro exI [of _ pl3] exI [of _ evs] exI [of _ sent'])
          (simp add: polled_def flow_def commit_due_def isAssigned_current above_issued_def pipeline_commitCandidates_def)
    qed
  qed
qed

text \<open>A turn on the consumer whose record at offset 7 was skipped: partition 1 is assigned, a poll brings the records 7
  again and 9, and the interval has passed.\<close>

definition sampleTurn :: turn_input where
  "sampleTurn =
     \<lparr>ti_callbacks = [\<lparr>rb_type = PartitionsAssigned, rb_partitions = [(''orders.created'', 1)], rb_commitAccepted = True\<rparr>],
      ti_poll = Some (map (\<lambda>off. \<lparr>cr_error = False, cr_topic = ''orders.created'', cr_partition = 0, cr_offset = off, cr_value = ''{}'', cr_headers = []\<rparr>) [7, 9]),
      ti_flowThrows = False, ti_now = 1000, ti_commitAccepted = True\<rparr>"

definition sampleConsumer :: KafkaEventConsumer where
  "sampleConsumer = KafkaEventConsumer_create\<lparr>kc_pipeline := Some (samplePipeline None)\<rparr>"

theorem run_turn_effect_witness:
  "\<exists>pl' evs. kc_pipeline (snd (run_turn sampleTurn sampleConsumer)) = Some pl' \<and>
     pipeline_history pl' ([EvIssued sampleTicket, EvSkipped sampleTicket, EvCompleted sampleTicket] @ evs) \<and>
     isAssigned (PartitionKey ''orders.created'' 1) (cl_registry pl') \<and>
     EvIssued sampleTicket \<notin> set evs \<and> EvIssued (sampleTicket\<lparr>rt_offset := 9\<rparr>) \<in> set evs \<and>
     fst (run_turn sampleTurn sampleConsumer) = ([], [[(sampleKey, 10)]]) \<and> committedAt sampleKey pl' = Some 10 \<and>
     pipeline_commitCandidates pl' = []"
proof -
  let ?kc = "sampleConsumer" and ?tr = "[EvIssued sampleTicket, EvSkipped sampleTicket, EvCompleted sampleTicket]"
  let ?kc' = "snd (run_turn sampleTurn sampleConsumer)" and ?p = "PartitionKey ''orders.created'' 1"
  have "unat (r_lastGeneration (cl_registry (samplePipeline None))) = 1" by code_simp
  moreover have "callback_partitions (ti_callbacks sampleTurn) = 1" by code_simp
  ultimately have left: "generations_left (callback_partitions (ti_callbacks sampleTurn)) (samplePipeline None)"
    by (simp add: generations_left_def)
  have legal: "\<forall>rec \<in> set (polled sampleTurn). legalOffset (cr_offset rec)" by code_simp
  have kc: "kc_pipeline ?kc = Some (samplePipeline None)" by (simp add: sampleConsumer_def)
  have fst: "run_turn sampleTurn ?kc = (([], [[(sampleKey, 10)]]), ?kc')"
    by (rule prod_eqI) (code_simp, simp)
  obtain pl' evs sent' where eff: "kc_pipeline ?kc' = Some pl'" "pipeline_history pl' (?tr @ evs)"
    "isAssigned ?p (cl_registry pl') = assignedAfter (ti_callbacks sampleTurn) ?p (isAssigned ?p (cl_registry (samplePipeline None)))"
    "\<And>t. EvIssued t \<in> set evs \<longleftrightarrow> isCurrent t (cl_registry pl') \<and> above_issued ?tr (cl_registry pl') t \<and> first_seen (polled sampleTurn) t"
    "[[(sampleKey, 10)]] = fst (run_callbacks (ti_callbacks sampleTurn) (Some (samplePipeline None))) @ sent'"
    "committedAt sampleKey pl' = (case confirmedBy (ti_commitAccepted sampleTurn) sent' sampleKey of Some off \<Rightarrow> Some off
       | None \<Rightarrow> if sampleKey \<in> touched (ti_callbacks sampleTurn) then None else committedAt sampleKey (samplePipeline None))"
    "commit_due sampleTurn [] ?kc \<and> ti_commitAccepted sampleTurn \<longrightarrow> pipeline_commitCandidates pl' = []"
    using run_turn_effect [OF kc samplePipeline_history(1) left legal fst] by blast
  have "fst (run_callbacks (ti_callbacks sampleTurn) (Some (samplePipeline None))) = []" by code_simp
  then have sent': "sent' = [[(sampleKey, 10)]]" using eff(5) by simp
  have cur: "isCurrent sampleTicket (cl_registry (the (kc_pipeline ?kc')))" by code_simp
  then have cur: "isCurrent sampleTicket (cl_registry pl')" by (simp add: eff(1))
  then have "\<not> above_issued ?tr (cl_registry pl') sampleTicket" by (auto simp: above_issued_def)
  moreover have "first_seen (polled sampleTurn) (sampleTicket\<lparr>rt_offset := 9\<rparr>)"
    unfolding first_seen_def
    by (rule exI [of _ "[hd (polled sampleTurn)]"], rule exI [of _ "last (polled sampleTurn)"], rule exI [of _ "[]"]) code_simp
  moreover have "above_issued ?tr (cl_registry pl') (sampleTicket\<lparr>rt_offset := 9\<rparr>)"
    by (auto simp: above_issued_def sampleTicket_def)
  moreover have "isCurrent (sampleTicket\<lparr>rt_offset := 9\<rparr>) (cl_registry pl')"
    using cur by (auto simp: isCurrent_def split: option.splits)
  ultimately have "EvIssued sampleTicket \<notin> set evs" "EvIssued (sampleTicket\<lparr>rt_offset := 9\<rparr>) \<in> set evs" using eff(4) by blast+
  moreover have "assignedAfter (ti_callbacks sampleTurn) ?p (isAssigned ?p (cl_registry (samplePipeline None)))" by code_simp
  moreover have "confirmedBy (ti_commitAccepted sampleTurn) sent' sampleKey = Some 10" unfolding sent' by code_simp
  moreover have "commit_due sampleTurn [] ?kc \<and> ti_commitAccepted sampleTurn" by code_simp
  ultimately show ?thesis using eff fst by (intro exI [of _ pl'] exI [of _ evs]) (metis fst_conv option.simps(5))
qed

end
