(* ===== verification/Connections.thy ===== *)
theory Connections
  imports Sql
begin

text \<open>
  How the PostgreSQL repositories get their connections: the order and the worker repository keep one
  per thread and repository object (\<open>connectionForCurrentThread\<close>), the outbox repository one for
  itself. The driver is a parameter: whether a connection can be opened and a statement prepared, and
  what a transaction on a connection meets (\<open>tx_env\<close>).
\<close>

record 'c driver =
  dr_connect :: "pqxx_exception + 'c"
  dr_prepare :: "'c \<Rightarrow> string \<Rightarrow> pqxx_exception option"
  dr_tx :: "'c \<Rightarrow> tx_env"

section \<open>Opening\<close>

definition order_statements :: "string list" where
  "order_statements =
     [''insert_order'', ''insert_order_item'', ''insert_outbox_event'', ''select_order'', ''select_order_items'',
      ''update_order_status'']"

definition worker_statements :: "string list" where
  "worker_statements = [''insert_processed_event'', ''insert_outbox_event'']"

definition outbox_statements :: "string list" where
  "outbox_statements = [''select_unpublished_outbox'', ''mark_outbox_published'']"

fun prepareStatements :: "'c driver \<Rightarrow> 'c \<Rightarrow> string list \<Rightarrow> pqxx_exception + unit" where
  "prepareStatements dr c [] = Inr ()"
| "prepareStatements dr c (s # ss) =
     (case dr_prepare dr c s of Some e \<Rightarrow> Inl e | None \<Rightarrow> prepareStatements dr c ss)"

text \<open>The constructors connect and prepare, or throw. The order and the worker repository drop this
  connection again, the outbox repository keeps it.\<close>

definition Impl_create :: "string list \<Rightarrow> 'c driver \<Rightarrow> pqxx_exception + 'c" where
  "Impl_create statements dr =
     (case dr_connect dr of
        Inl e \<Rightarrow> Inl e
      | Inr c \<Rightarrow> (case prepareStatements dr c statements of Inl e \<Rightarrow> Inl e | Inr _ \<Rightarrow> Inr c))"

section \<open>One connection per thread\<close>

type_synonym ('i, 't, 'c) connections = "'i \<times> 't \<Rightarrow> 'c option"

text \<open>The key is the repository object and the thread.\<close>

definition connectionForCurrentThread ::
  "string list \<Rightarrow> 'c driver \<Rightarrow> 'i \<times> 't \<Rightarrow> ('i, 't, 'c) connections \<Rightarrow> pqxx_exception + 'c \<times> ('i, 't, 'c) connections" where
  "connectionForCurrentThread statements dr key connections =
     (case connections key of
        Some c \<Rightarrow> Inr (c, connections)
      | None \<Rightarrow>
          (case dr_connect dr of
             Inl e \<Rightarrow> Inl e
           | Inr c \<Rightarrow>
               (case prepareStatements dr c statements of
                  Inl e \<Rightarrow> Inl e
                | Inr _ \<Rightarrow> Inr (c, connections(key \<mapsto> c)))))"

text \<open>An operation of a repository: the connection is fetched inside the \<open>try\<close>, then the transaction runs
  on it.\<close>

definition on_connection ::
  "string list \<Rightarrow> ('d, 'a expected tx_end) tx \<Rightarrow> 'c driver \<Rightarrow> 'i \<times> 't \<Rightarrow> ('i, 't, 'c) connections \<times> 'd \<Rightarrow>
   'a expected \<times> ('i, 't, 'c) connections \<times> 'd" where
  "on_connection statements body dr key s =
     (case s of (connections, d) \<Rightarrow>
        case connectionForCurrentThread statements dr key connections of
          Inl e \<Rightarrow> (Inl (mapPqxxException e), connections, d)
        | Inr (c, connections') \<Rightarrow> (case run_tx body (dr_tx dr c) d of (res, d') \<Rightarrow> (res, connections', d')))"

text \<open>Operations of one thread on one repository, one after another, each with the driver as it then is.\<close>

fun thread_ops ::
  "string list \<Rightarrow> 'i \<times> 't \<Rightarrow> (('d, 'a expected tx_end) tx \<times> 'c driver) list \<Rightarrow> ('i, 't, 'c) connections \<times> 'd \<Rightarrow>
   'a expected list \<times> ('i, 't, 'c) connections \<times> 'd" where
  "thread_ops statements key [] s = ([], s)"
| "thread_ops statements key ((body, dr) # ops) s =
     (case on_connection statements body dr key s of (res, s1) \<Rightarrow>
        case thread_ops statements key ops s1 of (rest, s2) \<Rightarrow> (res # rest, s2))"

section \<open>Lemmas\<close>

lemma connection_cached [simp]:
  "connections key = Some c \<Longrightarrow> connectionForCurrentThread statements dr key connections = Inr (c, connections)"
  by (simp add: connectionForCurrentThread_def)

text \<open>Other threads and other repositories keep their connections, and a thread keeps its own.\<close>

lemma on_connection_cache:
  assumes "on_connection statements body dr key (connections, d) = (res, connections', d')"
  shows "connections' = connections \<or> connections key = None \<and> (\<exists>c. dr_connect dr = Inr c \<and> connections' = connections(key \<mapsto> c))"
  using assms
  by (auto simp: on_connection_def connectionForCurrentThread_def split: option.splits sum.splits prod.splits)

lemma on_connection_cached:
  assumes "connections key = Some c"
  shows "on_connection statements body dr key (connections, d) =
    (fst (run_tx body (dr_tx dr c) d), connections, snd (run_tx body (dr_tx dr c) d))"
  using assms by (simp add: on_connection_def split: prod.splits)

lemma run_tx_broken:
  "tx_fault env 0 = Some broken_connection \<Longrightarrow>
   run_tx body env d = (Inl (make_RepositoryError RepositoryError.ConnectionFailure), d)"
  by (simp add: run_tx_def mapPqxxException_def)

lemma thread_ops_lost:
  assumes "connections key = Some c" "\<forall>(body, dr) \<in> set ops. tx_fault (dr_tx dr c) 0 = Some broken_connection"
  shows "thread_ops statements key ops (connections, d) =
    (replicate (length ops) (Inl (make_RepositoryError RepositoryError.ConnectionFailure)), connections, d)"
  using assms(2)
  by (induction ops) (auto simp: on_connection_cached [of connections, OF assms(1)] run_tx_broken)

section \<open>Property\<close>

text \<open>C35. The cached connection of a thread is never replaced: once transactions on it fail because it is
  broken, every later operation of the thread on the repository fails with \<open>ConnectionFailure\<close> and
  changes nothing, however many there are and even if the server can be reached again and a new
  connection could be opened.\<close>

theorem lost_connection_is_kept:
  assumes "connections key = Some c"
    and "\<forall>(body, dr) \<in> set ops. tx_fault (dr_tx dr c) 0 = Some broken_connection \<and> (\<exists>c'. Impl_create statements dr = Inr c')"
  shows "thread_ops statements key ops (connections, d) =
    (replicate (length ops) (Inl (make_RepositoryError RepositoryError.ConnectionFailure)), connections, d)"
  using assms by (intro thread_ops_lost [of connections key c]) auto

text \<open>Connection 0 is broken, connection 1 could be opened.\<close>

definition sampleDriver :: "nat driver" where
  "sampleDriver =
     \<lparr>dr_connect = Inr 1, dr_prepare = (\<lambda>_ _. None),
      dr_tx = (\<lambda>c. (no_faults (\<lambda>_. []))\<lparr>tx_fault := (\<lambda>_. if c = 0 then Some broken_connection else None)\<rparr>)\<rparr>"

theorem lost_connection_is_kept_witness:
  "thread_ops order_statements ((), ()) [(tx_return (Commit (Inr True)), sampleDriver), (tx_return (Commit (Inr True)), sampleDriver)]
     ([((), ()) \<mapsto> 0], ()) =
   (replicate 2 (Inl (make_RepositoryError RepositoryError.ConnectionFailure)), [((), ()) \<mapsto> 0], ())"
  using lost_connection_is_kept [of "[((), ()) \<mapsto> 0]" "((), ())" 0
      "[(tx_return (Commit (Inr True)), sampleDriver), (tx_return (Commit (Inr True)), sampleDriver)]" order_statements "()"]
  by (simp add: sampleDriver_def Impl_create_def order_statements_def numeral_2_eq_2)

end
