(* ===== verification/Startup.thy ===== *)
theory Startup
  imports Gateway Connections KafkaConsumer JsonValue Outbox
begin

text \<open>
  \<open>main.cpp\<close> of the three services: reading the configuration, creating the parts, starting and stopping
  them in order. Command line, files, environment variables and what the libraries answer when the
  parts are created are parameters; logging is left out.
\<close>

section \<open>Ends of a process\<close>

text \<open>\<open>std::exit\<close> or a return from \<open>main\<close> with a code, an exception nobody catches, or going on.\<close>

datatype 'a startup = Exited int | Terminated | Going 'a

fun startup_bind :: "'a startup \<Rightarrow> ('a \<Rightarrow> 'b startup) \<Rightarrow> 'b startup" where
  "startup_bind (Exited n) f = Exited n"
| "startup_bind Terminated f = Terminated"
| "startup_bind (Going a) f = f a"

fun unwrapOrExit :: "'a expected \<Rightarrow> 'a startup" where
  "unwrapOrExit (Inl e) = Exited 1"
| "unwrapOrExit (Inr a) = Going a"

text \<open>An exception that \<open>main\<close> does not catch.\<close>

fun or_terminate :: "unit + 'a \<Rightarrow> 'a startup" where
  "or_terminate (Inl _) = Terminated"
| "or_terminate (Inr a) = Going a"

record CliOptions =
  cli_config :: "string option"
  cli_addressOverride :: "string option"
  cli_portOverride :: "int option"

section \<open>Configuration\<close>

definition orderServiceEnvironmentSchema :: "EnvironmentVariableSpec list" where
  "orderServiceEnvironmentSchema =
     [\<lparr>ev_name = ''ORDER_SERVICE_DATABASE_URL'', ev_required = True, ev_defaultValue = None\<rparr>,
      \<lparr>ev_name = ''ORDER_SERVICE_KAFKA_BROKERS'', ev_required = True, ev_defaultValue = None\<rparr>]"

definition workerServiceEnvironmentSchema :: "EnvironmentVariableSpec list" where
  "workerServiceEnvironmentSchema =
     [\<lparr>ev_name = ''WORKER_SERVICE_DATABASE_URL'', ev_required = True, ev_defaultValue = None\<rparr>,
      \<lparr>ev_name = ''WORKER_SERVICE_KAFKA_BROKERS'', ev_required = True, ev_defaultValue = None\<rparr>]"

definition gatewayEnvironmentSchema :: "EnvironmentVariableSpec list" where
  "gatewayEnvironmentSchema =
     [\<lparr>ev_name = ''GATEWAY_ORDER_SERVICE_ADDRESS'', ev_required = False, ev_defaultValue = None\<rparr>,
      \<lparr>ev_name = ''GATEWAY_ORDER_SERVICE_PORT'', ev_required = False, ev_defaultValue = None\<rparr>]"

text \<open>The order service returns errors, the gateway exits.\<close>

definition loadNetworkConfiguration ::
  "'j json_lib \<Rightarrow> (string \<Rightarrow> bool) \<Rightarrow> string option \<Rightarrow> string option \<Rightarrow> int option \<Rightarrow> NetworkConfiguration expected" where
  "loadNetworkConfiguration J is_address config addressOverride portOverride =
     (case loadSection J config ''network'' of
        Inl e \<Rightarrow> Inl e
      | Inr sect \<Rightarrow>
     (case NetworkConfiguration_fromJson J is_address sect of
        Inl e \<Rightarrow> Inl e
      | Inr network \<Rightarrow>
     (case (case addressOverride of
              None \<Rightarrow> Inr network
            | Some a \<Rightarrow> transform (NetworkAddress_create is_address a) (\<lambda>address. network\<lparr>nc_address := address\<rparr>)) of
        Inl e \<Rightarrow> Inl e
      | Inr network \<Rightarrow>
          Inr (case portOverride of None \<Rightarrow> network | Some port \<Rightarrow> network\<lparr>nc_port := port\<rparr>))))"

definition loadGatewayNetworkConfiguration ::
  "'j json_lib \<Rightarrow> (string \<Rightarrow> bool) \<Rightarrow> string option \<Rightarrow> string option \<Rightarrow> int option \<Rightarrow> NetworkConfiguration startup" where
  "loadGatewayNetworkConfiguration J is_address config addressOverride portOverride =
     startup_bind (unwrapOrExit (loadSection J config ''network'')) (\<lambda>sect.
     startup_bind (unwrapOrExit (NetworkConfiguration_fromJson J is_address sect)) (\<lambda>network.
     startup_bind
       (case addressOverride of
          None \<Rightarrow> Going network
        | Some a \<Rightarrow> startup_bind (unwrapOrExit (NetworkAddress_create is_address a)) (\<lambda>address. Going (network\<lparr>nc_address := address\<rparr>)))
       (\<lambda>network.
     Going (case portOverride of None \<Rightarrow> network | Some port \<Rightarrow> network\<lparr>nc_port := port\<rparr>))))"

text \<open>
  \<open>std::stoul\<close> in base 10: white space, a sign, digits; what follows is ignored. It throws (\<open>None\<close>) without
  digits and when the number does not fit 64 bits; a minus sign negates in the unsigned type.
\<close>

definition stoul :: "string \<Rightarrow> int option" where
  "stoul s =
     (let s1 = dropWhile (\<lambda>c. c = CHR '' '' \<or> 9 \<le> (of_char c :: nat) \<and> (of_char c :: nat) \<le> 13) s;
          neg = prefix ''-'' s1;
          s2 = (if prefix ''-'' s1 \<or> prefix ''+'' s1 then tl s1 else s1);
          ds = takeWhile isDigit s2;
          n = int (decimalValue ds) in
      if ds = [] \<or> 2 ^ 64 \<le> n then None
      else Some (if neg then (- n) mod 2 ^ 64 else n))"

definition loadOrderServiceConfiguration ::
  "'j json_lib \<Rightarrow> (string \<Rightarrow> bool) \<Rightarrow> string option \<Rightarrow> (string \<Rightarrow> string option) \<Rightarrow> UpstreamConfiguration startup" where
  "loadOrderServiceConfiguration J is_address config environment =
     (let envAddress = environment_get environment ''GATEWAY_ORDER_SERVICE_ADDRESS'';
          envPortRaw = environment_get environment ''GATEWAY_ORDER_SERVICE_PORT'' in
      case (envAddress, envPortRaw) of
        (Some address, Some portRaw) \<Rightarrow>
          startup_bind (unwrapOrExit (Host_create is_address address)) (\<lambda>host.
          case stoul portRaw of
            None \<Rightarrow> Exited 1
          | Some n \<Rightarrow> Going \<lparr>uc_host = host, uc_port = wrap_u16 n\<rparr>)
      | (None, None) \<Rightarrow>
          startup_bind (unwrapOrExit (loadSection J config ''services'')) (\<lambda>servicesSection.
          case jl_at J servicesSection ''orderService'' of
            Inl _ \<Rightarrow> Exited 1
          | Inr sect \<Rightarrow> unwrapOrExit (UpstreamConfiguration_fromJson J is_address sect))
      | _ \<Rightarrow> Exited 1)"

section \<open>The gateway\<close>

definition gateway_main ::
  "'j json_lib \<Rightarrow> (string \<Rightarrow> bool) \<Rightarrow> (string \<Rightarrow> string option) \<Rightarrow> CliOptions \<Rightarrow> (NetworkConfiguration \<times> 'k ProxyHandler) startup" where
  "gateway_main J is_address getenv options =
     startup_bind (unwrapOrExit (load getenv gatewayEnvironmentSchema)) (\<lambda>environment.
     startup_bind (loadGatewayNetworkConfiguration J is_address (cli_config options) (cli_addressOverride options)
       (cli_portOverride options)) (\<lambda>gatewayConfiguration.
     startup_bind (loadOrderServiceConfiguration J is_address (cli_config options) environment) (\<lambda>orderServiceConfiguration.
     Going (gatewayConfiguration, ProxyHandler_create [(''/orders'', orderServiceConfiguration)]))))"

section \<open>The order service and the worker\<close>

text \<open>The parts of a process that have threads, while they exist; what there was when the service was running, and when the
  publisher was told to stop.\<close>

record live =
  lv_outbox :: "OutboxPublisher option"
  lv_consumer :: "(KafkaConsumerConfiguration \<times> KafkaEventConsumer) option"

record process =
  pr_live :: live
  pr_served :: "(NetworkConfiguration option \<times> live) list"
  pr_publisherStops :: "live list"

definition process_init :: process where
  "process_init = \<lparr>pr_live = \<lparr>lv_outbox = None, lv_consumer = None\<rparr>, pr_served = [], pr_publisherStops = []\<rparr>"

text \<open>A piece of \<open>main\<close>. A return from \<open>main\<close> destroys its variables: the threads of publisher and consumer are \<open>std::jthread\<close>s,
  whose destructors ask them to stop and wait for them. \<open>std::exit\<close> and an exception that nobody catches do not.\<close>

type_synonym 'a main = "process \<Rightarrow> 'a startup \<times> process"

definition main_bind :: "'a main \<Rightarrow> ('a \<Rightarrow> 'b main) \<Rightarrow> 'b main" where
  "main_bind m f p =
     (case m p of (Going a, p') \<Rightarrow> f a p' | (Exited n, p') \<Rightarrow> (Exited n, p') | (Terminated, p') \<Rightarrow> (Terminated, p'))"

definition main_return :: "int \<Rightarrow> 'a main" where
  "main_return n p = (Exited n, p\<lparr>pr_live := \<lparr>lv_outbox = None, lv_consumer = None\<rparr>\<rparr>)"

definition main_exit :: "int \<Rightarrow> 'a main" where
  "main_exit n p = (Exited n, p)"

definition main_throw :: "'a main" where
  "main_throw p = (Terminated, p)"

definition main_going :: "'a \<Rightarrow> 'a main" where
  "main_going a p = (Going a, p)"

text \<open>\<open>try { ... } catch (...) { return 1; }\<close> around the construction of a part.\<close>

definition main_try :: "bool \<Rightarrow> unit main" where
  "main_try constructed = (if constructed then main_going () else main_return 1)"

definition constructs :: "string list \<Rightarrow> 'c driver \<Rightarrow> bool" where
  "constructs statements dr = (case Impl_create statements dr of Inl _ \<Rightarrow> False | Inr _ \<Rightarrow> True)"

definition start_publisher :: "string \<Rightarrow> unit main" where
  "start_publisher topic_name p =
     (Going (), p\<lparr>pr_live := pr_live p\<lparr>lv_outbox := Some (outbox_start (OutboxPublisher_create topic_name))\<rparr>\<rparr>)"

definition stop_publisher :: "unit main" where
  "stop_publisher p =
     (Going (), p\<lparr>pr_live := pr_live p\<lparr>lv_outbox := map_option outbox_stop (lv_outbox (pr_live p))\<rparr>,
       pr_publisherStops := pr_publisherStops p @ [pr_live p]\<rparr>)"

definition keep_consumer :: "KafkaConsumerConfiguration \<Rightarrow> KafkaEventConsumer \<Rightarrow> unit main" where
  "keep_consumer config kc p = (Going (), p\<lparr>pr_live := pr_live p\<lparr>lv_consumer := Some (config, kc)\<rparr>\<rparr>)"

text \<open>\<open>start\<close> of the consumer, with what its attempts to subscribe meet; when it fails the publisher is stopped.\<close>

definition start_consumer :: "KafkaConsumerConfiguration \<Rightarrow> (nat \<Rightarrow> bool) \<Rightarrow> KafkaEventConsumer \<Rightarrow> unit main" where
  "start_consumer config subscribes kc =
     (case consumer_start PipelineConfiguration_default subscribes kc of
        (Inl _, kc') \<Rightarrow> main_bind (keep_consumer config kc') (\<lambda>_. main_bind stop_publisher (\<lambda>_. main_return 1))
      | (Inr _, kc') \<Rightarrow> keep_consumer config kc')"

text \<open>\<open>HttpServer::run\<close>, which returns when the server was stopped, or the worker's wait for a signal.\<close>

definition serve :: "NetworkConfiguration option \<Rightarrow> unit main" where
  "serve network p = (Going (), p\<lparr>pr_served := pr_served p @ [(network, pr_live p)]\<rparr>)"

text \<open>\<open>joined\<close>, \<open>now\<close> and \<open>acceptedCommit\<close>: the pipeline that is left when its threads ended, the clock, and the answer to the last commit.\<close>

definition stop_consumer :: "ConsumerPipeline \<times> int \<times> bool \<Rightarrow> unit main" where
  "stop_consumer shutdown p =
     (case shutdown of (joined, now, acceptedCommit) \<Rightarrow>
        (Going (), p\<lparr>pr_live := pr_live p\<lparr>lv_consumer :=
           map_option (\<lambda>(config, kc). (config, snd (consumer_stop joined now acceptedCommit kc))) (lv_consumer (pr_live p))\<rparr>\<rparr>))"

text \<open>What the libraries answer: the database driver for a connection string, at the construction of each
  repository; the Kafka producer; the attempts to create a consumer and to subscribe; the server's socket; the shutdown.\<close>

record 'c parts =
  pt_repository :: "string \<Rightarrow> 'c driver"
  pt_outbox :: "string \<Rightarrow> 'c driver"
  pt_reservation :: "string \<Rightarrow> 'c driver"
  pt_producer :: "string \<Rightarrow> bool"
  pt_consumer :: "nat \<Rightarrow> bool"
  pt_subscribe :: "nat \<Rightarrow> bool"
  pt_bind :: "NetworkConfiguration \<Rightarrow> bool"
  pt_shutdown :: "ConsumerPipeline \<times> int \<times> bool"

definition order_consumer_config :: "string \<Rightarrow> KafkaConsumerConfiguration" where
  "order_consumer_config kafkaBrokers =
     \<lparr>kcc_brokers = kafkaBrokers, kcc_groupId = ''order-service-group'', kcc_topic = ''orders.reserved''\<rparr>"

definition order_run :: "'c parts \<Rightarrow> string \<Rightarrow> NetworkConfiguration \<Rightarrow> DatabaseConfiguration \<Rightarrow> unit main" where
  "order_run parts kafkaBrokers network database =
     (let connection = toConnectionString database; config = order_consumer_config kafkaBrokers in
      main_bind (main_try (constructs order_statements (pt_repository parts connection))) (\<lambda>_.
      main_bind (main_try (constructs outbox_statements (pt_outbox parts connection))) (\<lambda>_.
      main_bind (main_try (pt_producer parts kafkaBrokers)) (\<lambda>_.
      main_bind (start_publisher ''orders.created'') (\<lambda>_.
      main_bind (main_try (constructs order_statements (pt_reservation parts connection))) (\<lambda>_.
      main_bind (case createWithRetry (pt_consumer parts) 10 of Inl _ \<Rightarrow> main_exit 1 | Inr kc \<Rightarrow> main_going kc) (\<lambda>kc.
      main_bind (keep_consumer config kc) (\<lambda>_.
      main_bind (start_consumer config (pt_subscribe parts) kc) (\<lambda>_.
      main_bind (if pt_bind parts network then main_going () else main_throw) (\<lambda>_.
      main_bind (serve (Some network)) (\<lambda>_.
      main_bind (stop_consumer (pt_shutdown parts)) (\<lambda>_.
      main_bind stop_publisher (\<lambda>_.
      main_return 0)))))))))))))"

definition order_configuration ::
  "'j json_lib \<Rightarrow> (string \<Rightarrow> bool) \<Rightarrow> (string \<Rightarrow> string option) \<Rightarrow> CliOptions \<Rightarrow>
   (string \<times> NetworkConfiguration \<times> DatabaseConfiguration) startup" where
  "order_configuration J is_address getenv options =
     startup_bind (unwrapOrExit (load getenv orderServiceEnvironmentSchema)) (\<lambda>environment.
     startup_bind (or_terminate (environment_require environment ''ORDER_SERVICE_DATABASE_URL'')) (\<lambda>databaseUrl.
     startup_bind (or_terminate (environment_require environment ''ORDER_SERVICE_KAFKA_BROKERS'')) (\<lambda>kafkaBrokers.
     startup_bind (unwrapOrExit (loadNetworkConfiguration J is_address (cli_config options) (cli_addressOverride options)
       (cli_portOverride options))) (\<lambda>network.
     case fromUrl databaseUrl of
       None \<Rightarrow> Terminated
     | Some res \<Rightarrow> startup_bind (unwrapOrExit res) (\<lambda>database. Going (kafkaBrokers, network, database))))))"

definition order_main ::
  "'j json_lib \<Rightarrow> (string \<Rightarrow> bool) \<Rightarrow> (string \<Rightarrow> string option) \<Rightarrow> CliOptions \<Rightarrow> 'c parts \<Rightarrow> unit main" where
  "order_main J is_address getenv options parts =
     main_bind (\<lambda>p. (order_configuration J is_address getenv options, p)) (\<lambda>(kafkaBrokers, network, database).
     order_run parts kafkaBrokers network database)"

definition worker_configuration :: "(string \<Rightarrow> string option) \<Rightarrow> (string \<times> DatabaseConfiguration) startup" where
  "worker_configuration getenv =
     startup_bind (unwrapOrExit (load getenv workerServiceEnvironmentSchema)) (\<lambda>environment.
     startup_bind (or_terminate (environment_require environment ''WORKER_SERVICE_DATABASE_URL'')) (\<lambda>databaseUrl.
     startup_bind (or_terminate (environment_require environment ''WORKER_SERVICE_KAFKA_BROKERS'')) (\<lambda>kafkaBrokers.
     case fromUrl databaseUrl of
       None \<Rightarrow> Terminated
     | Some res \<Rightarrow> startup_bind (unwrapOrExit res) (\<lambda>database. Going (kafkaBrokers, database)))))"

text \<open>The worker waits for a signal, then stops. Its consumer is created in a loop of its own.\<close>

definition worker_consumer_config :: "string \<Rightarrow> KafkaConsumerConfiguration" where
  "worker_consumer_config kafkaBrokers =
     \<lparr>kcc_brokers = kafkaBrokers, kcc_groupId = ''worker-service-group'', kcc_topic = ''orders.created''\<rparr>"

definition worker_service_run :: "'c parts \<Rightarrow> string \<Rightarrow> DatabaseConfiguration \<Rightarrow> unit main" where
  "worker_service_run parts kafkaBrokers database =
     (let connection = toConnectionString database; config = worker_consumer_config kafkaBrokers in
      main_bind (main_try (constructs worker_statements (pt_repository parts connection))) (\<lambda>_.
      main_bind (main_try (constructs outbox_statements (pt_outbox parts connection))) (\<lambda>_.
      main_bind (main_try (pt_producer parts kafkaBrokers)) (\<lambda>_.
      main_bind (start_publisher ''orders.reserved'') (\<lambda>_.
      main_bind (if attempts_from (pt_consumer parts) 1 10 then keep_consumer config KafkaEventConsumer_create
                 else main_bind stop_publisher (\<lambda>_. main_return 1)) (\<lambda>_.
      main_bind (start_consumer config (pt_subscribe parts) KafkaEventConsumer_create) (\<lambda>_.
      main_bind (serve None) (\<lambda>_.
      main_bind (stop_consumer (pt_shutdown parts)) (\<lambda>_.
      main_bind stop_publisher (\<lambda>_.
      main_return 0))))))))))"

definition worker_main :: "(string \<Rightarrow> string option) \<Rightarrow> 'c parts \<Rightarrow> unit main" where
  "worker_main getenv parts =
     main_bind (\<lambda>p. (worker_configuration getenv, p)) (\<lambda>(kafkaBrokers, database).
     worker_service_run parts kafkaBrokers database)"

section \<open>Lemmas\<close>

text \<open>The variables that \<open>main\<close> asks for are required by its schema: \<open>require\<close> does not throw.\<close>

lemma required_loaded:
  assumes "load getenv schema = Inr environment" "distinct (map ev_name schema)" "spec \<in> set schema"
    "ev_required spec" "ev_defaultValue spec = None"
  shows "\<exists>v. getenv (ev_name spec) = Some v \<and> environment_require environment (ev_name spec) = Inr v"
  using environment_require_total [OF assms(1-3)] assms(4,5) by auto

lemma order_configuration_cases:
  "case order_configuration J is_address getenv options of
     Exited n \<Rightarrow> n = 1
   | Terminated \<Rightarrow> \<exists>url. getenv ''ORDER_SERVICE_DATABASE_URL'' = Some url \<and> fromUrl url = None
   | Going _ \<Rightarrow> True"
proof (cases "load getenv orderServiceEnvironmentSchema")
  case (Inr environment)
  obtain url brokers where "getenv ''ORDER_SERVICE_DATABASE_URL'' = Some url"
    "environment_require environment ''ORDER_SERVICE_DATABASE_URL'' = Inr url"
    "environment_require environment ''ORDER_SERVICE_KAFKA_BROKERS'' = Inr brokers"
    using required_loaded [OF Inr, of "orderServiceEnvironmentSchema ! 0"]
      required_loaded [OF Inr, of "orderServiceEnvironmentSchema ! 1"]
    by (auto simp: orderServiceEnvironmentSchema_def)
  with Inr show ?thesis
    by (cases "loadNetworkConfiguration J is_address (cli_config options) (cli_addressOverride options) (cli_portOverride options)";
        cases "fromUrl url"; cases "the (fromUrl url)") (auto simp: order_configuration_def)
qed (simp add: order_configuration_def)

lemma worker_configuration_cases:
  "case worker_configuration getenv of
     Exited n \<Rightarrow> n = 1
   | Terminated \<Rightarrow> \<exists>url. getenv ''WORKER_SERVICE_DATABASE_URL'' = Some url \<and> fromUrl url = None
   | Going _ \<Rightarrow> True"
proof (cases "load getenv workerServiceEnvironmentSchema")
  case (Inr environment)
  obtain url brokers where "getenv ''WORKER_SERVICE_DATABASE_URL'' = Some url"
    "environment_require environment ''WORKER_SERVICE_DATABASE_URL'' = Inr url"
    "environment_require environment ''WORKER_SERVICE_KAFKA_BROKERS'' = Inr brokers"
    using required_loaded [OF Inr, of "workerServiceEnvironmentSchema ! 0"]
      required_loaded [OF Inr, of "workerServiceEnvironmentSchema ! 1"]
    by (auto simp: workerServiceEnvironmentSchema_def)
  with Inr show ?thesis
    by (cases "fromUrl url"; cases "the (fromUrl url)") (auto simp: worker_configuration_def)
qed (simp add: worker_configuration_def)

text \<open>A service that runs: its publisher and its consumer have their threads.\<close>

definition publisher_runs :: "string \<Rightarrow> live \<Rightarrow> bool" where
  "publisher_runs topic_name l \<longleftrightarrow>
     (case lv_outbox l of None \<Rightarrow> False | Some publisher \<Rightarrow> op_topic publisher = topic_name \<and> op_thread publisher = Some False)"

definition consumer_runs :: "KafkaConsumerConfiguration \<Rightarrow> live \<Rightarrow> bool" where
  "consumer_runs config l \<longleftrightarrow>
     (case lv_consumer l of None \<Rightarrow> False | Some (config', kc) \<Rightarrow> config' = config \<and> kc_pipeline kc \<noteq> None \<and> kc_joinable kc)"

definition no_consumer_runs :: "live \<Rightarrow> bool" where
  "no_consumer_runs l \<longleftrightarrow> (case lv_consumer l of None \<Rightarrow> True | Some (_, kc) \<Rightarrow> \<not> kc_joinable kc)"

definition no_threads :: "live \<Rightarrow> bool" where
  "no_threads l \<longleftrightarrow> lv_outbox l = None \<and> lv_consumer l = None"

text \<open>What a main function shows of the service, for a configuration of its consumer.\<close>

definition runs_whole :: "string \<Rightarrow> KafkaConsumerConfiguration \<Rightarrow> unit startup \<times> process \<Rightarrow> bool" where
  "runs_whole topic_name config run \<longleftrightarrow>
     (case run of (ending, p) \<Rightarrow>
        list_all (\<lambda>(_, l). publisher_runs topic_name l \<and> consumer_runs config l) (pr_served p) \<and>
        list_all no_consumer_runs (pr_publisherStops p) \<and>
        (ending = Exited 0 \<longleftrightarrow> pr_served p \<noteq> []))"

lemmas main_defs = main_bind_def main_return_def main_exit_def main_throw_def main_going_def main_try_def
  start_publisher_def stop_publisher_def keep_consumer_def start_consumer_def serve_def stop_consumer_def

lemmas live_defs = runs_whole_def publisher_runs_def consumer_runs_def no_consumer_runs_def no_threads_def process_init_def
  outbox_start_def outbox_stop_def OutboxPublisher_create_def consumer_start_def consumer_stop_def KafkaEventConsumer_create_def

lemma order_run_whole:
  assumes "order_run parts kafkaBrokers network database process_init = (ending, p)"
  shows "runs_whole ''orders.created'' (order_consumer_config kafkaBrokers) (ending, p)"
    and "case ending of
        Exited n \<Rightarrow> (n = 0 \<or> n = 1) \<and> (no_threads (pr_live p) \<or>
          n = 1 \<and> \<not> attempts_from (pt_consumer parts) 1 10 \<and> publisher_runs ''orders.created'' (pr_live p))
      | Terminated \<Rightarrow> \<not> pt_bind parts network
      | Going _ \<Rightarrow> False"
  using assms
  by (auto simp: order_run_def main_defs live_defs createWithRetry_def Let_def split: if_splits prod.splits)

lemma worker_run_whole:
  assumes "worker_service_run parts kafkaBrokers database process_init = (ending, p)"
  shows "runs_whole ''orders.reserved'' (worker_consumer_config kafkaBrokers) (ending, p)"
    and "(ending = Exited 0 \<or> ending = Exited 1) \<and> no_threads (pr_live p)"
  using assms
  by (auto simp: worker_service_run_def main_defs live_defs Let_def split: if_splits prod.splits)

lemma idle_process:
  "runs_whole topic_name config (Exited 1, process_init)" "runs_whole topic_name config (Terminated, process_init)"
  "no_threads (pr_live process_init)"
  by (simp_all add: runs_whole_def no_threads_def process_init_def)

lemma order_main_cases:
  assumes "order_main J is_address getenv options parts process_init = (ending, p)"
  obtains (refused) "ending = Exited 1" "p = process_init"
  | (url) url where "ending = Terminated" "p = process_init" "getenv ''ORDER_SERVICE_DATABASE_URL'' = Some url" "fromUrl url = None"
  | (run) brokers network database where "order_configuration J is_address getenv options = Going (brokers, network, database)"
      "order_run parts brokers network database process_init = (ending, p)"
  using assms order_configuration_cases [where J = J and is_address = is_address and getenv = getenv and options = options]
  by (cases "order_configuration J is_address getenv options") (auto simp: order_main_def main_bind_def)

lemma worker_main_cases:
  assumes "worker_main getenv parts process_init = (ending, p)"
  obtains (refused) "ending = Exited 1" "p = process_init"
  | (url) url where "ending = Terminated" "p = process_init" "getenv ''WORKER_SERVICE_DATABASE_URL'' = Some url" "fromUrl url = None"
  | (run) brokers database where "worker_service_run parts brokers database process_init = (ending, p)"
  using assms worker_configuration_cases [where getenv = getenv]
  by (cases "worker_configuration getenv") (auto simp: worker_main_def main_bind_def)

lemma order_main_whole:
  assumes "order_main J is_address getenv options parts process_init = (ending, p)"
  shows "(\<exists>brokers. runs_whole ''orders.created'' (order_consumer_config brokers) (ending, p)) \<and>
    (case ending of
       Exited n \<Rightarrow> (n = 0 \<or> n = 1) \<and> (no_threads (pr_live p) \<or>
         n = 1 \<and> \<not> attempts_from (pt_consumer parts) 1 10 \<and> publisher_runs ''orders.created'' (pr_live p))
     | Terminated \<Rightarrow>
         (\<exists>brokers network database. order_configuration J is_address getenv options = Going (brokers, network, database) \<and>
            \<not> pt_bind parts network) \<or>
         p = process_init \<and> (\<exists>url. getenv ''ORDER_SERVICE_DATABASE_URL'' = Some url \<and> fromUrl url = None)
     | Going _ \<Rightarrow> False)"
  using assms
proof (cases rule: order_main_cases)
  case (run brokers network database)
  with order_run_whole(1) [OF run(2)] order_run_whole(2) [OF run(2)] show ?thesis
    by (cases ending) (auto)
qed (simp_all add: idle_process)

lemma worker_main_whole:
  assumes "worker_main getenv parts process_init = (ending, p)"
  shows "(\<exists>brokers. runs_whole ''orders.reserved'' (worker_consumer_config brokers) (ending, p)) \<and> no_threads (pr_live p) \<and>
    (case ending of
       Exited n \<Rightarrow> n = 0 \<or> n = 1
     | Terminated \<Rightarrow> p = process_init \<and> (\<exists>url. getenv ''WORKER_SERVICE_DATABASE_URL'' = Some url \<and> fromUrl url = None)
     | Going _ \<Rightarrow> False)"
  using assms
proof (cases rule: worker_main_cases)
  case (run brokers database)
  with worker_run_whole(1) [OF run] worker_run_whole(2) [OF run] show ?thesis by auto
qed (simp_all add: idle_process)

section \<open>Properties\<close>

text \<open>C37. A service runs whole or not at all, and leaves nothing behind. Both services accept work (requests, or records until a
  signal comes) only while the publisher of their outbox and their consumer have their threads, with the right topics and group; when the
  publisher is told to stop no consumer runs any more; they end with 0 exactly when they have served. On every way out the threads are joined,
  with one exception: when the order service cannot create its consumer, \<open>std::exit\<close> ends it with the publisher's thread still running.
  The order service is ended by an exception only when its address cannot be bound, or before anything is started, when the
  port of the database URL is beyond the range of \<open>int\<close>.\<close>

theorem services_run_whole:
  "(case order_main J is_address getenv options parts process_init of (ending, p) \<Rightarrow>
      (\<exists>brokers. runs_whole ''orders.created'' (order_consumer_config brokers) (ending, p)) \<and>
      (case ending of
         Exited n \<Rightarrow> (n = 0 \<or> n = 1) \<and> (no_threads (pr_live p) \<or>
           n = 1 \<and> \<not> attempts_from (pt_consumer parts) 1 10 \<and> publisher_runs ''orders.created'' (pr_live p))
       | Terminated \<Rightarrow>
           (\<exists>brokers network database. order_configuration J is_address getenv options = Going (brokers, network, database) \<and>
              \<not> pt_bind parts network) \<or>
           p = process_init \<and> (\<exists>url. getenv ''ORDER_SERVICE_DATABASE_URL'' = Some url \<and> fromUrl url = None)
       | Going _ \<Rightarrow> False)) \<and>
   (case worker_main getenv parts process_init of (ending, p) \<Rightarrow>
      (\<exists>brokers. runs_whole ''orders.reserved'' (worker_consumer_config brokers) (ending, p)) \<and> no_threads (pr_live p) \<and>
      (case ending of
         Exited n \<Rightarrow> n = 0 \<or> n = 1
       | Terminated \<Rightarrow> p = process_init \<and> (\<exists>url. getenv ''WORKER_SERVICE_DATABASE_URL'' = Some url \<and> fromUrl url = None)
       | Going _ \<Rightarrow> False))"
proof -
  obtain ending p ending' p' where run: "order_main J is_address getenv options parts process_init = (ending, p)"
    "worker_main getenv parts process_init = (ending', p')"
    by fastforce
  show ?thesis unfolding run prod.case by (rule conjI [OF order_main_whole [OF run(1)] worker_main_whole [OF run(2)]])
qed

text \<open>The exception happens: all parts can be created but the consumer, and the order service ends with its publisher running. With a
  consumer that subscribes it serves.\<close>

lemma order_run_leaves_publisher:
  fixes parts :: "'c parts"
  assumes "\<And>statements connection. constructs statements (pt_repository parts connection)"
    "\<And>statements connection. constructs statements (pt_outbox parts connection)"
    "\<And>statements connection. constructs statements (pt_reservation parts connection)" "pt_producer parts brokers"
  shows "\<not> attempts_from (pt_consumer parts) 1 10 \<Longrightarrow>
      (case order_run parts brokers network database process_init of (ending, p) \<Rightarrow>
         ending = Exited 1 \<and> publisher_runs ''orders.created'' (pr_live p))"
    and "attempts_from (pt_consumer parts) 1 10 \<Longrightarrow> subscribeWithRetry (pt_subscribe parts) \<Longrightarrow> pt_bind parts network \<Longrightarrow>
      fst (order_run parts brokers network database process_init) = Exited 0"
  using assms
  by (auto simp: order_run_def main_defs live_defs createWithRetry_def Let_def split: prod.splits)

text \<open>C38. Where the gateway finds the order service: in the environment when both variables are set, in the
  configuration file when neither is; with only one of them it exits. The port from the environment is
  taken modulo 65536, whatever follows its digits.\<close>

theorem gateway_upstream:
  assumes "load getenv gatewayEnvironmentSchema = Inr environment"
    and "loadOrderServiceConfiguration J is_address config environment = Going upstream"
  shows "case (getenv ''GATEWAY_ORDER_SERVICE_ADDRESS'', getenv ''GATEWAY_ORDER_SERVICE_PORT'') of
      (Some address, Some portRaw) \<Rightarrow>
        Host_create is_address address = Inr (uc_host upstream) \<and>
        (\<exists>n. stoul portRaw = Some n \<and> uc_port upstream = n mod 65536)
    | (None, None) \<Rightarrow>
        (\<exists>services sect. loadSection J config ''services'' = Inr services \<and> jl_at J services ''orderService'' = Inr sect \<and>
           UpstreamConfiguration_fromJson J is_address sect = Inr upstream)
    | _ \<Rightarrow> False"
proof -
  have env: "environment_get environment ''GATEWAY_ORDER_SERVICE_ADDRESS'' = getenv ''GATEWAY_ORDER_SERVICE_ADDRESS''"
    "environment_get environment ''GATEWAY_ORDER_SERVICE_PORT'' = getenv ''GATEWAY_ORDER_SERVICE_PORT''"
    using assms(1) by (auto simp: load_def gatewayEnvironmentSchema_def environment_get_def split: option.splits)
  have going: "startup_bind m f = Going b \<longleftrightarrow> (\<exists>a. m = Going a \<and> f a = Going b)" for m f b
    by (cases m) auto
  have unwrap: "unwrapOrExit r = Going a \<longleftrightarrow> r = Inr a" for r a by (cases r) auto
  have found: "(case r of Inl _ \<Rightarrow> Exited 1 | Inr s \<Rightarrow> f s) = Going b \<longleftrightarrow> (\<exists>s. r = Inr s \<and> f s = Going b)" for r f b
    by (cases r) auto
  show ?thesis
    using assms(2)
    by (auto simp: loadOrderServiceConfiguration_def env going unwrap found wrap_u16_def Let_def split: option.splits)
qed

text \<open>The port \<open>73617tcp\<close> becomes 8081.\<close>

definition sampleGetenv :: "string \<Rightarrow> string option" where
  "sampleGetenv = [''GATEWAY_ORDER_SERVICE_ADDRESS'' \<mapsto> ''orders'', ''GATEWAY_ORDER_SERVICE_PORT'' \<mapsto> ''73617tcp'']"

theorem gateway_upstream_witness:
  "\<exists>upstream. loadOrderServiceConfiguration value_lib (\<lambda>_. False) None sampleGetenv = Going upstream \<and>
     Host_create (\<lambda>_. False) ''orders'' = Inr (uc_host upstream)"
proof -
  have loaded: "load sampleGetenv gatewayEnvironmentSchema = Inr sampleGetenv"
    by (auto simp: load_def gatewayEnvironmentSchema_def sampleGetenv_def)
  have host: "Host_create (\<lambda>_. False) ''orders'' = Inr (Host ''orders'')" by code_simp
  have "stoul ''73617tcp'' = Some 73617"
    by (simp add: stoul_def isDigit_def less_eq_char_def decimalValue_def digitValue_def)
  with host have going: "loadOrderServiceConfiguration value_lib (\<lambda>_. False) None sampleGetenv =
      Going \<lparr>uc_host = Host ''orders'', uc_port = 8081\<rparr>"
    by (simp add: loadOrderServiceConfiguration_def sampleGetenv_def environment_get_def wrap_u16_def)
  from gateway_upstream [OF loaded going] going show ?thesis by (simp add: sampleGetenv_def)
qed

end
