(* ===== verification/TaskFailures.thy ===== *)
theory TaskFailures
  imports PipelineSafety
begin

text \<open>
  What becomes of a record whose task threw. A ticket is at one place of the pipeline at most, and ends once: it is
  completed, or its task throws. So a record whose task threw is not executed again, and as long as its partition stays assigned
  no position beyond it is offered for commit.
\<close>

section \<open>Tickets in the pipeline\<close>

text \<open>The tickets in the backlog, in the queue and with the workers, each as often as it is there.\<close>

definition ticketOf :: "(WorkItem \<times> exec_pc) thread \<Rightarrow> RecordTicket multiset" where
  "ticketOf th = (case activity th of Executing (item, pc) \<Rightarrow> {#wi_ticket item#} | _ \<Rightarrow> {#})"

definition flight :: "ConsumerPipeline \<Rightarrow> RecordTicket multiset" where
  "flight pl =
     image_mset wi_ticket (mset (cl_backlog pl)) + image_mset wi_ticket (mset (wp_queue (cl_pool pl))) +
     sum_list (map ticketOf (wp_threads (cl_pool pl)))"

lemma ticketOf_simps [simp]:
  "ticketOf (Thread s Waiting) = {#}" "ticketOf (Thread s Exited) = {#}"
  "ticketOf (Thread s (Executing (item, pc))) = {#wi_ticket item#}"
  by (simp_all add: ticketOf_def)

lemma ticketOf_update:
  assumes "i < length threads"
  shows "sum_list (map ticketOf (threads[i := th])) + ticketOf (threads ! i) = sum_list (map ticketOf threads) + ticketOf th"
  using assms by (induction threads arbitrary: i) (auto simp: ac_simps split: nat.split)

lemma set_flight: "set_mset (flight pl) = inFlight pl"
proof -
  have "set_mset (sum_list (map ticketOf ths)) = (wi_ticket \<circ> fst) ` runs ths" for ths
    by (induction ths) (force simp: runs_def ticketOf_def split: worker.splits)+
  then show ?thesis by (simp add: flight_def inFlight_def)
qed

text \<open>How often a trace says that a ticket ended.\<close>

definition ended :: "RecordTicket \<Rightarrow> event list \<Rightarrow> nat" where
  "ended t tr = length (filter (\<lambda>ev. ev = EvCompleted t \<or> ev = EvThrew t) tr)"

lemma ended_append [simp]: "ended t (tr @ evs) = ended t tr + ended t evs"
  by (simp add: ended_def)

lemma ended_simps [simp]: "ended t [] = 0" "ended t (ev # evs) = (if ev = EvCompleted t \<or> ev = EvThrew t then 1 else 0) + ended t evs"
  by (simp_all add: ended_def)

lemma ended_both: "EvThrew t \<in> set tr \<Longrightarrow> EvCompleted t \<in> set tr \<Longrightarrow> 2 \<le> ended t tr"
  by (induction tr) (auto simp: ended_def filter_empty_conv Suc_le_eq)

lemma ended_pos: "0 < ended t tr \<longleftrightarrow> EvCompleted t \<in> set tr \<or> EvThrew t \<in> set tr"
  by (auto simp: ended_def filter_empty_conv)

section \<open>What a step does to a ticket\<close>

lemma flight_worker_run:
  assumes "i < length (wp_threads (cl_pool pl))" "activity (wp_threads (cl_pool pl) ! i) = Executing (item, pc)"
  shows "flight (pl\<lparr>cl_registry := r, cl_pool := worker_run i None (cl_pool pl)\<rparr>) + {#wi_ticket item#} = flight pl"
    and "flight (pl\<lparr>cl_registry := r, cl_pool := worker_run i (Some (item, pc')) (cl_pool pl)\<rparr>) = flight pl"
proof -
  let ?th = "\<lambda>activity. Thread (stop_requested (wp_threads (cl_pool pl) ! i)) activity"
  have "ticketOf (wp_threads (cl_pool pl) ! i) = {#wi_ticket item#}" using assms(2) by (simp add: ticketOf_def)
  with ticketOf_update [OF assms(1), of "?th Waiting"] ticketOf_update [OF assms(1), of "?th (Executing (item, pc'))"]
  show "flight (pl\<lparr>cl_registry := r, cl_pool := worker_run i None (cl_pool pl)\<rparr>) + {#wi_ticket item#} = flight pl"
    "flight (pl\<lparr>cl_registry := r, cl_pool := worker_run i (Some (item, pc')) (cl_pool pl)\<rparr>) = flight pl"
    by (simp_all add: flight_def worker_run_def)
qed

lemma flight_task_step:
  assumes "task_step i obs pl = Some (evs, pl')"
  shows "count (flight pl') t + ended t evs \<le> count (flight pl) t"
proof -
  from assms obtain item pc acts res r nxt where step: "i < length (wp_threads (cl_pool pl))"
    "activity (wp_threads (cl_pool pl) ! i) = Executing (item, pc)"
    "execute_step (cl_policy pl) item (obs\<lparr>obs_stop := stop_requested (wp_threads (cl_pool pl) ! i)\<rparr>) pc
       (cl_registry pl) = (acts, res, r)"
    "evs = concat (map (action_events item (cl_registry pl)) acts)"
    "nxt = (case res of Running pc' \<Rightarrow> Some (item, pc') | Finished outcome \<Rightarrow> None)"
    "pl' = pl\<lparr>cl_registry := r, cl_pool := worker_run i nxt (cl_pool pl)\<rparr>"
    by (rule task_stepE)
  note run = flight_worker_run [where r = r, OF step(1,2)]
  show ?thesis
  proof (cases "\<exists>outcome. pc = Finishing outcome")
    case True
    then have "acts = [Completed (wi_ticket item)]" "nxt = None"
      using step(3,5) by (auto simp: execute_step_finishing simp del: execute_step.simps)
    moreover from this have "flight pl = flight pl' + {#wi_ticket item#}" using run(1) step(6) by simp
    ultimately show ?thesis using step(4) by (simp add: action_events_def completion_events_def)
  next
    case False
    then have "ended t evs = 0"
      using step(3,4) by (cases pc) (auto simp: Let_def action_events_def split: if_splits)
    moreover have "flight pl' \<subseteq># flight pl"
      using run(1,2) step(5,6) mset_subset_eq_add_left [of "flight pl'" "{#wi_ticket item#}"] by (cases res) auto
    ultimately show ?thesis by (simp add: mset_subset_eq_count)
  qed
qed

lemma flight_task_throws:
  assumes "task_throws i pl = Some (evs, pl')"
  shows "count (flight pl') t + ended t evs = count (flight pl) t"
proof -
  obtain item pc where throws: "i < length (wp_threads (cl_pool pl))" "activity (wp_threads (cl_pool pl) ! i) = Executing (item, pc)"
    "evs = [EvThrew (wi_ticket item)]" "pl' = pl\<lparr>cl_registry := cl_registry pl, cl_pool := worker_run i None (cl_pool pl)\<rparr>"
    using assms by (auto simp: task_throws_def split: if_splits worker.splits)
  with arg_cong [OF flight_worker_run(1) [where r = "cl_registry pl", OF throws(1,2)], of "\<lambda>M. count M t"] show ?thesis by auto
qed

lemma flight_worker_take:
  assumes "worker_take start_task i (cl_pool pl) = Some pool"
  shows "flight (pl\<lparr>cl_pool := pool\<rparr>) = flight pl"
proof -
  have i: "i < length (wp_threads (cl_pool pl))" "activity (wp_threads (cl_pool pl) ! i) = Waiting"
    using assms by (auto simp: worker_take_def split: if_splits)
  show ?thesis
    using assms i ticketOf_update [OF i(1)]
    by (auto simp: worker_take_def flight_def start_task_def ticketOf_def [of "_ ! _"] split: if_splits list.splits)
qed

lemma flight_stop_request: "flight (pl\<lparr>cl_pool := stop_request i (cl_pool pl)\<rparr>) = flight pl"
proof (cases "i < length (wp_threads (cl_pool pl))")
  case True
  then show ?thesis
    using ticketOf_update [OF True, of "Thread True (activity (wp_threads (cl_pool pl) ! i))"]
    by (simp add: flight_def stop_request_def ticketOf_def)
qed (simp add: stop_request_def)

lemma flight_pump_turn: "pump_turn pl = (res, pl') \<Longrightarrow> flight pl' = flight pl"
  by (auto simp: pump_turn_def trySubmit_def flight_def split: list.splits if_splits prod.splits)

text \<open>A record that is ingested gets a ticket of its own.\<close>

lemma flight_ingest:
  assumes "ingest rec pl = (outcome, pl')" "registry_tracks (cl_registry pl) (issuedIn tr) (completedIn tr)" "legalOffset (ir_offset rec)"
  shows "\<exists>new. (\<forall>t. count (flight pl') t + ended t (ingest_events outcome) \<le> count (flight pl) t + of_bool (t \<in> new)) \<and>
    (\<forall>t \<in> new. EvIssued t \<notin> set tr \<and> EvIssued t \<in> set (ingest_events outcome))"
proof (cases "registry_registerRecord (ir_partition rec) (ir_offset rec) (cl_registry pl)")
  case (Pair res r)
  show ?thesis
  proof (cases res)
    case (Inl e)
    then show ?thesis
      using assms(1) Pair by (intro exI [of _ "{}"]) (auto simp: ingest_def ingest_events_def flight_def)
  next
    case (Inr ticket)
    have "EvIssued ticket \<notin> set tr" using register_tracks(4) [OF assms(2,3)] Pair Inr by simp
    then show ?thesis
      using assms(1) Pair Inr
      by (intro exI [of _ "{ticket}"])
        (auto simp: ingest_def ingest_events_def completion_events_def flight_def workItem_of_def split: sum.splits prod.splits if_splits)
  qed
qed

lemma flight_step:
  assumes "pipeline_step pl evs pl'" "pipeline_inv pl tr"
  shows "\<exists>new. (\<forall>t. count (flight pl') t + ended t evs \<le> count (flight pl) t + of_bool (t \<in> new)) \<and>
    (\<forall>t \<in> new. EvIssued t \<notin> set tr \<and> EvIssued t \<in> set evs)"
  using assms(1)
proof cases
  case (Ingested rec outcome)
  with flight_ingest [OF Ingested(3) pipeline_invD(1) [OF assms(2)] Ingested(2)] show ?thesis by simp
next
  case (Revoked ps positions)
  then have "flight pl' \<subseteq># flight pl"
    by (auto simp: onPartitionsRevoked_def flight_def multiset_filter_subset image_mset_subseteq_mono split: prod.splits)
  with Revoked show ?thesis by (intro exI [of _ "{}"]) (simp add: mset_subset_eq_count)
next
  case (StopJoined pool)
  then have "flight pl' \<subseteq># flight pl" by (auto simp: stop_join_def flight_def split: if_splits)
  with StopJoined show ?thesis by (intro exI [of _ "{}"]) (simp add: mset_subset_eq_count)
qed (rule exI [of _ "{}"];
    auto simp: flight_task_step flight_task_throws flight_worker_take flight_stop_request flight_pump_turn;
    simp add: flight_def onPartitionsAssigned_def pipeline_confirmCommit_def stop_close_def pipeline_stopped_def)+

text \<open>So a ticket that ended is nowhere in the pipeline, and ended once.\<close>

lemma ended_once:
  "pipeline_history pl tr \<Longrightarrow>
   count (flight pl) t + ended t tr \<le> 1 \<and> (0 < ended t tr \<longrightarrow> EvIssued t \<in> set tr)"
proof (induction arbitrary: t rule: pipeline_history.induct)
  case (hist_init config)
  have "inFlight (ConsumerPipeline_create config) = {}"
    by (auto simp: inFlight_def ConsumerPipeline_create_def WorkerPool_create_def runs_def)
  then have "flight (ConsumerPipeline_create config) = {#}" by (metis set_flight set_mset_eq_empty_iff)
  then show ?case by simp
next
  case (hist_step pl tr evs pl')
  note inv = pipeline_history_inv [OF hist_step.hyps(1)]
  obtain new where new: "count (flight pl') t + ended t evs \<le> count (flight pl) t + of_bool (t \<in> new)"
    "t \<in> new \<Longrightarrow> EvIssued t \<notin> set tr \<and> EvIssued t \<in> set evs"
    using flight_step [OF hist_step.hyps(2) inv] by blast
  have issued: "0 < count (flight pl) t \<Longrightarrow> EvIssued t \<in> set tr"
    using pipeline_invD(3) [OF inv, of t] by (simp add: set_flight [symmetric])
  show ?case
  proof (cases "t \<in> new")
    case True
    with new(2) issued have "count (flight pl) t = 0" by (metis gr_zeroI)
    with True hist_step.IH [of t] new show ?thesis by auto
  next
    case False
    then have "count (flight pl') t + ended t evs \<le> count (flight pl) t" using new(1) by simp
    then have "0 < ended t evs \<Longrightarrow> EvIssued t \<in> set tr" by (intro issued) linarith
    with False hist_step.IH [of t] new(1) show ?thesis by auto
  qed
qed

section \<open>Properties\<close>

text \<open>C23. A record whose task threw holds up its partition. Whatever the pipeline has done since: the record is not in the
  backlog, in the queue or with a worker, so that it is not executed again; it was never completed; and no position beyond it is
  offered for commit under its assignment, neither periodically nor when the partition is revoked.\<close>

theorem thrown_record_blocks_commits:
  assumes "pipeline_history pl tr" "EvThrew t \<in> set tr"
  shows "t \<notin> inFlight pl \<and> EvCompleted t \<notin> set tr \<and>
    (\<forall>cp ps. cp \<in> set (pipeline_commitCandidates pl) \<or> cp \<in> set (fst (onPartitionsRevoked ps pl)) \<longrightarrow>
       rt_partition t = cp_partition cp \<longrightarrow> rt_generation t = cp_generation cp \<longrightarrow> cp_offset cp \<le> rt_offset t)"
proof -
  have "0 < ended t tr" using assms(2) by (simp add: ended_pos)
  with ended_once [OF assms(1), of t] have once: "ended t tr = 1" "count (flight pl) t = 0" "EvIssued t \<in> set tr" by auto
  then have "t \<notin> inFlight pl" "EvCompleted t \<notin> set tr"
    using ended_both [OF assms(2)] by (auto simp: set_flight [symmetric] count_eq_zero_iff)
  moreover have "cp_offset cp \<le> rt_offset t"
    if "cp \<in> set (pipeline_commitCandidates pl) \<or> cp \<in> set (fst (onPartitionsRevoked ps pl))"
      "rt_partition t = cp_partition cp" "rt_generation t = cp_generation cp" for cp ps
    using candidate_covers_completed [OF assms(1) that(1) once(3) that(2,3)] calculation(2) by force
  ultimately show ?thesis by blast
qed

definition sampleThrown :: ConsumerPipeline where
  "sampleThrown =
     (let pl1 = snd (pump_turn (samplePipeline (Some ''00000000-0000-4000-8000-000000000001'')));
          pl2 = pl1\<lparr>cl_pool := the (worker_take start_task 0 (cl_pool pl1))\<rparr> in
      snd (the (task_throws 0 pl2)))"

lemma sampleThrown_history: "pipeline_history sampleThrown [EvIssued sampleTicket, EvThrew sampleTicket]"
proof -
  let ?pl0 = "samplePipeline (Some ''00000000-0000-4000-8000-000000000001'')"
  let ?pl1 = "snd (pump_turn ?pl0)"
  let ?pl2 = "?pl1\<lparr>cl_pool := the (worker_take start_task 0 (cl_pool ?pl1))\<rparr>"
  have "pipeline_step ?pl0 [] ?pl1" by (rule pipeline_step.Pumped [OF prod.collapse [symmetric]])
  from pipeline_history.hist_step [OF samplePipeline_history(2) this] have 1: "pipeline_history ?pl1 [EvIssued sampleTicket]" by simp
  have "worker_take start_task 0 (cl_pool ?pl1) \<noteq> None" by code_simp
  then have "pipeline_step ?pl1 [] ?pl2" by (intro pipeline_step.Taken) auto
  from pipeline_history.hist_step [OF 1 this] have 2: "pipeline_history ?pl2 [EvIssued sampleTicket]" by simp
  have "map_option fst (task_throws 0 ?pl2) = Some [EvThrew sampleTicket]" by code_simp
  then have "pipeline_step ?pl2 [EvThrew sampleTicket] sampleThrown"
    by (intro pipeline_step.Thrown [of 0]) (auto simp: sampleThrown_def)
  from pipeline_history.hist_step [OF 2 this] show ?thesis by simp
qed

theorem thrown_record_blocks_commits_witness:
  "sampleTicket \<notin> inFlight sampleThrown \<and>
   filter (\<lambda>cp. cp_partition cp = sampleKey \<and> cp_generation cp = 1 \<and> 7 < cp_offset cp) (pipeline_commitCandidates sampleThrown) = []"
  using thrown_record_blocks_commits [OF sampleThrown_history, of sampleTicket]
  by (auto simp: sampleTicket_def filter_empty_conv)

end
