(* ===== verification/Logging.thy ===== *)
theory Logging
  imports Prelude
begin

text \<open>
  \<open>shared/logging\<close>: the sinks and the level that \<open>init\<close> sets, and \<open>get\<close>, which looks a category up in
  the registry of spdlog and registers a new logger when there is none. The registry is a parameter, the record
  \<open>spdlog_lib\<close>, with the documented behaviour as the locale \<open>spdlog_registry\<close>: each access to it is atomic, and
  registering a name that is taken throws. \<open>get\<close> as a whole is not guarded, so that each access is a step of a thread.
  What the loggers print is left out.
\<close>

section \<open>The library\<close>

datatype level = trace | debug | info | warn | err | critical | off

datatype sink = ConsoleSink | FileSink string nat nat | NullSink

record logger_entry =
  lg_sinks :: "sink list"
  lg_level :: level

text \<open>Looking a name up, registering a logger under its name (\<open>Inl ()\<close> is the exception), and changing the level
  of the logger registered under a name.\<close>

record 'r spdlog_lib =
  sp_get :: "'r \<Rightarrow> string \<rightharpoonup> logger_entry"
  sp_register :: "string \<Rightarrow> logger_entry \<Rightarrow> 'r \<Rightarrow> unit + 'r"
  sp_set_level :: "string \<Rightarrow> level \<Rightarrow> 'r \<Rightarrow> 'r"

section \<open>Operations\<close>

record 'r logging =
  lo_sinks :: "sink list"
  lo_defaultLevel :: level
  lo_threadPool :: bool
  lo_registry :: 'r

definition logging_start :: "'r \<Rightarrow> 'r logging" where
  "logging_start registry = \<lparr>lo_sinks = [], lo_defaultLevel = info, lo_threadPool = False, lo_registry = registry\<rparr>"

definition newLogger :: "'r logging \<Rightarrow> logger_entry" where
  "newLogger st = \<lparr>lg_sinks = lo_sinks st, lg_level = lo_defaultLevel st\<rparr>"

text \<open>\<open>get\<close>, its two accesses apart: the logger that was found, or the registration of the new one.\<close>

definition get_lookup :: "'r spdlog_lib \<Rightarrow> string \<Rightarrow> 'r logging \<Rightarrow> logger_entry option" where
  "get_lookup L category st = sp_get L (lo_registry st) category"

definition get_register :: "'r spdlog_lib \<Rightarrow> string \<Rightarrow> logger_entry \<Rightarrow> 'r logging \<Rightarrow> (unit + logger_entry) \<times> 'r logging" where
  "get_register L category new st =
     (case sp_register L category new (lo_registry st) of
        Inl _ \<Rightarrow> (Inl (), st)
      | Inr registry \<Rightarrow> (Inr new, st\<lparr>lo_registry := registry\<rparr>))"

definition logger_get :: "'r spdlog_lib \<Rightarrow> string \<Rightarrow> 'r logging \<Rightarrow> (unit + logger_entry) \<times> 'r logging" where
  "logger_get L category st =
     (case get_lookup L category st of
        Some existing \<Rightarrow> (Inr existing, st)
      | None \<Rightarrow> get_register L category (newLogger st) st)"

definition logger_init ::
  "'r spdlog_lib \<Rightarrow> bool \<Rightarrow> bool \<Rightarrow> level \<Rightarrow> string \<Rightarrow> nat \<Rightarrow> nat \<Rightarrow> 'r logging \<Rightarrow> (unit + unit) \<times> 'r logging" where
  "logger_init L enableConsole enableFile level fileName maxSizeMB maxFiles st =
     (let consoleSinks = (if enableConsole then [ConsoleSink] else []);
          fileSinks = (if enableFile then [FileSink fileName (1024 * 1024 * maxSizeMB) maxFiles] else []);
          loggerSinks = consoleSinks @ fileSinks;
          loggerSinks = (if loggerSinks = [] then [NullSink] else loggerSinks) in
      (case logger_get L ''Logger'' (st\<lparr>lo_threadPool := True, lo_sinks := loggerSinks, lo_defaultLevel := level\<rparr>) of
         (Inl _, st') \<Rightarrow> (Inl (), st')
       | (Inr _, st') \<Rightarrow> (Inr (), st')))"

definition setLoggingLevel :: "'r spdlog_lib \<Rightarrow> string \<Rightarrow> level \<Rightarrow> 'r logging \<Rightarrow> (unit + unit) \<times> 'r logging" where
  "setLoggingLevel L category level st =
     (case logger_get L category st of
        (Inl _, st') \<Rightarrow> (Inl (), st')
      | (Inr _, st') \<Rightarrow> (Inr (), st'\<lparr>lo_registry := sp_set_level L category level (lo_registry st')\<rparr>))"

section \<open>Threads\<close>

text \<open>A call of \<open>get\<close> in a thread: not begun, between its two accesses, returned or left by the exception.\<close>

datatype get_call = Calling string | Registering string logger_entry | Got logger_entry | GetThrew

fun call_step :: "'r spdlog_lib \<Rightarrow> get_call \<Rightarrow> 'r logging \<Rightarrow> get_call \<times> 'r logging" where
  "call_step L (Calling category) st =
     (case get_lookup L category st of
        Some existing \<Rightarrow> (Got existing, st)
      | None \<Rightarrow> (Registering category (newLogger st), st))"
| "call_step L (Registering category new) st =
     (case get_register L category new st of
        (Inl _, st') \<Rightarrow> (GetThrew, st')
      | (Inr entry, st') \<Rightarrow> (Got entry, st'))"
| "call_step L call st = (call, st)"

text \<open>The accesses of the threads in the order of a schedule.\<close>

fun run_calls :: "'r spdlog_lib \<Rightarrow> nat list \<Rightarrow> get_call list \<Rightarrow> 'r logging \<Rightarrow> get_call list \<times> 'r logging" where
  "run_calls L [] calls st = (calls, st)"
| "run_calls L (i # schedule) calls st =
     (if i < length calls then
        case call_step L (calls ! i) st of (call, st') \<Rightarrow> run_calls L schedule (calls[i := call]) st'
      else run_calls L schedule calls st)"

section \<open>What the registry promises\<close>

locale spdlog_registry =
  fixes L :: "'r spdlog_lib"
  assumes register_new: "sp_get L registry category = None \<Longrightarrow>
      \<exists>registry'. sp_register L category entry registry = Inr registry' \<and>
        sp_get L registry' = (sp_get L registry)(category \<mapsto> entry)"
    and register_taken: "sp_get L registry category \<noteq> None \<Longrightarrow> sp_register L category entry registry = Inl ()"
    and set_level: "sp_get L registry category = Some entry \<Longrightarrow>
      sp_get L (sp_set_level L category level registry) = (sp_get L registry)(category \<mapsto> entry\<lparr>lg_level := level\<rparr>)"
begin

abbreviation loggers :: "'r logging \<Rightarrow> string \<rightharpoonup> logger_entry" where
  "loggers st \<equiv> sp_get L (lo_registry st)"

lemma get_register_new:
  assumes "loggers st category = None"
  shows "\<exists>st'. get_register L category new st = (Inr new, st') \<and> loggers st' = (loggers st)(category \<mapsto> new) \<and>
    lo_sinks st' = lo_sinks st \<and> lo_defaultLevel st' = lo_defaultLevel st"
  using register_new [OF assms, of new] by (auto simp: get_register_def)

lemma get_register_taken:
  assumes "loggers st category \<noteq> None"
  shows "get_register L category new st = (Inl (), st)"
  using register_taken [OF assms] by (simp add: get_register_def)

text \<open>One thread alone never gets the exception; \<open>get\<close> leaves the category registered with what it returned.\<close>

lemma get_alone:
  "\<exists>entry st'. logger_get L category st = (Inr entry, st') \<and> loggers st' = (loggers st)(category \<mapsto> entry) \<and>
     lo_sinks st' = lo_sinks st \<and> lo_defaultLevel st' = lo_defaultLevel st \<and>
     (case loggers st category of None \<Rightarrow> entry = newLogger st | Some existing \<Rightarrow> entry = existing)"
proof (cases "loggers st category")
  case None
  from get_register_new [OF None, of "newLogger st"] None show ?thesis by (auto simp: logger_get_def get_lookup_def)
next
  case (Some existing)
  then show ?thesis by (auto simp: logger_get_def get_lookup_def fun_upd_idem)
qed

text \<open>After \<open>init\<close> every new logger has a sink and the chosen level.\<close>

lemma init_new_loggers:
  "\<exists>st'. logger_init L enableConsole enableFile level fileName maxSizeMB maxFiles st = (Inr (), st') \<and>
     lg_sinks (newLogger st') \<noteq> [] \<and> lg_level (newLogger st') = level \<and> loggers st' ''Logger'' \<noteq> None"
proof -
  let ?consoleSinks = "if enableConsole then [ConsoleSink] else []"
  let ?fileSinks = "if enableFile then [FileSink fileName (1024 * 1024 * maxSizeMB) maxFiles] else []"
  let ?sinks = "if ?consoleSinks @ ?fileSinks = [] then [NullSink] else ?consoleSinks @ ?fileSinks"
  obtain entry st' where "logger_get L ''Logger'' (st\<lparr>lo_threadPool := True, lo_sinks := ?sinks, lo_defaultLevel := level\<rparr>) = (Inr entry, st')"
    "loggers st' ''Logger'' = Some entry" "lo_sinks st' = ?sinks" "lo_defaultLevel st' = level"
    using get_alone [of "''Logger''" "st\<lparr>lo_threadPool := True, lo_sinks := ?sinks, lo_defaultLevel := level\<rparr>"] by auto
  then show ?thesis unfolding logger_init_def Let_def newLogger_def by auto
qed

lemma set_level_alone:
  "\<exists>entry st'. setLoggingLevel L category level st = (Inr (), st') \<and>
     loggers st' = (loggers st)(category \<mapsto> entry\<lparr>lg_level := level\<rparr>)"
  using get_alone [of category st] set_level by (fastforce simp: setLoggingLevel_def)

text \<open>Calls for different categories do not disturb each other: whatever the schedule, a call that is between its
  accesses still finds its category free.\<close>

definition undisturbed :: "'r logging \<Rightarrow> string \<Rightarrow> get_call \<Rightarrow> bool" where
  "undisturbed st category call \<longleftrightarrow>
     (case call of
        Calling category' \<Rightarrow> category' = category
      | Registering category' _ \<Rightarrow> category' = category \<and> loggers st category = None
      | Got _ \<Rightarrow> True
      | GetThrew \<Rightarrow> False)"

lemma call_step_undisturbed:
  assumes "undisturbed st category call" "call_step L call st = (call', st')"
  shows "undisturbed st' category call' \<and> (\<forall>other. other \<noteq> category \<longrightarrow> loggers st' other = loggers st other)"
proof (cases call)
  case (Registering category' new)
  with assms(1) have "category' = category" "loggers st category = None" by (auto simp: undisturbed_def)
  with get_register_new [of st category new] Registering assms(2) show ?thesis by (auto simp: undisturbed_def)
qed (use assms in \<open>auto simp: undisturbed_def get_lookup_def split: option.splits\<close>)

lemma calls_undisturbed:
  assumes "list_all2 (undisturbed st) categories calls" "distinct categories" "i < length calls"
    and "call_step L (calls ! i) st = (call, st')"
  shows "list_all2 (undisturbed st') categories (calls[i := call])"
proof (rule list_all2_all_nthI)
  show "length categories = length (calls[i := call])" using assms(1) by (simp add: list_all2_lengthD)
  fix j assume j: "j < length categories"
  have len: "length calls = length categories" using assms(1) by (simp add: list_all2_lengthD)
  have before: "undisturbed st (categories ! k) (calls ! k)" if "k < length categories" for k
    using assms(1) that by (simp add: list_all2_nthD)
  note step = call_step_undisturbed [OF before assms(4), unfolded len [symmetric], OF assms(3)]
  show "undisturbed st' (categories ! j) (calls[i := call] ! j)"
  proof (cases "j = i")
    case False
    then have "categories ! j \<noteq> categories ! i" using assms(2,3) j len by (simp add: nth_eq_iff_index_eq)
    with step before [OF j] False show ?thesis by (auto simp: undisturbed_def split: get_call.splits)
  qed (use step assms(3) in simp)
qed

lemma run_calls_undisturbed:
  "list_all2 (undisturbed st) categories calls \<Longrightarrow> distinct categories \<Longrightarrow>
   run_calls L schedule calls st = (calls', st') \<Longrightarrow> list_all2 (undisturbed st') categories calls'"
proof (induction schedule arbitrary: calls st)
  case (Cons i schedule)
  show ?case
  proof (cases "i < length calls")
    case True
    obtain call st1 where step: "call_step L (calls ! i) st = (call, st1)" by (rule prod.exhaust)
    with True Cons.prems(3) have "run_calls L schedule (calls[i := call]) st1 = (calls', st')" by simp
    from Cons.IH [OF calls_undisturbed [OF Cons.prems(1,2) True step] Cons.prems(2) this] show ?thesis .
  qed (use Cons in auto)
qed simp

lemma different_categories:
  assumes "distinct categories"
  shows "GetThrew \<notin> set (fst (run_calls L schedule (map Calling categories) st))"
proof -
  have "list_all2 (undisturbed st) categories (map Calling categories)"
    by (auto simp: list_all2_conv_all_nth undisturbed_def)
  from run_calls_undisturbed [OF this assms prod.collapse [symmetric], of schedule] show ?thesis
    by (fastforce simp: list_all2_conv_all_nth in_set_conv_nth undisturbed_def)
qed

text \<open>Two calls for the same category: what the schedule decides.\<close>

lemma same_category:
  assumes "logger_get L category st = (Inr entry, st')"
  shows "fst (run_calls L [0, 0, 1, 1] [Calling category, Calling category] st) = [Got entry, Got entry] \<and>
    fst (run_calls L [0, 1, 0, 1] [Calling category, Calling category] st) =
      (case loggers st category of None \<Rightarrow> [Got entry, GetThrew] | Some _ \<Rightarrow> [Got entry, Got entry])"
proof (cases "loggers st category")
  case None
  from get_register_new [OF None, of "newLogger st"] obtain st1 where
    reg: "get_register L category (newLogger st) st = (Inr (newLogger st), st1)"
      "loggers st1 = (loggers st)(category \<mapsto> newLogger st)" by auto
  moreover have "get_register L category (newLogger st) st1 = (Inl (), st1)"
    using reg(2) by (intro get_register_taken) simp
  moreover have "entry = newLogger st" using assms None reg(1) by (simp add: logger_get_def get_lookup_def)
  ultimately show ?thesis using None by (simp add: get_lookup_def)
next
  case (Some existing)
  then show ?thesis using assms by (simp add: logger_get_def get_lookup_def)
qed

end

text \<open>A registry as a map of names.\<close>

definition map_registry :: "(string \<rightharpoonup> logger_entry) spdlog_lib" where
  "map_registry = \<lparr>sp_get = id,
     sp_register = (\<lambda>category entry registry. if registry category = None then Inr (registry(category \<mapsto> entry)) else Inl ()),
     sp_set_level = (\<lambda>category level registry.
       registry(category := map_option (\<lambda>entry. entry\<lparr>lg_level := level\<rparr>) (registry category)))\<rparr>"

interpretation mr: spdlog_registry map_registry
  by unfold_locales (auto simp: map_registry_def)

section \<open>Properties\<close>

text \<open>C39. A thread alone always gets a logger from \<open>get\<close>, and threads that ask for different categories do, whatever
  the order of their accesses. But when the category has no logger yet, of two threads that both look it
  up before one of them registers its logger, the second to register gets an exception from its first log call.\<close>

theorem logger_get_race:
  assumes "spdlog_registry L"
  shows "\<exists>entry st'. logger_get L category st = (Inr entry, st') \<and>
      sp_get L (lo_registry st') = (sp_get L (lo_registry st))(category \<mapsto> entry) \<and>
      (distinct categories \<longrightarrow> GetThrew \<notin> set (fst (run_calls L schedule (map Calling categories) st))) \<and>
      fst (run_calls L [0, 0, 1, 1] [Calling category, Calling category] st) = [Got entry, Got entry] \<and>
      fst (run_calls L [0, 1, 0, 1] [Calling category, Calling category] st) =
        (case sp_get L (lo_registry st) category of None \<Rightarrow> [Got entry, GetThrew] | Some _ \<Rightarrow> [Got entry, Got entry])"
  using spdlog_registry.get_alone [OF assms, of category st] spdlog_registry.same_category [OF assms, of category st]
    spdlog_registry.different_categories [OF assms, of categories schedule st] by blast

theorem logger_get_race_witness:
  "fst (run_calls map_registry [0, 1, 0, 1] [Calling ''RecordExecutor'', Calling ''RecordExecutor''] (logging_start Map.empty)) =
     [Got \<lparr>lg_sinks = [], lg_level = info\<rparr>, GetThrew] \<and>
   GetThrew \<notin> set (fst (run_calls map_registry [1, 0, 0, 1] (map Calling [''WorkerPool'', ''RecordExecutor'']) (logging_start Map.empty)))"
  using logger_get_race [OF mr.spdlog_registry_axioms, of "''RecordExecutor''" "logging_start Map.empty"
      "[''WorkerPool'', ''RecordExecutor'']" "[1, 0, 0, 1]"]
  by (auto simp: logger_get_def get_lookup_def get_register_def newLogger_def logging_start_def map_registry_def)

end
