(* ===== verification/Spec2Isabelle.thy ===== *)
theory Spec2Isabelle
  imports OrderDelivery PollingLoop Startup TaskFailures Logging
begin

text \<open>
  \<^bold>\<open>LiquidPetProject: a verification library.\<close>

  \<^bold>\<open>The program.\<close> Three C++ services keep and process orders. A client talks to the \<^emph>\<open>gateway\<close>
  (\<open>src/gateway\<close>), which forwards every request below \<open>/orders\<close> to the \<^emph>\<open>order service\<close>
  (\<open>src/order-service\<close>). The order service stores an order, its items and a row of the table \<open>outbox\<close> in one
  transaction; a thread of its own (\<open>src/shared/outbox\<close>) moves the rows of that table to Kafka. The
  \<^emph>\<open>worker\<close> (\<open>src/worker-service\<close>) consumes these records, notes each event id it has seen and writes the
  reservation to its own outbox, again in one transaction; the records published from there are consumed by the
  order service, which moves the order from \<open>Created\<close> to \<open>Reserved\<close>. Both consumers are built from
  \<open>src/shared/messaging\<close>: a polling thread, a pool of workers, and the bookkeeping of finished offsets that
  decides which positions may be committed. Delivery is at least once, handling is idempotent.

  \<^bold>\<open>Theories.\<close> In the order in which they build on one another:

  \<^item> \<open>Prelude\<close>: \<open>std::expected\<close> as a sum, ranges and wrap-around of the fixed-width integers, shared lemmas.
    \<open>ErrorCodes\<close>: every error enumeration with its category, message and \<open>make_error_code\<close>. \<open>StdMap\<close>:
    \<open>std::map\<close>, interface \<open>ordered_map\<close>. \<open>Decimal\<close>: \<open>std::to_string\<close>, \<open>std::stoi\<close>. \<open>Double\<close>: IEEE 754
    binary64 as far as it is used. \<open>Ids\<close>: \<open>shared/models/StrongID.h\<close>, \<open>OrderIds.h\<close>.
  \<^item> \<open>OffsetTracker\<close>, \<open>PartitionRegistry\<close>, \<open>RetryPolicy\<close>, \<open>RecordExecutor\<close>, \<open>WorkerPool\<close>,
    \<open>ConsumerPipeline\<close>: the headers of these names in \<open>shared/messaging\<close>, one record for each class and one
    definition for each method. \<open>PipelineSafety\<close> has the invariants of the whole, \<open>TaskFailures\<close> what follows when a
    task throws. \<open>Logging\<close>: \<open>shared/logging\<close>. \<open>KafkaConsumer\<close> and
    \<open>KafkaPublisher\<close>: \<open>shared/messaging/consumer\<close>, \<open>shared/messaging/producer\<close> and the dead-letter sink.
  \<^item> \<open>Money\<close>, \<open>Order\<close>: \<open>order-service/models\<close>. \<open>Json\<close>, \<open>OrderJson\<close>, \<open>EventJson\<close>: \<open>shared/json\<close> and the
    mappers of orders and events; \<open>JsonValue\<close>: JSON values, their printer and parser.
  \<^item> \<open>Sql\<close>: transactions and \<open>PqxxExceptionMapper.h\<close>. \<open>OutboxTable\<close>, \<open>OrderRepository\<close>,
    \<open>WorkerRepository\<close>: the tables of the migrations, the prepared statements of the \<open>*Queries.h\<close> files and the
    PostgreSQL repositories with their row mappers. \<open>Connections\<close>: the connection each thread keeps. \<open>Outbox\<close>:
    \<open>shared/outbox\<close>; \<open>OutboxRelay\<close>: the publisher, the broker and restarts as single steps. \<open>EventHandlers\<close>: \<open>OrderReservationHandler.cpp\<close>, \<open>OrderReservationProcessor.cpp\<close>,
    \<open>OrderReservedHandler.cpp\<close>.
  \<^item> \<open>Http\<close>: \<open>shared/http\<close>. \<open>OrderApi\<close>: \<open>order-service/handlers\<close>. \<open>Configuration\<close>: the configuration classes of
    \<open>shared/models\<close> and their mappers. \<open>Gateway\<close>: \<open>gateway/handlers\<close>. \<open>Startup\<close>: the three \<open>main.cpp\<close>.
  \<^item> \<open>OrderFlow\<close>: the services put together, when nothing fails. \<open>OrderSystem\<close>: the order service, the worker, their
    databases, outboxes and topics as one transition system, in which requests, publications, deliveries, redeliveries,
    failures and restarts come in any order. \<open>OrderLifecycle\<close>: what holds in all its states, and the abstract life of an
    order that it refines. \<open>Delivery\<close>: a consumer with its broker, its handler and restarts; \<open>PollingLoop\<close>: what
    a turn of its loop does; \<open>OrderDelivery\<close>: the consumers of both services in this system.

  \<^bold>\<open>How code becomes definitions.\<close> A class is a record with the prefix of its initials, a method a function that
  returns its result and the new object, \<open>std::expected\<close> a sum whose left side is the error. A section of code that
  holds a mutex is one step; threads are interleaved by the step relations \<open>pool_history\<close> (in which taking a task
  and calling it are two steps), \<open>pipeline_step\<close>,
  \<open>pool_step\<close> (the gateway's idle connections), \<open>server_step\<close>, \<open>call_step\<close> (the accesses to the registry of loggers),
  \<open>relay_step\<close> (sending, storing, acknowledging and marking an entry of an outbox), \<open>system_step\<close> (both services, one
  step for each transaction; the confirmation of a reservation has two, \<open>confirm_read\<close> and \<open>confirm_change\<close>) and
  \<open>delivery_step\<close> (a consumer: records stored, read, executed and committed, rebalances, restarts). The executor of a record is a machine with one
  step per access to something shared (\<open>execute_step\<close>). The \<open>main\<close> functions of order service and worker pass the state of the
  process on (\<open>process\<close>: publisher and consumer with their threads); a return from \<open>main\<close> destroys its variables, \<open>std::exit\<close> does not. Offsets, generations and amounts are 64-bit (\<open>wrap_i64\<close> where the
  code can wrap), ports and status codes 16-bit, error values 8-bit. A transaction works on a copy of the tables that
  replaces them when it commits; each statement may fail with each exception, a commit may fail or be in doubt.

  \<^bold>\<open>Parameters.\<close> Code that is not part of the sources is an argument: \<open>json_lib\<close> (nlohmann::json; its laws are the
  locales \<open>json_laws\<close> and \<open>json_ranges\<close>, which \<open>JsonValue\<close> interprets), \<open>tx_env\<close> and \<open>driver\<close> (PostgreSQL and
  libpqxx: faults, UUIDs, outcome of commits), \<open>spdlog_lib\<close> (the registry of spdlog), \<open>turn_input\<close>, \<open>rebalance\<close> and the delivery report of the producer
  (librdkafka), \<open>is_address\<close> (\<open>make_address\<close>), \<open>upstream\<close> (resolving, connecting and exchanging in
  the proxy), \<open>session_input\<close> (what a socket gives), \<open>observation\<close> (answers of handler, sink and stop token),
  the environment, the parsed command line and the outcome of creating the parts in \<open>Startup\<close>.

  \<^bold>\<open>Interfaces.\<close> \<open>ordered_map\<close> (what the registry needs of its map), \<open>commit_tracker\<close> (what the registry needs of
  a tracker: positions cover finished records only), \<open>json_laws\<close> and \<open>json_ranges\<close> (what the mappers need of the
  library), \<open>worker_repository\<close> (what the reservation handler needs of its repository: recording is atomic and happens
  once for each key), \<open>order_status_repository\<close> (what the confirmation of reservations needs: a change of status
  compares and sets), \<open>spdlog_registry\<close> (what \<open>get\<close> needs of the registry: a name is registered once),
  \<open>service_libraries\<close> (what the whole system needs: the laws of JSON, of the column type \<open>jsonb\<close> and of row order),
  \<open>event_handler\<close> (what a consumer needs of its \<open>IEventHandler\<close>: after \<open>true\<close> the record has had its effect, and nobody
  undoes it; a sublocale of \<open>service_libraries\<close> for the handler of each service). Each is interpreted by the
  definitions that implement it.

  \<^bold>\<open>What is shown.\<close>

  \<^item> Messaging: a committed position never passes a record that is not finished, for the tracker, the registry, the
    pipeline under all interleavings, and the broker; no record is lost while the pipeline runs; when it is idle and no
    task threw, all is committed; a task that throws is not run again and holds up the commits of its partition; tickets of an earlier assignment are without effect; the executor makes exactly the calls, pauses and
    dead-letter sends of its policy and ends; the pool keeps a bounded queue and calls each accepted task at most once, and none is lost before it is
    stopped (the order of the calls is left open, as the class comment says); what each turn of the polling loop assigns, accepts, pauses, commits and
    remembers; a published record arrives with its payload and metadata.
  \<^item> Orders: amounts and totals are exact or reported as overflow; every order read is well formed; orders and events
    survive their round trip through JSON and through the tables.
  \<^item> Persistence: \<open>save\<close> is atomic, a change of status succeeds once, the outbox marks only what the broker
    acknowledged and is emptied in order when nothing fails, a reservation is recorded once however often it is
    delivered, and a lost connection stays lost.
  \<^item> Interfaces to the outside: an order is returned as it was posted; what each answer says about the database; the
    proxy sends a request at most twice and never shares a connection; database URLs, host
    names and environment; the services accept work only while publisher and consumer have their threads,
    stop them in order and leave none behind, except for the publisher of the order service when its consumer cannot be created.
  \<^item> The whole: when nothing fails a posted order becomes \<open>Reserved\<close>. Whatever fails, is delivered again or is
    interrupted by a restart: no order is reserved twice, none is lost, and each step
    moves at most one order along its life. A batch of the outbox is a sequence of the steps that this rests on, with exactly the
    acknowledged entries marked. What a
    service has committed to the broker is done: each record before the committed offset has led to the reservation of its order,
    or to its confirmation, or is in the dead-letter queue, also across rebalances and restarts; and what it has not committed can be delivered again from every
    state, with that effect. A record that was dead-lettered is committed and not delivered again: its order stays as it is.
  \<^item> Logging: a thread alone gets its logger; two threads that need the same new one at once may not.

  \<^bold>\<open>Termination and bounds.\<close> \<open>pump\<close>, \<open>lower_bound\<close> and \<open>advancePrefix\<close> are total, with measures on the backlog, the
  interval and the entries left. Loops that run until a thread is stopped (\<open>outbox_run\<close>, \<open>handleSession\<close>, the polling loop)
  recurse over the list of what the outside answers, one element for each turn, and every statement holds for all
  such lists. \<open>exec_run\<close> recurses in the same way over the observations of an execution; \<open>execute_terminates\<close> shows
  that \<open>3n + 4\<close> of them are enough for \<open>n\<close> allowed attempts when the dead-letter sink accepts (it is retried without a
  bound, so that otherwise nothing ends it but the stop token).

  \<^bold>\<open>Not modelled.\<close> What log calls print: output that nothing depends on. The socket layer,
  coroutines and timeouts of Boost, the command line of CLI11, Kafka and PostgreSQL themselves: libraries and servers,
  present as parameters. Running the migrations (their tables, keys and checks are the tables of the
  repositories), indexes and the column \<open>updated_at\<close>, which nothing reads. Mocks, tests, load tests, monitoring and builds: not part of the services.
  \<open>analytics-service\<close> and \<open>search-service\<close> are empty.

  \<^bold>\<open>Simplifications.\<close> Transactions are serialised: between the two of \<open>OrderReservedHandler\<close> others
  may change the tables, within one nobody does. A log call has no effect, but any task of
  the pool may throw at any point (\<open>task_throws\<close>). In \<open>OrderSystem\<close> a topic keeps all its records and may deliver each
  of them at any time and any number of times, which covers every order of commits and rebalances of the consumers. In
  \<open>Delivery\<close> a consumer is the only one of its group, its client reads each partition from the committed offset on in the
  order of the offsets, and the records of a topic are those that were published to it. \<open>HttpServer::stop\<close> is one step. The attempt counters of the executor
  are unbounded. \<open>run_turn\<close> is one piece towards the workers; the operations it is made of are interleaved with them
  in \<open>pipeline_step\<close> and \<open>delivery_step\<close>. There a worker takes a task and begins it in one step. \<open>ORDER BY created_at\<close> gives the rows in the order of the table: equal times and transactions that
  commit in another order than they began are left out. \<open>toBeastResponse\<close> and \<open>dump\<close> are total: Beast refuses status codes above 999, which
  no handler gives and an upstream's parser does not accept, and nlohmann refuses texts that are not UTF-8, which its parser does not let in.
  \<open>std::pow\<close> rounds correctly.

  \<^bold>\<open>Possible extensions.\<close> Several instances of a service in one consumer group, and the gateway in front of several
  sessions at once.
\<close>

end
